(* ===== verification/Prelude_Go.thy ===== *)
theory Prelude_Go
  imports Main "HOL-Library.Word" "HOL-Library.Multiset" "HOL-Library.Char_ord"
    "HOL-Library.List_Lexorder" "HOL-Library.Product_Lexorder"
begin

text \<open>
  The prelude of the KilnCache development: Go's byte strings and the functions of the packages
  \<^verbatim>\<open>strings\<close>, \<^verbatim>\<open>sort\<close>, \<^verbatim>\<open>encoding/hex\<close> and \<^verbatim>\<open>encoding/binary\<close> that the sources call,
  association lists for Go maps, and the generic lemmas that every component uses.

  A Go string and a Go byte slice are both a \<^typ>\<open>string\<close>: a list of \<^typ>\<open>char\<close>, which in
  HOL are bytes. Go compares strings byte by byte, which is the lexicographic order that
  \<^verbatim>\<open>List_Lexorder\<close> gives to \<^typ>\<open>string\<close>. An \<^verbatim>\<open>int64\<close> counter or size is an \<^typ>\<open>int\<close>,
  a time is an \<^typ>\<open>int\<close> in nanoseconds since the epoch, and a \<^verbatim>\<open>uint64\<close> is a
  \<^typ>\<open>64 word\<close>, which wraps.
\<close>

named_theorems strings_simps \<open>unfolding rules of the string functions\<close>
named_theorems assoc_simps \<open>lookup, keys and distinctness of association lists\<close>

section \<open>Types shared by the components\<close>

type_synonym byte = char
type_synonym bytes = string
type_synonym u64 = "64 word"
type_synonym time = int
type_synonym ('k, 'v) gomap = "('k \<times> 'v) list"

section \<open>Strings\<close>

text \<open>\<^verbatim>\<open>strings.HasPrefix\<close> and \<^verbatim>\<open>strings.HasSuffix\<close>.\<close>

fun has_prefix :: "string \<Rightarrow> string \<Rightarrow> bool" where
  "has_prefix s [] = True"
| "has_prefix [] (p # ps) = False"
| "has_prefix (c # s) (p # ps) = (c = p \<and> has_prefix s ps)"

definition has_suffix :: "string \<Rightarrow> string \<Rightarrow> bool" where
  "has_suffix s p = has_prefix (rev s) (rev p)"

text \<open>\<^verbatim>\<open>strings.TrimPrefix\<close> and \<^verbatim>\<open>strings.TrimSuffix\<close> take one occurrence off, if there is one.\<close>

definition trim_prefix :: "string \<Rightarrow> string \<Rightarrow> string" where
  "trim_prefix s p = (if has_prefix s p then drop (length p) s else s)"

definition trim_suffix :: "string \<Rightarrow> string \<Rightarrow> string" where
  "trim_suffix s p = (if has_suffix s p then take (length s - length p) s else s)"

text \<open>\<^verbatim>\<open>strings.Contains\<close>.\<close>

fun contains :: "string \<Rightarrow> string \<Rightarrow> bool" where
  "contains [] p = (p = [])"
| "contains (c # s) p = (has_prefix (c # s) p \<or> contains s p)"

text \<open>\<^verbatim>\<open>strings.Cut\<close> at a one-byte separator: the text before the first occurrence, the text after
  it and whether there is one.\<close>

fun cut :: "string \<Rightarrow> char \<Rightarrow> string \<times> string \<times> bool" where
  "cut [] sep = ([], [], False)"
| "cut (c # s) sep =
     (if c = sep then ([], s, True)
      else case cut s sep of (before, after, found) \<Rightarrow> (c # before, after, found))"

text \<open>\<^verbatim>\<open>strings.Split\<close> at a one-byte separator.\<close>

fun split_on :: "char \<Rightarrow> string \<Rightarrow> string list" where
  "split_on sep [] = [[]]"
| "split_on sep (c # s) =
     (if c = sep then [] # split_on sep s
      else case split_on sep s of [] \<Rightarrow> [[c]] | w # ws \<Rightarrow> (c # w) # ws)"

text \<open>\<^verbatim>\<open>strings.TrimRight(s, "/")\<close> and \<^verbatim>\<open>strings.TrimSpace\<close>, the latter over the ASCII white
  space characters (tab, line feed, vertical tab, form feed, carriage return and space).\<close>

definition trim_right :: "char \<Rightarrow> string \<Rightarrow> string" where
  "trim_right c s = rev (dropWhile (\<lambda>x. x = c) (rev s))"

definition is_space :: "char \<Rightarrow> bool" where
  "is_space c = (of_char c \<in> {9, 10, 11, 12, 13, 32 :: nat})"

definition trim_space :: "string \<Rightarrow> string" where
  "trim_space s = rev (dropWhile is_space (rev (dropWhile is_space s)))"

text \<open>\<^verbatim>\<open>strings.ToLower\<close> and \<^verbatim>\<open>strings.ToUpper\<close> on ASCII letters.\<close>

definition lower_char :: "char \<Rightarrow> char" where
  "lower_char c = (if CHR ''A'' \<le> c \<and> c \<le> CHR ''Z'' then char_of (of_char c + 32 :: nat) else c)"

definition upper_char :: "char \<Rightarrow> char" where
  "upper_char c = (if CHR ''a'' \<le> c \<and> c \<le> CHR ''z'' then char_of (of_char c - 32 :: nat) else c)"

definition to_lower :: "string \<Rightarrow> string" where
  "to_lower s = map lower_char s"

definition to_upper :: "string \<Rightarrow> string" where
  "to_upper s = map upper_char s"

text \<open>\<^verbatim>\<open>strings.Join\<close>.\<close>

fun join :: "string \<Rightarrow> string list \<Rightarrow> string" where
  "join sep [] = []"
| "join sep [s] = s"
| "join sep (s # t # ts) = s @ sep @ join sep (t # ts)"

text \<open>Decimal digits: \<^verbatim>\<open>strconv.Itoa\<close>, \<^verbatim>\<open>strconv.FormatInt(n, 10)\<close> and the verb \<^verbatim>\<open>%d\<close>.\<close>

definition digit_char :: "nat \<Rightarrow> char" where
  "digit_char d = char_of (48 + d)"

fun show_nat :: "nat \<Rightarrow> string" where
  "show_nat n = (if n < 10 then [digit_char n] else show_nat (n div 10) @ [digit_char (n mod 10)])"

declare show_nat.simps [simp del]

definition show_int :: "int \<Rightarrow> string" where
  "show_int i = (if i < 0 then CHR ''-'' # show_nat (nat (- i)) else show_nat (nat i))"

section \<open>Hexadecimal and big-endian decoding\<close>

text \<open>The test \<open>c >= '0' && c <= '9' || c >= 'a' && c <= 'f'\<close> that both \<^verbatim>\<open>storage.ValidateKey\<close>
  and \<^verbatim>\<open>cluster.isHex\<close> make.\<close>

definition is_hex_char :: "char \<Rightarrow> bool" where
  "is_hex_char c =
     ((CHR ''0'' \<le> c \<and> c \<le> CHR ''9'') \<or> (CHR ''a'' \<le> c \<and> c \<le> CHR ''f''))"

text \<open>\<^verbatim>\<open>hex.EncodeToString\<close>.\<close>

definition hex_digit :: "nat \<Rightarrow> char" where
  "hex_digit d = (if d < 10 then char_of (48 + d) else char_of (87 + d))"

fun hex_encode :: "bytes \<Rightarrow> string" where
  "hex_encode [] = []"
| "hex_encode (b # bs) =
     hex_digit (of_char b div 16) # hex_digit (of_char b mod 16) # hex_encode bs"

text \<open>\<^verbatim>\<open>binary.BigEndian.Uint64\<close> of the first eight bytes.\<close>

definition be_uint64 :: "bytes \<Rightarrow> u64" where
  "be_uint64 bs = foldl (\<lambda>v b. v * 256 + of_nat (of_char b)) 0 (take 8 bs)"

section \<open>Sorting with a comparator\<close>

text \<open>
  \<^verbatim>\<open>sort.Slice\<close> sorts by a strict order \<open>lt\<close>. Go does not fix the algorithm; the comparators
  of the sources are strict total orders on the elements they meet, so the sorted permutation is
  unique (lemma \<open>sorted_perm_unique\<close> below) and insertion sort computes it.
\<close>

fun insort_by :: "('a \<Rightarrow> 'a \<Rightarrow> bool) \<Rightarrow> 'a \<Rightarrow> 'a list \<Rightarrow> 'a list" where
  "insort_by lt x [] = [x]"
| "insort_by lt x (y # ys) = (if lt y x then y # insort_by lt x ys else x # y # ys)"

fun sort_by :: "('a \<Rightarrow> 'a \<Rightarrow> bool) \<Rightarrow> 'a list \<Rightarrow> 'a list" where
  "sort_by lt [] = []"
| "sort_by lt (x # xs) = insort_by lt x (sort_by lt xs)"

section \<open>Go maps as association lists\<close>

definition mget :: "('k, 'v) gomap \<Rightarrow> 'k \<Rightarrow> 'v option" where
  "mget m k = map_of m k"

fun mput :: "'k \<Rightarrow> 'v \<Rightarrow> ('k, 'v) gomap \<Rightarrow> ('k, 'v) gomap" where
  "mput k v [] = [(k, v)]"
| "mput k v ((k', v') # m) = (if k' = k then (k, v) # m else (k', v') # mput k v m)"

definition mdel :: "'k \<Rightarrow> ('k, 'v) gomap \<Rightarrow> ('k, 'v) gomap" where
  "mdel k m = filter (\<lambda>(k', v'). k' \<noteq> k) m"

abbreviation mkeys :: "('k, 'v) gomap \<Rightarrow> 'k list" where
  "mkeys m \<equiv> map fst m"

section \<open>A hash function for examples\<close>

text \<open>
  SHA-256 is a parameter of the development, a function from bytes to 32 bytes. The examples
  instantiate it with this function, which gives 32 bytes and is enough to tell short texts apart.
\<close>

definition ex_sha :: "bytes \<Rightarrow> bytes" where
  "ex_sha b = take 32 (rev b @ replicate 32 (CHR 0x00))"

section \<open>Lemmas: sorting\<close>

lemma insort_by_key:
  assumes "\<And>x y. lt x y = (f x < f y)"
  shows "insort_by lt x xs = insort_key f x xs"
  by (induction xs) (auto simp: assms)

lemma sort_by_key:
  assumes "\<And>x y. lt x y = (f x < f y)"
  shows "sort_by lt xs = sort_key f xs"
  by (induction xs) (simp_all add: insort_by_key [of lt f, OF assms])

lemma mset_insort_by [simp]: "mset (insort_by lt x xs) = add_mset x (mset xs)"
  by (induction xs) auto

lemma mset_sort_by [simp]: "mset (sort_by lt xs) = mset xs"
  by (induction xs) auto

lemma set_sort_by [simp]: "set (sort_by lt xs) = set xs"
  by (metis mset_sort_by set_mset_mset)

lemma length_sort_by [simp]: "length (sort_by lt xs) = length xs"
  by (metis mset_sort_by size_mset)

lemma sorted_perm_unique:
  assumes "mset ys = mset xs" "inj_on f (set xs)" "sorted (map f ys)"
  shows "ys = sort_key f xs"
  using sort_key_inj_key_eq [of xs ys f] assms by simp

section \<open>Lemmas: association lists\<close>

lemma mget_Nil [simp]: "mget [] k = None"
  by (simp add: mget_def)

lemma mget_Cons [simp]: "mget ((k', v) # m) k = (if k' = k then Some v else mget m k)"
  by (simp add: mget_def)

lemma mget_mput [assoc_simps, simp]:
  "mget (mput k v m) k' = (if k' = k then Some v else mget m k')"
  by (induction m) auto

lemma mget_mdel [assoc_simps, simp]:
  "mget (mdel k m) k' = (if k' = k then None else mget m k')"
  by (induction m) (auto simp: mdel_def)

lemma mkeys_mput [assoc_simps]:
  "set (mkeys (mput k v m)) = insert k (set (mkeys m))"
proof (induction m)
  case (Cons a m)
  then show ?case by (cases a) (auto simp del: set_map)
qed simp

lemma distinct_mput [assoc_simps, intro]: "distinct (mkeys m) \<Longrightarrow> distinct (mkeys (mput k v m))"
proof (induction m)
  case (Cons a m)
  then show ?case using mkeys_mput [of k v m] by (cases a) (auto simp del: set_map)
qed simp

lemma mkeys_mdel [assoc_simps]: "set (mkeys (mdel k m)) = set (mkeys m) - {k}"
  by (induction m) (auto simp: mdel_def)

lemma distinct_mdel [assoc_simps, intro]: "distinct (mkeys m) \<Longrightarrow> distinct (mkeys (mdel k m))"
  by (auto simp: mdel_def distinct_map inj_on_def)

lemma mget_None_iff: "mget m k = None \<longleftrightarrow> k \<notin> set (mkeys m)"
  by (simp add: mget_def map_of_eq_None_iff)

lemma mget_Some_mem: "mget m k = Some v \<Longrightarrow> (k, v) \<in> set m"
  by (simp add: mget_def map_of_SomeD)

lemma mget_Some_key: "mget m k = Some v \<Longrightarrow> k \<in> set (mkeys m)"
  by (metis mget_None_iff option.distinct(1))

lemma mem_mget: "distinct (mkeys m) \<Longrightarrow> (k, v) \<in> set m \<Longrightarrow> mget m k = Some v"
  by (simp add: mget_def)

lemma mget_mem_iff: "distinct (mkeys m) \<Longrightarrow> mget m k = Some v \<longleftrightarrow> (k, v) \<in> set m"
  by (auto intro: mem_mget mget_Some_mem)

lemma mset_mdel:
  "distinct (mkeys m) \<Longrightarrow> mget m k = Some v \<Longrightarrow> mset m = add_mset (k, v) (mset (mdel k m))"
proof (induction m)
  case Nil
  then show ?case by simp
next
  case (Cons a m)
  obtain k' v' where a: "a = (k', v')" by fastforce
  show ?case
  proof (cases "k' = k")
    case True
    with Cons.prems a have "\<forall>x \<in> set m. fst x \<noteq> k" by force
    then have "mdel k m = m" by (auto simp: mdel_def filter_id_conv)
    with Cons.prems a True show ?thesis by (simp add: mdel_def)
  next
    case False
    with Cons a show ?thesis by (simp add: mdel_def)
  qed
qed

lemma length_mdel_less: "k \<in> set (mkeys m) \<Longrightarrow> length (mdel k m) < length m"
  by (auto simp: mdel_def intro!: length_filter_less)

section \<open>Lemmas: strings\<close>

lemma has_prefix_append [simp]: "has_prefix (p @ s) p"
  by (induction p) auto

lemma has_prefix_iff: "has_prefix s p \<longleftrightarrow> (\<exists>t. s = p @ t)"
  by (induction s p rule: has_prefix.induct) auto

lemma trim_prefix_append [strings_simps, simp]: "trim_prefix (p @ s) p = s"
  by (simp add: trim_prefix_def)

lemma cut_notin: "sep \<notin> set s \<Longrightarrow> cut s sep = (s, [], False)"
  by (induction s) auto

lemma cut_append: "sep \<notin> set a \<Longrightarrow> cut (a @ sep # b) sep = (a, b, True)"
  by (induction a) auto

lemma cut_found: "cut s sep = (a, b, True) \<Longrightarrow> s = a @ sep # b \<and> sep \<notin> set a"
  by (induction s arbitrary: a) (auto split: if_splits prod.splits)

lemma contains_singleton: "contains s [c] \<longleftrightarrow> c \<in> set s"
proof (induction s)
  case Nil
  then show ?case by simp
next
  case (Cons a s)
  have "has_prefix (a # s) [c] = (a = c)" by simp
  with Cons show ?case by auto
qed

lemma length_hex_encode [simp]: "length (hex_encode bs) = 2 * length bs"
  by (induction bs) auto

lemma trim_space_id:
  assumes "s \<noteq> []" "\<not> is_space (hd s)" "\<not> is_space (last s)"
  shows "trim_space s = s"
proof -
  have "dropWhile is_space s = s" using assms by (cases s) auto
  moreover have "dropWhile is_space (rev s) = rev s" using assms by (cases s rule: rev_cases) auto
  ultimately show ?thesis by (simp add: trim_space_def)
qed

lemma dropWhile_hd: "dropWhile P s \<noteq> [] \<Longrightarrow> \<not> P (hd (dropWhile P s))"
  by (induction s) auto

lemma trim_space_ends:
  assumes "trim_space s = s" "s \<noteq> []"
  shows "\<not> is_space (hd s)" "\<not> is_space (last s)"
proof -
  define t where "t = dropWhile is_space s"
  have t: "rev (dropWhile is_space (rev t)) = s" using assms by (simp add: trim_space_def t_def)
  have "length s \<le> length t" using length_dropWhile_le [of is_space "rev t"] t
    by (metis length_rev)
  then have "t = s" by (metis dropWhile_eq_drop drop_eq_Nil2 le_antisym length_dropWhile_le same_append_eq
      takeWhile_dropWhile_id t_def append_eq_append_conv append_self_conv2)
  then show "\<not> is_space (hd s)" using assms dropWhile_hd [of is_space s] by (simp add: t_def)
  have "dropWhile is_space (rev s) = rev s" using t \<open>t = s\<close> by (metis rev_rev_ident)
  then show "\<not> is_space (last s)" using assms dropWhile_hd [of is_space "rev s"]
    by (simp add: hd_rev)
qed

lemma trim_right_id: "s \<noteq> [] \<Longrightarrow> last s \<noteq> c \<Longrightarrow> trim_right c s = s"
  by (cases s rule: rev_cases) (auto simp: trim_right_def)

lemma split_on_notin: "sep \<notin> set s \<Longrightarrow> split_on sep s = [s]"
  by (induction s) auto

lemma split_on_append: "sep \<notin> set a \<Longrightarrow> split_on sep (a @ sep # b) = a # split_on sep b"
  by (induction a) auto

lemma split_on_join:
  assumes "xs \<noteq> []" "\<And>x. x \<in> set xs \<Longrightarrow> sep \<notin> set x"
  shows "split_on sep (join [sep] xs) = xs"
  using assms by (induction "[sep]" xs rule: join.induct) (auto simp: split_on_notin split_on_append)

lemma hd_join: "x \<noteq> [] \<Longrightarrow> hd (join sep (x # xs)) = hd x"
  by (cases xs) auto

lemma join_eq_Nil: "x \<noteq> [] \<Longrightarrow> join sep (x # xs) \<noteq> []"
  by (cases xs) auto

lemma join_ne: "xs \<noteq> [] \<Longrightarrow> last xs \<noteq> [] \<Longrightarrow> join sep xs \<noteq> []"
  by (induction sep xs rule: join.induct) auto

lemma last_join: "xs \<noteq> [] \<Longrightarrow> last xs \<noteq> [] \<Longrightarrow> last (join sep xs) = last (last xs)"
proof (induction sep xs rule: join.induct)
  case (3 sep s t ts)
  have "join sep (t # ts) \<noteq> []" using 3 by (intro join_ne) auto
  with 3 show ?case by simp
qed auto

end
