(* ===== verification/GoErr.thy ===== *)
theory GoErr
  imports Prelude_Go
begin

text \<open>
  The error values of the program (\<^verbatim>\<open>internal/storage/errors.go\<close>, the error types of
  \<^verbatim>\<open>internal/cluster\<close> and \<^verbatim>\<open>internal/protocol\<close>), Go's \<^verbatim>\<open>errors.Is\<close> over their unwrap chains, and
  their message texts, which \<^verbatim>\<open>httpapi.isBodyReadError\<close> inspects.

  A function that returns \<^verbatim>\<open>error\<close> returns a \<open>go_error option\<close> (\<open>None\<close> is \<^verbatim>\<open>nil\<close>); one that
  returns a value and an error returns a sum with the error on the left.
\<close>

section \<open>Error values\<close>

text \<open>
  \<open>IoErr t\<close> is an error of the operating system, the network or the database with text \<open>t\<close>.
  \<open>NewError t\<close> is an error made by \<^verbatim>\<open>errors.New\<close> or by \<^verbatim>\<open>fmt.Errorf\<close> without \<^verbatim>\<open>%w\<close>; its text
  leaves out the formatted values. \<open>Wrapped t e\<close> is \<^verbatim>\<open>fmt.Errorf("t: %w", e)\<close>.
\<close>

datatype go_error =
    ErrNotFound
  | ErrClosed
  | ErrBadKey string
  | ErrBadNamespace string
  | DigestMismatchError (dm_want: string) (dm_got: string) (dm_size: int)
  | TooLargeError (tl_size: int) (tl_limit: int)
  | ErrShortWrite (sw_declared: int) (sw_received: int)
  | ErrDirSyncUnsupported
  | ErrOverQuota
  | InsufficientReplicasError (ir_key: string) (ir_wanted: nat) (ir_got: nat)
      (ir_holders: "string list") (ir_causes: "go_error list")
  | ErrPeerNotFound
  | PeerError (pe_peer: string) (pe_op: string) (pe_status: nat) (pe_body: string)
      (pe_err: "go_error option")
  | CtxCanceled
  | CtxDeadlineExceeded
  | SqlErrNoRows
  | ErrEmptyMembership
  | ErrNoSuchPeer string
  | NewError string
  | IoErr string
  | Wrapped string go_error

text \<open>The sentinel values that call sites match with \<^verbatim>\<open>errors.Is\<close>.\<close>

datatype sentinel =
    SNotFound | SClosed | SBadKey | SBadNamespace | SDigestMismatch | STooLarge | SShortWrite
  | SDirSyncUnsupported | SOverQuota | SInsufficientReplicas | SPeerNotFound
  | SCanceled | SDeadlineExceeded | SNoRows | SEmptyMembership | SNoSuchPeer

type_synonym 'a result = "go_error + 'a"

section \<open>Matching\<close>

text \<open>
  \<^verbatim>\<open>errors.Is\<close>: the sentinel an error unwraps to. \<^verbatim>\<open>DigestMismatchError\<close>, \<^verbatim>\<open>TooLargeError\<close> and
  \<^verbatim>\<open>InsufficientReplicasError\<close> unwrap to their sentinels and to nothing else (the causes of the
  last are not in its chain); \<^verbatim>\<open>PeerError\<close> unwraps to its transport error, if it has one.
\<close>

fun errors_is :: "go_error \<Rightarrow> sentinel \<Rightarrow> bool" where
  "errors_is ErrNotFound s = (s = SNotFound)"
| "errors_is ErrClosed s = (s = SClosed)"
| "errors_is (ErrBadKey _) s = (s = SBadKey)"
| "errors_is (ErrBadNamespace _) s = (s = SBadNamespace)"
| "errors_is (DigestMismatchError _ _ _) s = (s = SDigestMismatch)"
| "errors_is (TooLargeError _ _) s = (s = STooLarge)"
| "errors_is (ErrShortWrite _ _) s = (s = SShortWrite)"
| "errors_is ErrDirSyncUnsupported s = (s = SDirSyncUnsupported)"
| "errors_is ErrOverQuota s = (s = SOverQuota)"
| "errors_is (InsufficientReplicasError _ _ _ _ _) s = (s = SInsufficientReplicas)"
| "errors_is ErrPeerNotFound s = (s = SPeerNotFound)"
| "errors_is (PeerError _ _ _ _ None) s = False"
| "errors_is (PeerError _ _ _ _ (Some e)) s = errors_is e s"
| "errors_is CtxCanceled s = (s = SCanceled)"
| "errors_is CtxDeadlineExceeded s = (s = SDeadlineExceeded)"
| "errors_is SqlErrNoRows s = (s = SNoRows)"
| "errors_is ErrEmptyMembership s = (s = SEmptyMembership)"
| "errors_is (ErrNoSuchPeer _) s = (s = SNoSuchPeer)"
| "errors_is (NewError _) s = False"
| "errors_is (IoErr _) s = False"
| "errors_is (Wrapped _ e) s = errors_is e s"

text \<open>\<^verbatim>\<open>errors.As(err, &pe)\<close> for a \<^verbatim>\<open>*cluster.PeerError\<close>: the first one in the chain.\<close>

fun as_peer_error :: "go_error \<Rightarrow> go_error option" where
  "as_peer_error (PeerError p op st b e) = Some (PeerError p op st b e)"
| "as_peer_error (Wrapped _ e) = as_peer_error e"
| "as_peer_error _ = None"

section \<open>Messages\<close>

text \<open>\<open>quoted\<close> is the verb \<^verbatim>\<open>%q\<close> on printable ASCII text without quotes or backslashes.\<close>

definition quoted :: "string \<Rightarrow> string" where
  "quoted s = CHR 0x22 # s @ [CHR 0x22]"

text \<open>\<^verbatim>\<open>short\<close>: the first twelve bytes of a key.\<close>

definition short :: "string \<Rightarrow> string" where
  "short key = (if length key > 12 then take 12 key else key)"

fun error_text :: "go_error \<Rightarrow> string" where
  "error_text ErrNotFound = ''object not found''"
| "error_text ErrClosed = ''store is closed''"
| "error_text (ErrBadKey d) = ''invalid key: '' @ d"
| "error_text (ErrBadNamespace d) = ''invalid namespace: '' @ quoted d"
| "error_text (DigestMismatchError w g n) =
     ''digest mismatch: key '' @ w @ '' but content hashes to '' @ g @ '' ('' @ show_int n @ '' bytes)''"
| "error_text (TooLargeError n l) =
     ''object too large: '' @ show_int n @ '' bytes exceeds the per-object limit of '' @ show_int l"
| "error_text (ErrShortWrite d r) =
     ''body shorter than declared content length: declared '' @ show_int d @ '', received '' @ show_int r"
| "error_text ErrDirSyncUnsupported = ''directory fsync is not supported by this filesystem''"
| "error_text ErrOverQuota = ''node is over its storage high-water mark''"
| "error_text (InsufficientReplicasError k w g hs cs) =
     ''could not write the required number of copies: wrote '' @ show_nat g @ '' of '' @ show_nat w
      @ '' copies of '' @ short k @ '' (holders ['' @ join '' '' hs @ '']): ''
      @ join [CHR 0x0A] (map error_text cs)"
| "error_text ErrPeerNotFound = ''peer does not have the object''"
| "error_text (PeerError p op st b (Some e)) = ''peer '' @ p @ '': '' @ op @ '': '' @ error_text e"
| "error_text (PeerError p op st b None) =
     ''peer '' @ p @ '': '' @ op @ '': status '' @ show_nat st @ '': '' @ trim_space b"
| "error_text CtxCanceled = ''context canceled''"
| "error_text CtxDeadlineExceeded = ''context deadline exceeded''"
| "error_text SqlErrNoRows = ''sql: no rows in result set''"
| "error_text ErrEmptyMembership = ''cluster: membership must not be empty''"
| "error_text (ErrNoSuchPeer d) = ''node name is not a member of the peer list: '' @ d"
| "error_text (NewError t) = t"
| "error_text (IoErr t) = t"
| "error_text (Wrapped t e) = t @ '': '' @ error_text e"

text \<open>\<^verbatim>\<open>PeerError.Retryable\<close>: a transport failure, a 5xx status or 429.\<close>

fun Retryable :: "go_error \<Rightarrow> bool" where
  "Retryable (PeerError p op st b (Some e)) = True"
| "Retryable (PeerError p op st b None) = (st \<ge> 500 \<or> st = 429)"
| "Retryable _ = False"

section \<open>Lemmas\<close>

text \<open>An error matches at most one sentinel, so the order of the cases of a \<^verbatim>\<open>switch\<close> over
  \<^verbatim>\<open>errors.Is\<close> tests does not matter.\<close>

lemma errors_is_unique: "errors_is e s \<Longrightarrow> errors_is e t \<Longrightarrow> s = t"
  by (induction e s rule: errors_is.induct) auto

lemma errors_is_wrapped [simp]: "errors_is (Wrapped t e) s = errors_is e s"
  by simp

end
