(* ===== verification/Keys.thy ===== *)
theory Keys
  imports GoErr
begin

text \<open>
  \<^verbatim>\<open>internal/storage/key.go\<close>: namespaces, key validation and the sharded object path, with the
  lemmas that make the layout safe: distinct objects have distinct paths, no object path leaves
  its namespace tree, and no temporary upload can be named by a key.

  A file path is the list of its components (\<^verbatim>\<open>filepath.Join\<close> appends).
\<close>

section \<open>Namespaces\<close>

type_synonym namespace = string
type_synonym key = string
type_synonym objRef = "namespace \<times> key"
type_synonym path = "string list"

definition NamespaceCAS :: "namespace" where
  "NamespaceCAS = ''cas''"

definition NamespaceAC :: "namespace" where
  "NamespaceAC = ''ac''"

definition ns_Valid :: "namespace \<Rightarrow> bool" where
  "ns_Valid ns = (ns = NamespaceCAS \<or> ns = NamespaceAC)"

definition ContentAddressed :: "namespace \<Rightarrow> bool" where
  "ContentAddressed ns = (ns = NamespaceCAS)"

definition ParseNamespace :: "string \<Rightarrow> namespace result" where
  "ParseNamespace s =
     (if to_lower s = NamespaceCAS then Inr NamespaceCAS
      else if to_lower s = NamespaceAC then Inr NamespaceAC
      else Inl (ErrBadNamespace s))"

section \<open>Keys\<close>

definition HashLen :: nat where
  "HashLen = 64"

text \<open>The loop of \<^verbatim>\<open>ValidateKey\<close>, at byte \<open>i\<close>.\<close>

fun validate_from :: "nat \<Rightarrow> string \<Rightarrow> go_error option" where
  "validate_from i [] = None"
| "validate_from i (c # s) =
     (if is_hex_char c then validate_from (Suc i) s
      else Some (ErrBadKey (''byte '' @ show_nat i @ '' is '' @ quoted [c] @ '', expected lowercase hex'')))"

definition ValidateKey :: "string \<Rightarrow> go_error option" where
  "ValidateKey s =
     (if length s \<noteq> HashLen
      then Some (ErrBadKey (''expected '' @ show_nat HashLen @ '' hex characters, got '' @ show_nat (length s)))
      else validate_from 0 s)"

section \<open>Object paths\<close>

definition ShardDepth :: nat where
  "ShardDepth = 2"

definition shardWidth :: nat where
  "shardWidth = 2"

text \<open>
  The slice \<open>key[i*shardWidth:(i+1)*shardWidth]\<close>. Go panics when it is out of range; every caller
  validates the key first (lemma \<open>valid_key_slices\<close>).
\<close>

definition shardDir :: "path \<Rightarrow> namespace \<Rightarrow> key \<Rightarrow> path" where
  "shardDir root ns key =
     root @ [ns] @ map (\<lambda>i. take shardWidth (drop (i * shardWidth) key)) [0..<ShardDepth]"

definition ObjectPath :: "path \<Rightarrow> namespace \<Rightarrow> key \<Rightarrow> path \<times> path" where
  "ObjectPath root ns key = (let dir = shardDir root ns key in (dir, dir @ [key]))"

abbreviation object_path :: "path \<Rightarrow> namespace \<Rightarrow> key \<Rightarrow> path" where
  "object_path root ns key \<equiv> snd (ObjectPath root ns key)"

text \<open>\<^verbatim>\<open>tmpPrefix\<close> of \<^verbatim>\<open>store.go\<close>: the name prefix of an upload in progress.\<close>

definition tmpPrefix :: string where
  "tmpPrefix = ''incoming-''"

abbreviation valid_key :: "string \<Rightarrow> bool" where
  "valid_key s \<equiv> ValidateKey s = None"

section \<open>Lemmas\<close>

lemma ns_Valid_simps [simp]: "ns_Valid NamespaceCAS" "ns_Valid NamespaceAC"
  by (simp_all add: ns_Valid_def)

lemma ns_distinct [simp]: "NamespaceCAS \<noteq> NamespaceAC" "NamespaceAC \<noteq> NamespaceCAS"
  by (simp_all add: NamespaceCAS_def NamespaceAC_def)

lemma ContentAddressed_simps [simp]:
  "ContentAddressed NamespaceCAS" "\<not> ContentAddressed NamespaceAC"
  by (simp_all add: ContentAddressed_def)

lemma validate_from_None: "validate_from i s = None \<longleftrightarrow> (\<forall>c \<in> set s. is_hex_char c)"
  by (induction s arbitrary: i) auto

lemma ValidateKey_iff:
  "ValidateKey s = None \<longleftrightarrow> length s = 64 \<and> (\<forall>c \<in> set s. is_hex_char c)"
  by (simp add: ValidateKey_def HashLen_def validate_from_None)

lemma ValidateKey_error: "ValidateKey s = Some e \<Longrightarrow> errors_is e SBadKey"
proof -
  have "validate_from i t = Some e' \<Longrightarrow> errors_is e' SBadKey" for i t e'
    by (induction t arbitrary: i) (auto split: if_splits)
  then show "ValidateKey s = Some e \<Longrightarrow> errors_is e SBadKey"
    by (auto simp: ValidateKey_def split: if_splits)
qed

lemma shardDir_eq:
  "shardDir root ns key = root @ [ns, take 2 key, take 2 (drop 2 key)]"
  by (simp add: shardDir_def ShardDepth_def shardWidth_def upt_rec)

lemma ObjectPath_eq:
  "ObjectPath root ns key =
     (root @ [ns, take 2 key, take 2 (drop 2 key)], root @ [ns, take 2 key, take 2 (drop 2 key), key])"
  by (simp add: ObjectPath_def shardDir_eq Let_def)

lemma valid_key_slices:
  "valid_key key \<Longrightarrow> i < ShardDepth \<Longrightarrow> (i + 1) * shardWidth \<le> length key"
  by (auto simp: ValidateKey_iff ShardDepth_def shardWidth_def)

lemma object_path_inj:
  "object_path root ns key = object_path root ns' key' \<longleftrightarrow> ns = ns' \<and> key = key'"
  by (auto simp: ObjectPath_eq)

lemma hex_char_not_special:
  "is_hex_char c \<Longrightarrow> c \<noteq> CHR ''/'' \<and> c \<noteq> CHR ''.'' \<and> c \<noteq> CHR ''i'' \<and> c \<noteq> CHR ''-''"
  by (auto simp: is_hex_char_def less_eq_char_def)

lemma tmp_name_not_key: "\<not> valid_key (tmpPrefix @ s)"
  by (auto simp: ValidateKey_iff tmpPrefix_def is_hex_char_def less_eq_char_def)

lemma object_path_not_tmp:
  assumes "ns_Valid ns"
  shows "object_path root ns key \<noteq> root @ [''tmp'', n]"
  using assms by (auto simp: ObjectPath_eq)

lemma hex_digit_hex: "d < 16 \<Longrightarrow> is_hex_char (hex_digit d)"
  by (auto simp: is_hex_char_def hex_digit_def less_eq_char_def)

lemma hex_encode_valid: "length b = 32 \<Longrightarrow> valid_key (hex_encode b)"
proof -
  have "\<forall>c \<in> set (hex_encode b). is_hex_char c"
  proof (induction b)
    case (Cons x b)
    have "(of_char x :: nat) < 256" by (metis of_char_mod_256 mod_less_divisor zero_less_numeral)
    then have "(of_char x :: nat) div 16 < 16" by (intro less_mult_imp_div_less) simp
    with Cons show ?case by (simp add: hex_digit_hex)
  qed simp
  then show "length b = 32 \<Longrightarrow> ?thesis" by (simp add: ValidateKey_iff)
qed

section \<open>Properties\<close>

text \<open>\<^verbatim>\<open>ValidateKey\<close> accepts exactly the strings of 64 lowercase hexadecimal digits, and every
  rejection matches \<^verbatim>\<open>ErrBadKey\<close>.\<close>

theorem ValidateKey_correct:
  "(ValidateKey s = None \<longleftrightarrow> length s = 64 \<and> set s \<subseteq> {c. is_hex_char c}) \<and>
   (\<forall>e. ValidateKey s = Some e \<longrightarrow> errors_is e SBadKey)"
  using ValidateKey_iff ValidateKey_error by blast

text \<open>C13: Object paths are safe. Distinct objects of a store have distinct paths; below the namespace
  directory every component of the path of a valid key is made of hexadecimal digits, so no key
  can name a parent directory or add a level; and the path of an object is never that of an
  upload in progress, whose name no key can have.\<close>

theorem object_paths_safe:
  assumes "ns_Valid ns" "ns_Valid ns'" "valid_key k" "valid_key k'"
  shows "(object_path root ns k = object_path root ns' k' \<longrightarrow> ns = ns' \<and> k = k') \<and>
     (\<exists>d1 d2. object_path root ns k = root @ [ns, d1, d2, k] \<and> length d1 = 2 \<and> length d2 = 2 \<and>
        set (d1 @ d2 @ k) \<subseteq> {c. is_hex_char c} \<and> CHR ''/'' \<notin> set (d1 @ d2 @ k) \<and> CHR ''.'' \<notin> set (d1 @ d2 @ k)) \<and>
     object_path root ns k \<noteq> root @ [''tmp'', tmpPrefix @ suffix] \<and> \<not> valid_key (tmpPrefix @ suffix)"
proof -
  have path: "object_path root ns k = root @ [ns, take 2 k, take 2 (drop 2 k), k]" by (simp add: ObjectPath_eq)
  have len: "length (take 2 k) = 2" "length (take 2 (drop 2 k)) = 2"
    using assms by (simp_all add: ValidateKey_iff)
  have hex: "set (take 2 k @ take 2 (drop 2 k) @ k) \<subseteq> {c. is_hex_char c}"
    using assms by (auto simp: ValidateKey_iff dest: in_set_takeD in_set_dropD)
  have special: "c \<notin> set (take 2 k @ take 2 (drop 2 k) @ k)" if "c \<in> {CHR ''/'', CHR ''.''}" for c
    using hex hex_char_not_special that by blast
  show ?thesis
    by (intro conjI impI exI [of _ "take 2 k"] exI [of _ "take 2 (drop 2 k)"] path len hex special tmp_name_not_key
        object_path_not_tmp assms) (simp_all add: object_path_inj)
qed

section \<open>Witnesses\<close>

theorem object_paths_safe_witness:
  "object_path [''data''] NamespaceCAS (replicate 64 (CHR ''a'')) \<noteq>
     object_path [''data''] NamespaceAC (replicate 64 (CHR ''a''))"
proof -
  have "valid_key (replicate 64 (CHR ''a''))" by (simp add: ValidateKey_iff is_hex_char_def)
  with object_paths_safe [of NamespaceCAS NamespaceAC "replicate 64 (CHR ''a'')" "replicate 64 (CHR ''a'')"
      "[''data'']"] show ?thesis by auto
qed

end
