(* ===== verification/Float64.thy ===== *)
theory Float64
  imports Prelude_Go "HOL-Library.Log_Nat"
begin

text \<open>
  The part of IEEE 754 binary64 arithmetic that the sources use (\<^verbatim>\<open>float64\<close> water marks, quota
  products, size parsing and eviction scores): a finite value is a rational number, operations
  compute exactly and round to the nearest double, ties to even, with subnormals; a comparison
  with a NaN is false. Signed zeros are not distinguished, since no operation modelled here
  observes the sign of a zero.
\<close>

datatype f64 = FNaN | FInf bool | Fin rat

section \<open>Rounding\<close>

text \<open>The exponent \<open>e\<close> with \<open>2^e \<le> q < 2^(e+1)\<close>, for a positive \<open>q\<close>.\<close>

definition ilog2 :: "rat \<Rightarrow> int" where
  "ilog2 q = (case quotient_of q of (a, b) \<Rightarrow>
     let e = bitlen a - bitlen b in if 2 powi e \<le> q then e else e - 1)"

text \<open>Round to the nearest integer, ties to even.\<close>

definition rne :: "rat \<Rightarrow> int" where
  "rne x = (let f = \<lfloor>x\<rfloor>; d = x - of_int f in
     if d < 1 / 2 then f else if d > 1 / 2 then f + 1 else if even f then f else f + 1)"

text \<open>The spacing of the doubles around \<open>q > 0\<close>: 53 significant bits, or the subnormal spacing.\<close>

definition ulp :: "rat \<Rightarrow> rat" where
  "ulp q = 2 powi (max (ilog2 q) (- 1022) - 52)"

definition rnd_pos :: "rat \<Rightarrow> rat" where
  "rnd_pos q = (if q \<le> 0 then 0 else of_int (rne (q / ulp q)) * ulp q)"

definition f64_of_rat :: "rat \<Rightarrow> f64" where
  "f64_of_rat q =
     (let r = (if q \<ge> 0 then rnd_pos q else - rnd_pos (- q))
      in if r \<ge> 2 ^ 1024 then FInf True else if r \<le> - (2 ^ 1024) then FInf False else Fin r)"

section \<open>Operations\<close>

definition f64_of_int :: "int \<Rightarrow> f64" where
  "f64_of_int i = f64_of_rat (of_int i)"

fun f64_le :: "f64 \<Rightarrow> f64 \<Rightarrow> bool" where
  "f64_le FNaN y = False"
| "f64_le x FNaN = False"
| "f64_le (FInf False) y = True"
| "f64_le x (FInf True) = True"
| "f64_le (FInf True) y = False"
| "f64_le x (FInf False) = False"
| "f64_le (Fin a) (Fin b) = (a \<le> b)"

fun f64_lt :: "f64 \<Rightarrow> f64 \<Rightarrow> bool" where
  "f64_lt FNaN y = False"
| "f64_lt x FNaN = False"
| "f64_lt (FInf a) (FInf b) = (\<not> a \<and> b)"
| "f64_lt (FInf a) (Fin _) = (\<not> a)"
| "f64_lt (Fin _) (FInf b) = b"
| "f64_lt (Fin a) (Fin b) = (a < b)"

fun f64_mul :: "f64 \<Rightarrow> f64 \<Rightarrow> f64" where
  "f64_mul FNaN y = FNaN"
| "f64_mul x FNaN = FNaN"
| "f64_mul (FInf a) (FInf b) = FInf (a = b)"
| "f64_mul (FInf a) (Fin y) = (if y = 0 then FNaN else FInf (a = (y > 0)))"
| "f64_mul (Fin x) (FInf b) = (if x = 0 then FNaN else FInf (b = (x > 0)))"
| "f64_mul (Fin x) (Fin y) = f64_of_rat (x * y)"

fun f64_div :: "f64 \<Rightarrow> f64 \<Rightarrow> f64" where
  "f64_div FNaN y = FNaN"
| "f64_div x FNaN = FNaN"
| "f64_div (FInf a) (FInf b) = FNaN"
| "f64_div (FInf a) (Fin y) = FInf (a = (y \<ge> 0))"
| "f64_div (Fin x) (FInf b) = Fin 0"
| "f64_div (Fin x) (Fin y) =
     (if y = 0 then (if x = 0 then FNaN else FInf (x > 0)) else f64_of_rat (x / y))"

fun f64_add :: "f64 \<Rightarrow> f64 \<Rightarrow> f64" where
  "f64_add FNaN y = FNaN"
| "f64_add x FNaN = FNaN"
| "f64_add (FInf a) (FInf b) = (if a = b then FInf a else FNaN)"
| "f64_add (FInf a) (Fin y) = FInf a"
| "f64_add (Fin x) (FInf b) = FInf b"
| "f64_add (Fin x) (Fin y) = f64_of_rat (x + y)"

text \<open>
  The conversion \<^verbatim>\<open>int64(f)\<close> truncates. Outside the range of \<^verbatim>\<open>int64\<close> the Go specification leaves
  the result to the implementation: \<open>ovf\<close> gives it.
\<close>

definition trunc_rat :: "rat \<Rightarrow> int" where
  "trunc_rat q = (if q \<ge> 0 then \<lfloor>q\<rfloor> else - \<lfloor>- q\<rfloor>)"

fun f64_to_int64 :: "(f64 \<Rightarrow> int) \<Rightarrow> f64 \<Rightarrow> int" where
  "f64_to_int64 ovf (Fin q) =
     (if - (2 ^ 63) \<le> trunc_rat q \<and> trunc_rat q < 2 ^ 63 then trunc_rat q else ovf (Fin q))"
| "f64_to_int64 ovf f = ovf f"

section \<open>Lemmas\<close>

lemma f64_NaN [simp]: "\<not> f64_le x FNaN" "\<not> f64_lt x FNaN"
  by (cases x; simp)+

lemma bitlen_powi:
  assumes "a > 0"
  shows "2 powi (bitlen a - 1) \<le> (rat_of_int a)" "(rat_of_int a) < 2 powi (bitlen a)"
proof -
  have pos: "bitlen a \<ge> 1" using assms by (simp add: bitlen_alt_def)
  have "rat_of_int (2 ^ nat (bitlen a - 1)) \<le> rat_of_int a"
    using bitlen_bounds [OF assms] of_int_le_iff by blast
  with pos show "2 powi (bitlen a - 1) \<le> (rat_of_int a)" by (simp add: power_int_nonneg_exp)
  have "rat_of_int a < rat_of_int (2 ^ nat (bitlen a))"
    using bitlen_bounds [OF assms] of_int_less_iff by blast
  with pos show "(rat_of_int a) < 2 powi (bitlen a)" by (simp add: power_int_nonneg_exp)
qed

lemma ilog2_bounds:
  assumes "q > 0"
  shows "2 powi (ilog2 q) \<le> q" "q < 2 powi (ilog2 q + 1)"
proof -
  obtain a b where ab: "quotient_of q = (a, b)" by fastforce
  from ab have b: "b > 0" by (rule quotient_of_denom_pos)
  from ab have q: "q = of_int a / of_int b" by (rule quotient_of_div)
  with assms b have a: "a > 0" by (simp add: zero_less_divide_iff)
  let ?e = "bitlen a - bitlen b"
  have "q < 2 powi (bitlen a) / 2 powi (bitlen b - 1)"
    unfolding q using bitlen_powi [OF a] bitlen_powi [OF b] a b by (intro frac_less) auto
  also have "\<dots> = 2 powi (?e + 1)" by (simp add: power_int_diff [symmetric] algebra_simps)
  finally have up: "q < 2 powi (?e + 1)" .
  have "2 powi (bitlen a - 1) / 2 powi (bitlen b) \<le> q"
    unfolding q using bitlen_powi [OF a] bitlen_powi [OF b] a b by (intro frac_le) auto
  then have low: "2 powi (?e - 1) \<le> q"
    by (simp add: power_int_diff [symmetric] algebra_simps)
  show "2 powi (ilog2 q) \<le> q" "q < 2 powi (ilog2 q + 1)"
    using up low by (auto simp: ilog2_def ab Let_def)
qed

lemma ilog2_mono:
  assumes "0 < p" "p \<le> q"
  shows "ilog2 p \<le> ilog2 q"
proof (rule ccontr)
  assume "\<not> ilog2 p \<le> ilog2 q"
  then have "ilog2 q + 1 \<le> ilog2 p" by simp
  then have "(2 :: rat) powi (ilog2 q + 1) \<le> 2 powi (ilog2 p)"
    by (intro power_int_increasing) auto
  with ilog2_bounds [of p] ilog2_bounds [of q] assms show False by simp
qed

lemma rne_close: "rat_of_int (rne x) \<le> x + 1 / 2" "x - 1 / 2 \<le> rat_of_int (rne x)"
  by (auto simp: rne_def Let_def) linarith+

lemma rne_of_int [simp]: "rne (of_int n) = n"
  by (simp add: rne_def)

lemma rne_mono:
  assumes "x \<le> y"
  shows "rne x \<le> rne y"
proof (cases "\<lfloor>x\<rfloor> = \<lfloor>y\<rfloor>")
  case True
  with assms show ?thesis by (auto simp: rne_def Let_def)
next
  case False
  with assms floor_mono have "\<lfloor>x\<rfloor> + 1 \<le> \<lfloor>y\<rfloor>" by fastforce
  moreover have "rne x \<le> \<lfloor>x\<rfloor> + 1" "\<lfloor>y\<rfloor> \<le> rne y" by (auto simp: rne_def Let_def)
  ultimately show ?thesis by linarith
qed

lemma ulp_pos [simp]: "ulp q > 0"
  by (simp add: ulp_def)

lemma ulp_mono: "0 < p \<Longrightarrow> p \<le> q \<Longrightarrow> ulp p \<le> ulp q"
  using ilog2_mono [of p q] by (auto simp: ulp_def intro!: power_int_increasing)

text \<open>Rounding a value of a binade stays in the closed binade.\<close>

lemma rnd_pos_nonneg: "0 \<le> rnd_pos q"
proof (cases "q \<le> 0")
  case False
  have "rne 0 \<le> rne (q / ulp q)" using False by (intro rne_mono) (simp add: less_imp_le)
  moreover have "rne 0 = 0" using rne_of_int [of 0] by simp
  ultimately show ?thesis by (simp add: rnd_pos_def less_imp_le)
qed (simp add: rnd_pos_def)

text \<open>A multiple of the spacing that bounds a value bounds its rounding.\<close>

lemma rnd_pos_le_multiple:
  assumes "0 < q" "q \<le> of_int k * ulp q"
  shows "rnd_pos q \<le> of_int k * ulp q"
proof -
  have "q / ulp q \<le> of_int k" using assms by (simp add: pos_divide_le_eq)
  then have "rne (q / ulp q) \<le> rne (of_int k)" by (rule rne_mono)
  then have "rat_of_int (rne (q / ulp q)) \<le> of_int k" by simp
  with assms show ?thesis by (simp add: rnd_pos_def mult_right_mono less_imp_le)
qed

lemma rnd_pos_ge_multiple:
  assumes "0 < q" "of_int k * ulp q \<le> q"
  shows "of_int k * ulp q \<le> rnd_pos q"
proof -
  have "of_int k \<le> q / ulp q" using assms by (simp add: pos_le_divide_eq)
  then have "rne (of_int k) \<le> rne (q / ulp q)" by (rule rne_mono)
  then have "rat_of_int k \<le> of_int (rne (q / ulp q))" by simp
  with assms show ?thesis by (simp add: rnd_pos_def mult_right_mono less_imp_le)
qed

lemma ulp_eq: "ulp q = 2 powi (max (ilog2 q) (- 1022)) / 2 ^ 52"
  by (simp add: ulp_def power_int_diff)

lemma rnd_pos_mono:
  assumes "p \<le> q"
  shows "rnd_pos p \<le> rnd_pos q"
proof (cases "p \<le> 0")
  case True
  then show ?thesis using rnd_pos_nonneg by (simp add: rnd_pos_def)
next
  case False
  then have p: "0 < p" and q: "0 < q" using assms by auto
  let ?e = "\<lambda>x. max (ilog2 x) (- 1022)"
  show ?thesis
  proof (cases "?e p = ?e q")
    case True
    then have u: "ulp p = ulp q" by (simp add: ulp_def)
    have "rne (p / ulp q) \<le> rne (q / ulp q)"
      using assms by (intro rne_mono divide_right_mono) (simp_all add: less_imp_le)
    then show ?thesis using p q u by (simp add: rnd_pos_def mult_right_mono less_imp_le)
  next
    case False
    with ilog2_mono [OF p assms] have lt: "?e p + 1 \<le> ?e q" and eq: "?e q = ilog2 q" by auto
    have "p \<le> 2 powi (?e p + 1)"
      using ilog2_bounds(2) [OF p] power_int_increasing [of "ilog2 p + 1" "?e p + 1" "2::rat"]
      by simp
    moreover have m: "2 powi (?e p + 1) = of_int (2 ^ 53) * ulp p"
      by (simp add: ulp_eq power_int_add)
    ultimately have "rnd_pos p \<le> of_int (2 ^ 53) * ulp p"
      by (intro rnd_pos_le_multiple p) simp
    also have "\<dots> \<le> 2 powi (?e q)"
      using m lt power_int_increasing [of "?e p + 1" "?e q" "2::rat"] by simp
    also have "\<dots> = of_int (2 ^ 52) * ulp q" by (simp add: ulp_eq)
    also have "\<dots> \<le> rnd_pos q"
      using ilog2_bounds(1) [OF q] eq by (intro rnd_pos_ge_multiple q) (simp add: ulp_eq)
    finally show ?thesis .
  qed
qed

text \<open>Integers of at most 53 bits are doubles.\<close>

lemma rnd_pos_of_int:
  assumes "0 \<le> n" "n < 2 ^ 53"
  shows "rnd_pos (of_int n) = of_int n"
proof (cases "n = 0")
  case False
  let ?q = "rat_of_int n"
  have q: "1 \<le> ?q" "0 < ?q" using False assms by simp_all
  have "ilog2 ?q < 53"
  proof (rule ccontr)
    assume "\<not> ilog2 ?q < 53"
    then have "(2 :: rat) powi 53 \<le> 2 powi (ilog2 ?q)" by (intro power_int_increasing) auto
    also have "\<dots> \<le> ?q" using q ilog2_bounds(1) by simp
    finally have "2 ^ 53 \<le> ?q" by simp
    then have "rat_of_int (2 ^ 53) \<le> rat_of_int n" by simp
    then have "2 ^ 53 \<le> n" using of_int_le_iff by blast
    with assms show False by simp
  qed
  moreover have "0 \<le> ilog2 ?q"
  proof (rule ccontr)
    assume "\<not> 0 \<le> ilog2 ?q"
    then have "(2 :: rat) powi (ilog2 ?q + 1) \<le> 2 powi 0" by (intro power_int_increasing) auto
    with q ilog2_bounds(2) [of ?q] show False by simp
  qed
  moreover define k where "k = nat (52 - ilog2 ?q)"
  ultimately have k: "ilog2 ?q = 52 - int k" and "0 \<le> ilog2 ?q" by auto
  have "ulp ?q = 2 powi (- int k)" using k \<open>0 \<le> ilog2 ?q\<close> by (simp add: ulp_def max_def)
  then have u: "ulp ?q = 1 / 2 ^ k" by (simp add: power_int_minus inverse_eq_divide)
  then have "?q / ulp ?q = of_int (n * 2 ^ k)" by simp
  then have "rne (?q / ulp ?q) = n * 2 ^ k" by (metis rne_of_int)
  then show ?thesis using q u by (simp add: rnd_pos_def)
qed (simp add: rnd_pos_def)

lemma f64_of_int_exact:
  assumes "0 \<le> n" "n < 2 ^ 53"
  shows "f64_of_int n = Fin (of_int n)"
proof -
  have "rat_of_int n < rat_of_int (2 ^ 53)" using assms of_int_less_iff by blast
  also have "\<dots> \<le> rat_of_int (2 ^ 1024)" by (subst of_int_le_iff) (rule power_increasing, auto)
  finally have "\<not> 2 ^ 1024 \<le> rat_of_int n" by simp
  moreover have "\<not> rat_of_int n \<le> - (2 ^ 1024)"
  proof -
    have "- (2 ^ 1024) < (0 :: rat)" by simp
    also have "\<dots> \<le> rat_of_int n" using assms by simp
    finally show ?thesis by simp
  qed
  ultimately show ?thesis
    using rnd_pos_of_int [OF assms] assms by (simp add: f64_of_int_def f64_of_rat_def Let_def)
qed

end
