(* ===== verification/ConfigLoad.thy ===== *)
theory ConfigLoad
  imports GoErr Float64
begin

text \<open>
  \<^verbatim>\<open>internal/config\<close>: the node configuration, its validation (\<^verbatim>\<open>config.go\<close>) and its resolution from
  flags, environment and defaults (\<^verbatim>\<open>load.go\<close>).

  Parameters that stand for the Go library: \<open>parseURL\<close> is \<^verbatim>\<open>url.Parse\<close>, giving the scheme and the
  host; \<open>parseFloat\<close>, \<open>parseInt\<close>, \<open>parseBool\<close> and \<open>parseDuration\<close> are the converters of \<^verbatim>\<open>strconv\<close> and
  \<^verbatim>\<open>time\<close>; \<open>ovf\<close> is the result of converting an out-of-range float to \<^verbatim>\<open>int64\<close>. The syntax of
  the \<^verbatim>\<open>flag\<close> package is outside the model: \<open>Load\<close> takes the flag names and values that
  \<^verbatim>\<open>FlagSet.Parse\<close> hands to the registered variables, in order.
\<close>

section \<open>The configuration\<close>

record Peer =
  p_Name :: string
  p_URL :: string

record Config =
  c_NodeName :: string
  c_ListenAddr :: string
  c_AdvertiseURL :: string
  c_DataDir :: string
  c_MaxBytes :: int
  c_HighWater :: f64
  c_LowWater :: f64
  c_Peers :: "Peer list"
  c_ReplicaCount :: int
  c_ReadHeaderTimeout :: time
  c_WriteTimeout :: time
  c_IdleTimeout :: time
  c_ShutdownTimeout :: time
  c_PeerTimeout :: time
  c_RepairWorkers :: int
  c_RepairQueue :: int
  c_RepairInterval :: time
  c_LogLevel :: string
  c_LogFormat :: string
  c_DevMode :: bool
  c_MaxObjectBytes :: int
  c_VerifyReads :: bool

definition second :: time where
  "second = 1000000000"

definition Defaults :: Config where
  "Defaults = \<lparr>
     c_NodeName = ''node-a'', c_ListenAddr = '':8080'', c_AdvertiseURL = '''',
     c_DataDir = ''./data'', c_MaxBytes = 20 * 2 ^ 30,
     c_HighWater = f64_of_rat (90 / 100), c_LowWater = f64_of_rat (80 / 100),
     c_Peers = [], c_ReplicaCount = 2,
     c_ReadHeaderTimeout = 10 * second, c_WriteTimeout = 0, c_IdleTimeout = 120 * second,
     c_ShutdownTimeout = 15 * second, c_PeerTimeout = 30 * second,
     c_RepairWorkers = 4, c_RepairQueue = 1024, c_RepairInterval = 60 * second,
     c_LogLevel = ''info'', c_LogFormat = ''json'', c_DevMode = False,
     c_MaxObjectBytes = 4 * 2 ^ 30, c_VerifyReads = True \<rparr>"

definition PeerNames :: "Peer list \<Rightarrow> string list" where
  "PeerNames peers = sort_by (<) (map p_Name peers)"

definition SelfURL :: "Config \<Rightarrow> string" where
  "SelfURL c =
     (if c_AdvertiseURL c \<noteq> '''' then c_AdvertiseURL c
      else case find (\<lambda>p. p_Name p = c_NodeName c) (c_Peers c) of
             Some p \<Rightarrow> p_URL p | None \<Rightarrow> '''')"

section \<open>Validation\<close>

text \<open>The loop of \<^verbatim>\<open>Validate\<close> over the peers: the names seen so far and whether this node is one.\<close>

fun validate_peers ::
  "(string \<Rightarrow> (string \<times> string) result) \<Rightarrow> string \<Rightarrow> string list \<Rightarrow> bool \<Rightarrow> Peer list \<Rightarrow> bool result" where
  "validate_peers parseURL node seen self [] = Inr self"
| "validate_peers parseURL node seen self (p # ps) =
     (if trim_space (p_Name p) = '''' then Inl (NewError ''peer name must not be empty'')
      else if p_Name p \<in> set seen then Inl (NewError (''duplicate peer name '' @ quoted (p_Name p)))
      else case parseURL (p_URL p) of
             Inl e \<Rightarrow> Inl (Wrapped (''peer '' @ quoted (p_Name p) @ '' has invalid url '' @ quoted (p_URL p)) e)
           | Inr (scheme, host) \<Rightarrow>
               if scheme \<noteq> ''http'' \<and> scheme \<noteq> ''https'' then
                 Inl (NewError (''peer '' @ quoted (p_Name p) @ '' url must be http or https''))
               else if host = '''' then
                 Inl (NewError (''peer '' @ quoted (p_Name p) @ '' url has no host''))
               else validate_peers parseURL node (p_Name p # seen) (self \<or> p_Name p = node) ps)"

definition Validate :: "(string \<Rightarrow> (string \<times> string) result) \<Rightarrow> Config \<Rightarrow> go_error option" where
  "Validate parseURL c =
     (if trim_space (c_NodeName c) = '''' then Some (NewError ''node name must not be empty'')
      else if trim_space (c_ListenAddr c) = '''' then Some (NewError ''listen address must not be empty'')
      else if trim_space (c_DataDir c) = '''' then Some (NewError ''data dir must not be empty'')
      else if c_MaxBytes c \<le> 0 then Some (NewError ''max bytes must be positive'')
      else if c_MaxObjectBytes c \<le> 0 then Some (NewError ''max object bytes must be positive'')
      else if f64_le (c_HighWater c) (Fin 0) \<or> f64_lt (Fin 1) (c_HighWater c) then
        Some (NewError ''high water must be in (0,1]'')
      else if f64_le (c_LowWater c) (Fin 0) \<or> f64_le (c_HighWater c) (c_LowWater c) then
        Some (NewError ''low water must be in (0,high)'')
      else if c_ReplicaCount c < 1 then Some (NewError ''replica count must be >= 1'')
      else if c_Peers c = [] then Some (NewError ''peer list must not be empty'')
      else if c_ReplicaCount c > int (length (c_Peers c)) then
        Some (NewError ''replica count exceeds cluster size'')
      else if c_RepairWorkers c < 0 then Some (NewError ''repair workers must be >= 0'')
      else if c_RepairQueue c < 1 then Some (NewError ''repair queue must be >= 1'')
      else case validate_peers parseURL (c_NodeName c) [] False (c_Peers c) of
             Inl e \<Rightarrow> Some e
           | Inr self \<Rightarrow> if \<not> self then Some (ErrNoSuchPeer (quoted (c_NodeName c))) else None)"

section \<open>Parsing\<close>

fun parse_peer_parts :: "string list \<Rightarrow> Peer list result" where
  "parse_peer_parts [] = Inr []"
| "parse_peer_parts (part0 # parts) =
     (let part = trim_space part0 in
      if part = '''' then parse_peer_parts parts
      else case cut part (CHR ''='') of (name0, rawURL0, ok) \<Rightarrow>
        if \<not> ok then Inl (NewError (''peer '' @ quoted part @ '' is not in name=url form''))
        else let name = trim_space name0; rawURL = trim_space rawURL0 in
          if name = '''' \<or> rawURL = '''' then
            Inl (NewError (''peer '' @ quoted part @ '' has an empty name or url''))
          else case parse_peer_parts parts of
                 Inl e \<Rightarrow> Inl e
               | Inr ps \<Rightarrow> Inr (\<lparr>p_Name = name, p_URL = trim_right (CHR ''/'') rawURL\<rparr> # ps))"

definition ParsePeers :: "string \<Rightarrow> Peer list result" where
  "ParsePeers s0 = (let s = trim_space s0 in
     if s = '''' then Inr [] else parse_peer_parts (split_on (CHR '','') s))"

text \<open>\<^verbatim>\<open>strconv.ParseInt(s, 10, 64)\<close>: an optional sign, decimal digits, the range of \<^verbatim>\<open>int64\<close>.\<close>

definition is_digit :: "char \<Rightarrow> bool" where
  "is_digit c = (CHR ''0'' \<le> c \<and> c \<le> CHR ''9'')"

definition digit_val :: "char \<Rightarrow> nat" where
  "digit_val c = of_char c - 48"

definition dec_val :: "string \<Rightarrow> nat" where
  "dec_val s = foldl (\<lambda>v c. v * 10 + digit_val c) 0 s"

definition parse_int64 :: "string \<Rightarrow> int result" where
  "parse_int64 s =
     (let neg = has_prefix s ''-''; ds = (if neg \<or> has_prefix s ''+'' then drop 1 s else s) in
      if ds = '''' \<or> \<not> list_all is_digit ds then Inl (NewError ''invalid syntax'')
      else let v = (if neg then - int (dec_val ds) else int (dec_val ds)) in
        if v < - (2 ^ 63) \<or> v \<ge> 2 ^ 63 then Inl (NewError ''value out of range'') else Inr v)"

text \<open>The suffixes of \<^verbatim>\<open>ParseSize\<close>, in its order.\<close>

definition size_suffixes :: "(string \<times> int) list" where
  "size_suffixes =
     [(''KIB'', 2 ^ 10), (''MIB'', 2 ^ 20), (''GIB'', 2 ^ 30), (''TIB'', 2 ^ 40),
      (''KB'', 1000), (''MB'', 1000 * 1000), (''GB'', 1000 * 1000 * 1000),
      (''TB'', 1000 * 1000 * 1000 * 1000),
      (''K'', 2 ^ 10), (''M'', 2 ^ 20), (''G'', 2 ^ 30), (''T'', 2 ^ 40), (''B'', 1)]"

definition ParseSize :: "(string \<Rightarrow> f64 result) \<Rightarrow> (f64 \<Rightarrow> int) \<Rightarrow> string \<Rightarrow> int result" where
  "ParseSize parseFloat ovf s0 =
     (let s = trim_space s0 in
      if s = '''' then Inl (NewError ''empty size'')
      else let upper = to_upper s in
        case find (\<lambda>(text, m). has_suffix upper text) size_suffixes of
          Some (text, m) \<Rightarrow>
            (let num = trim_space (take (length upper - length text) upper) in
             if num = '''' then Inl (NewError (''size '' @ quoted s @ '' has a suffix but no number''))
             else case parseFloat num of
                    Inl e \<Rightarrow> Inl (Wrapped (''size '' @ quoted s) e)
                  | Inr v \<Rightarrow>
                      if f64_lt v (Fin 0) then Inl (NewError (''size '' @ quoted s @ '' must not be negative''))
                      else Inr (f64_to_int64 ovf (f64_mul v (f64_of_int m))))
        | None \<Rightarrow>
            (case parse_int64 upper of
               Inl e \<Rightarrow> Inl (Wrapped (''size '' @ quoted s) e)
             | Inr v \<Rightarrow>
                 if v < 0 then Inl (NewError (''size '' @ quoted s @ '' must not be negative''))
                 else Inr v))"

definition defaultSelfURL :: "string \<Rightarrow> string" where
  "defaultSelfURL listen =
     (case cut listen (CHR '':'') of (host, port, ok) \<Rightarrow>
        if \<not> ok then ''http://'' @ listen
        else ''http://'' @ (if host = '''' then ''127.0.0.1'' else host) @ '':'' @ port)"

section \<open>Resolution: flags over environment over defaults\<close>

text \<open>
  The variables \<^verbatim>\<open>fs.Parse\<close> fills: the configuration, the three raw strings, and the set of flag
  names that \<^verbatim>\<open>fs.Visit\<close> reports.
\<close>

record load_state =
  l_cfg :: Config
  l_peersRaw :: string
  l_maxBytesRaw :: string
  l_maxObjectRaw :: string
  l_set :: "string list"

record converters =
  cv_url :: "string \<Rightarrow> (string \<times> string) result"
  cv_float :: "string \<Rightarrow> f64 result"
  cv_int :: "string \<Rightarrow> int result"
  cv_atoi :: "string \<Rightarrow> int result"
  cv_bool :: "string \<Rightarrow> bool result"
  cv_duration :: "string \<Rightarrow> time result"
  cv_ovf :: "f64 \<Rightarrow> int"

fun with_value :: "'a result \<Rightarrow> ('a \<Rightarrow> Config) \<Rightarrow> Config result" where
  "with_value (Inl e) f = Inl e"
| "with_value (Inr v) f = Inr (f v)"

text \<open>The registrations \<^verbatim>\<open>fs.StringVar(&cfg.NodeName, "node-name", ...)\<close> and so on: what assigning
  a flag does to the configuration. A converter's error fails \<^verbatim>\<open>fs.Parse\<close>.\<close>

definition flag_cfg :: "converters \<Rightarrow> string \<Rightarrow> string \<Rightarrow> Config \<Rightarrow> Config result" where
  "flag_cfg cv name v c =
     (if name = ''node-name'' then Inr (c\<lparr>c_NodeName := v\<rparr>)
      else if name = ''listen'' then Inr (c\<lparr>c_ListenAddr := v\<rparr>)
      else if name = ''advertise-url'' then Inr (c\<lparr>c_AdvertiseURL := v\<rparr>)
      else if name = ''data-dir'' then Inr (c\<lparr>c_DataDir := v\<rparr>)
      else if name = ''high-water'' then with_value (cv_float cv v) (\<lambda>f. c\<lparr>c_HighWater := f\<rparr>)
      else if name = ''low-water'' then with_value (cv_float cv v) (\<lambda>f. c\<lparr>c_LowWater := f\<rparr>)
      else if name = ''replica-count'' then with_value (cv_int cv v) (\<lambda>n. c\<lparr>c_ReplicaCount := n\<rparr>)
      else if name = ''read-header-timeout'' then
        with_value (cv_duration cv v) (\<lambda>d. c\<lparr>c_ReadHeaderTimeout := d\<rparr>)
      else if name = ''write-timeout'' then with_value (cv_duration cv v) (\<lambda>d. c\<lparr>c_WriteTimeout := d\<rparr>)
      else if name = ''idle-timeout'' then with_value (cv_duration cv v) (\<lambda>d. c\<lparr>c_IdleTimeout := d\<rparr>)
      else if name = ''shutdown-timeout'' then
        with_value (cv_duration cv v) (\<lambda>d. c\<lparr>c_ShutdownTimeout := d\<rparr>)
      else if name = ''peer-timeout'' then with_value (cv_duration cv v) (\<lambda>d. c\<lparr>c_PeerTimeout := d\<rparr>)
      else if name = ''repair-workers'' then with_value (cv_int cv v) (\<lambda>n. c\<lparr>c_RepairWorkers := n\<rparr>)
      else if name = ''repair-queue'' then with_value (cv_int cv v) (\<lambda>n. c\<lparr>c_RepairQueue := n\<rparr>)
      else if name = ''repair-interval'' then
        with_value (cv_duration cv v) (\<lambda>d. c\<lparr>c_RepairInterval := d\<rparr>)
      else if name = ''log-level'' then Inr (c\<lparr>c_LogLevel := v\<rparr>)
      else if name = ''log-format'' then Inr (c\<lparr>c_LogFormat := v\<rparr>)
      else if name = ''dev'' then with_value (cv_bool cv v) (\<lambda>b. c\<lparr>c_DevMode := b\<rparr>)
      else if name = ''verify-reads'' then with_value (cv_bool cv v) (\<lambda>b. c\<lparr>c_VerifyReads := b\<rparr>)
      else Inl (NewError (''flag provided but not defined: -'' @ name)))"

definition apply_flag :: "converters \<Rightarrow> string \<Rightarrow> string \<Rightarrow> load_state \<Rightarrow> load_state result" where
  "apply_flag cv name v st0 =
     (let st = st0\<lparr>l_set := name # l_set st0\<rparr> in
      if name = ''max-bytes'' then Inr (st\<lparr>l_maxBytesRaw := v\<rparr>)
      else if name = ''max-object-bytes'' then Inr (st\<lparr>l_maxObjectRaw := v\<rparr>)
      else if name = ''peers'' then Inr (st\<lparr>l_peersRaw := v\<rparr>)
      else case flag_cfg cv name v (l_cfg st) of
             Inl e \<Rightarrow> Inl e | Inr c \<Rightarrow> Inr (st\<lparr>l_cfg := c\<rparr>))"

fun parse_flags :: "converters \<Rightarrow> (string \<times> string) list \<Rightarrow> load_state \<Rightarrow> load_state result" where
  "parse_flags cv [] st = Inr st"
| "parse_flags cv ((name, v) # args) st =
     (case apply_flag cv name v st of Inl e \<Rightarrow> Inl e | Inr st' \<Rightarrow> parse_flags cv args st')"

text \<open>\<^verbatim>\<open>Env\<close>: a variable with the prefix \<^verbatim>\<open>KILNCACHE_\<close>.\<close>

definition Env :: "(string \<Rightarrow> string option) \<Rightarrow> string \<Rightarrow> string option" where
  "Env environ key = environ (''KILNCACHE_'' @ key)"

text \<open>
  One block \<^verbatim>\<open>if !set[flag] { if v, ok := Env(KEY); ok { ... } }\<close>: the assignment is that of the
  flag and so is the conversion, except that integers are read with \<^verbatim>\<open>strconv.Atoi\<close> where a flag
  also takes prefixed bases; an error is wrapped with the variable's name.
\<close>

definition env_fallback ::
  "converters \<Rightarrow> (string \<Rightarrow> string option) \<Rightarrow> string list \<Rightarrow> string \<times> string \<Rightarrow> Config \<Rightarrow> Config result" where
  "env_fallback cv environ given = (\<lambda>(name, key) c.
     if name \<in> set given then Inr c
     else case Env environ key of
            None \<Rightarrow> Inr c
          | Some v \<Rightarrow>
              (case flag_cfg (cv\<lparr>cv_int := cv_atoi cv\<rparr>) name v c of
                 Inl e \<Rightarrow> Inl (Wrapped (''KILNCACHE_'' @ key) e)
               | Inr c' \<Rightarrow> Inr c'))"

text \<open>The variables that have an environment fallback guarded by \<^verbatim>\<open>set\<close>, in the order of the code.
  The timeouts other than the peer timeout and the repair queue depth have none.\<close>

definition env_vars :: "(string \<times> string) list" where
  "env_vars =
     [(''node-name'', ''NODE_NAME''), (''listen'', ''LISTEN''), (''advertise-url'', ''ADVERTISE_URL''),
      (''data-dir'', ''DATA_DIR''), (''high-water'', ''HIGH_WATER''), (''low-water'', ''LOW_WATER''),
      (''replica-count'', ''REPLICA_COUNT''), (''peer-timeout'', ''PEER_TIMEOUT''),
      (''repair-workers'', ''REPAIR_WORKERS''), (''repair-interval'', ''REPAIR_INTERVAL''),
      (''log-level'', ''LOG_LEVEL''), (''log-format'', ''LOG_FORMAT''), (''dev'', ''DEV''),
      (''verify-reads'', ''VERIFY_READS'')]"

fun env_fallbacks ::
  "converters \<Rightarrow> (string \<Rightarrow> string option) \<Rightarrow> string list \<Rightarrow> (string \<times> string) list \<Rightarrow> Config \<Rightarrow> Config result" where
  "env_fallbacks cv environ given [] c = Inr c"
| "env_fallbacks cv environ given (nk # nks) c =
     (case env_fallback cv environ given nk c of
        Inl e \<Rightarrow> Inl e | Inr c' \<Rightarrow> env_fallbacks cv environ given nks c')"

text \<open>The raw strings fall back to the environment when they are empty, flag or not.\<close>

definition raw_fallback :: "(string \<Rightarrow> string option) \<Rightarrow> string \<Rightarrow> string \<Rightarrow> string" where
  "raw_fallback environ key raw =
     (if raw = '''' then (case Env environ key of None \<Rightarrow> '''' | Some v \<Rightarrow> v) else raw)"

definition size_setting ::
  "converters \<Rightarrow> string \<Rightarrow> string \<Rightarrow> (int \<Rightarrow> Config) \<Rightarrow> Config \<Rightarrow> Config result" where
  "size_setting cv what raw upd c =
     (if raw = '''' then Inr c
      else case ParseSize (cv_float cv) (cv_ovf cv) raw of
             Inl e \<Rightarrow> Inl (Wrapped what e) | Inr n \<Rightarrow> Inr (upd n))"

definition peers_setting :: "string \<Rightarrow> Config \<Rightarrow> Config result" where
  "peers_setting raw c =
     (if raw = '''' then Inr c
      else case ParsePeers raw of
             Inl e \<Rightarrow> Inl (Wrapped ''peers'' e) | Inr ps \<Rightarrow> Inr (c\<lparr>c_Peers := ps\<rparr>))"

text \<open>A configuration without peers is a cluster of this node alone.\<close>

definition default_membership :: "Config \<Rightarrow> Config" where
  "default_membership c =
     (if c_Peers c = [] then
        (let c1 = c\<lparr>c_Peers := [\<lparr>p_Name = c_NodeName c, p_URL = defaultSelfURL (c_ListenAddr c)\<rparr>]\<rparr>
         in if c_ReplicaCount c1 > 1 then c1\<lparr>c_ReplicaCount := 1\<rparr> else c1)
      else c)"

definition finish_load :: "converters \<Rightarrow> Config \<Rightarrow> Config result" where
  "finish_load cv c =
     (let c1 = default_membership c;
          c2 = c1\<lparr>c_LogLevel := to_lower (c_LogLevel c1), c_LogFormat := to_lower (c_LogFormat c1)\<rparr>
      in case Validate (cv_url cv) c2 of Some e \<Rightarrow> Inl e | None \<Rightarrow> Inr c2)"

fun bind_result :: "'a result \<Rightarrow> ('a \<Rightarrow> 'b result) \<Rightarrow> 'b result" where
  "bind_result (Inl e) f = Inl e"
| "bind_result (Inr v) f = f v"

definition Load ::
  "converters \<Rightarrow> (string \<Rightarrow> string option) \<Rightarrow> (string \<times> string) list \<Rightarrow> Config result" where
  "Load cv environ args =
     bind_result (parse_flags cv args
         \<lparr>l_cfg = Defaults, l_peersRaw = '''', l_maxBytesRaw = '''', l_maxObjectRaw = '''', l_set = []\<rparr>)
       (\<lambda>st. bind_result (env_fallbacks cv environ (l_set st) env_vars (l_cfg st))
         (\<lambda>c. bind_result
             (size_setting cv ''max-bytes'' (raw_fallback environ ''MAX_BYTES'' (l_maxBytesRaw st))
               (\<lambda>n. c\<lparr>c_MaxBytes := n\<rparr>) c)
           (\<lambda>c. bind_result
               (size_setting cv ''max-object-bytes''
                 (raw_fallback environ ''MAX_OBJECT_BYTES'' (l_maxObjectRaw st))
                 (\<lambda>n. c\<lparr>c_MaxObjectBytes := n\<rparr>) c)
             (\<lambda>c. bind_result (peers_setting (raw_fallback environ ''PEERS'' (l_peersRaw st)) c)
               (finish_load cv)))))"

section \<open>Specification vocabulary\<close>

text \<open>What a configuration that passes \<^verbatim>\<open>Validate\<close> promises the rest of the program.\<close>

definition config_ok :: "Config \<Rightarrow> bool" where
  "config_ok c \<longleftrightarrow> c_MaxBytes c > 0 \<and> c_MaxObjectBytes c > 0 \<and>
     \<not> f64_le (c_HighWater c) (Fin 0) \<and> \<not> f64_lt (Fin 1) (c_HighWater c) \<and>
     \<not> f64_le (c_LowWater c) (Fin 0) \<and> \<not> f64_le (c_HighWater c) (c_LowWater c) \<and>
     1 \<le> c_ReplicaCount c \<and> c_ReplicaCount c \<le> int (length (c_Peers c)) \<and>
     0 \<le> c_RepairWorkers c \<and> 1 \<le> c_RepairQueue c \<and>
     distinct (map p_Name (c_Peers c)) \<and> c_NodeName c \<in> set (map p_Name (c_Peers c))"

text \<open>The last occurrence of a flag counts.\<close>

definition last_value :: "(string \<times> string) list \<Rightarrow> string \<Rightarrow> string option" where
  "last_value args name = map_of (rev args) name"

text \<open>The text form of a peer, and the peers whose text form reads back.\<close>

definition format_peer :: "Peer \<Rightarrow> string" where
  "format_peer p = p_Name p @ ''='' @ p_URL p"

definition plain_peer :: "Peer \<Rightarrow> bool" where
  "plain_peer p \<longleftrightarrow>
     p_Name p \<noteq> '''' \<and> trim_space (p_Name p) = p_Name p \<and> CHR ''='' \<notin> set (p_Name p) \<and>
     CHR '','' \<notin> set (p_Name p) \<and>
     p_URL p \<noteq> '''' \<and> trim_space (p_URL p) = p_URL p \<and> CHR '','' \<notin> set (p_URL p) \<and>
     last (p_URL p) \<noteq> CHR ''/''"

section \<open>Lemmas: validation\<close>

lemma validate_peers_ok:
  assumes "validate_peers pu node seen self ps = Inr self'"
  shows "distinct (map p_Name ps) \<and> set (map p_Name ps) \<inter> set seen = {} \<and>
     self' = (self \<or> node \<in> set (map p_Name ps)) \<and>
     list_all (\<lambda>p. trim_space (p_Name p) \<noteq> '''' \<and>
        (\<exists>scheme host. pu (p_URL p) = Inr (scheme, host) \<and> scheme \<in> {''http'', ''https''} \<and> host \<noteq> '''')) ps"
  using assms
proof (induction ps arbitrary: seen self)
  case (Cons p ps)
  from Cons.prems obtain scheme host where
    u: "pu (p_URL p) = Inr (scheme, host)" "scheme \<in> {''http'', ''https''}" "host \<noteq> ''''"
      "trim_space (p_Name p) \<noteq> ''''" "p_Name p \<notin> set seen" and
    rec: "validate_peers pu node (p_Name p # seen) (self \<or> p_Name p = node) ps = Inr self'"
    by (auto split: if_splits sum.splits prod.splits)
  from Cons.IH [OF rec] u show ?case by auto
qed auto

lemma Validate_None_config_ok: "Validate pu c = None \<Longrightarrow> config_ok c"
  using validate_peers_ok [of pu "c_NodeName c" "[]" False "c_Peers c"]
  by (auto simp: Validate_def config_ok_def split: if_splits sum.splits)

section \<open>Lemmas: resolution\<close>

lemma bind_result_Inr: "bind_result r f = Inr v \<longleftrightarrow> (\<exists>u. r = Inr u \<and> f u = Inr v)"
  by (cases r) auto

lemma with_value_Inr: "with_value r f = Inr c \<longleftrightarrow> (\<exists>v. r = Inr v \<and> c = f v)"
  by (cases r) auto

text \<open>Only the flag \<^verbatim>\<open>node-name\<close> writes the node name.\<close>

lemma flag_cfg_NodeName:
  "flag_cfg cv name v c = Inr c' \<Longrightarrow>
     c_NodeName c' = (if name = ''node-name'' then v else c_NodeName c)"
  by (auto simp: flag_cfg_def with_value_Inr split: if_splits)

lemma apply_flag_NodeName:
  assumes "apply_flag cv name v st = Inr st'"
  shows "c_NodeName (l_cfg st') = (if name = ''node-name'' then v else c_NodeName (l_cfg st)) \<and>
     l_set st' = name # l_set st"
proof (cases "flag_cfg cv name v (l_cfg st)")
  case (Inl e)
  with assms show ?thesis by (auto simp: apply_flag_def Let_def split: if_splits)
next
  case (Inr c)
  with assms flag_cfg_NodeName [OF Inr] show ?thesis
    by (auto simp: apply_flag_def Let_def split: if_splits)
qed

lemma last_value_Cons:
  "last_value (a # args) name =
     (case last_value args name of Some v \<Rightarrow> Some v | None \<Rightarrow> if fst a = name then Some (snd a) else None)"
  by (cases a) (auto simp: last_value_def map_add_def split: option.splits)

lemma parse_flags_NodeName:
  "parse_flags cv args st = Inr st' \<Longrightarrow>
     c_NodeName (l_cfg st') =
       (case last_value args ''node-name'' of Some v \<Rightarrow> v | None \<Rightarrow> c_NodeName (l_cfg st)) \<and>
     set (l_set st') = set (map fst args) \<union> set (l_set st)"
proof (induction args arbitrary: st)
  case Nil
  then show ?case by (simp add: last_value_def)
next
  case (Cons a args)
  obtain name v where a: "a = (name, v)" by fastforce
  with Cons.prems obtain st1 where
    st1: "apply_flag cv name v st = Inr st1" "parse_flags cv args st1 = Inr st'"
    by (auto split: sum.splits)
  from Cons.IH [OF st1(2)] apply_flag_NodeName [OF st1(1)] a show ?case
    by (auto simp: last_value_Cons split: option.splits)
qed

lemma last_value_None_iff: "last_value args name = None \<longleftrightarrow> name \<notin> set (map fst args)"
  by (simp add: last_value_def map_of_eq_None_iff)

lemma env_fallback_NodeName:
  "env_fallback cv environ given (name, key) c = Inr c' \<Longrightarrow>
     c_NodeName c' =
       (if name = ''node-name'' \<and> name \<notin> set given
        then (case Env environ key of Some v \<Rightarrow> v | None \<Rightarrow> c_NodeName c) else c_NodeName c)"
  by (auto simp: env_fallback_def dest: flag_cfg_NodeName split: if_splits option.splits sum.splits)

lemma env_fallbacks_NodeName_other:
  "env_fallbacks cv environ given nks c = Inr c' \<Longrightarrow> ''node-name'' \<notin> fst ` set nks \<Longrightarrow>
     c_NodeName c' = c_NodeName c"
proof (induction nks arbitrary: c)
  case (Cons nk nks)
  obtain name key where nk: "nk = (name, key)" by fastforce
  with Cons.prems obtain c1 where
    c1: "env_fallback cv environ given (name, key) c = Inr c1" "env_fallbacks cv environ given nks c1 = Inr c'"
    by (auto split: sum.splits)
  from Cons.prems nk have "name \<noteq> ''node-name''" by auto
  with env_fallback_NodeName [OF c1(1)] have "c_NodeName c1 = c_NodeName c" by simp
  with Cons.IH [OF c1(2)] Cons.prems show ?case by simp
qed simp

lemma env_fallbacks_NodeName:
  assumes "env_fallbacks cv environ given env_vars c = Inr c'"
  shows "c_NodeName c' =
     (if ''node-name'' \<in> set given then c_NodeName c
      else case Env environ ''NODE_NAME'' of Some v \<Rightarrow> v | None \<Rightarrow> c_NodeName c)"
proof -
  have "env_fallbacks cv environ given ((''node-name'', ''NODE_NAME'') # tl env_vars) c = Inr c'"
    using assms by (simp add: env_vars_def del: env_fallbacks.simps)
  then obtain c1 where
    c1: "env_fallback cv environ given (''node-name'', ''NODE_NAME'') c = Inr c1"
      "env_fallbacks cv environ given (tl env_vars) c1 = Inr c'"
    by (auto split: sum.splits)
  have "''node-name'' \<notin> fst ` set (tl env_vars)" by (simp add: env_vars_def)
  with env_fallbacks_NodeName_other [OF c1(2)] env_fallback_NodeName [OF c1(1)] show ?thesis by simp
qed

lemma settings_NodeName:
  "size_setting cv what raw (\<lambda>n. c\<lparr>c_MaxBytes := n\<rparr>) c = Inr c' \<Longrightarrow> c_NodeName c' = c_NodeName c"
  "size_setting cv what raw (\<lambda>n. c\<lparr>c_MaxObjectBytes := n\<rparr>) c = Inr c' \<Longrightarrow> c_NodeName c' = c_NodeName c"
  "peers_setting raw c = Inr c' \<Longrightarrow> c_NodeName c' = c_NodeName c"
  "finish_load cv c = Inr c' \<Longrightarrow> c_NodeName c' = c_NodeName c"
  by (auto simp: size_setting_def peers_setting_def finish_load_def default_membership_def Let_def
    split: if_splits sum.splits option.splits)

lemma finish_load_valid: "finish_load cv c = Inr c' \<Longrightarrow> Validate (cv_url cv) c' = None"
  by (auto simp: finish_load_def Let_def split: option.splits)

lemma Load_stages:
  assumes "Load cv environ args = Inr c"
  obtains st c1 c2 c3 c4 where
    "parse_flags cv args \<lparr>l_cfg = Defaults, l_peersRaw = '''', l_maxBytesRaw = '''',
       l_maxObjectRaw = '''', l_set = []\<rparr> = Inr st"
    "env_fallbacks cv environ (l_set st) env_vars (l_cfg st) = Inr c1"
    "size_setting cv ''max-bytes'' (raw_fallback environ ''MAX_BYTES'' (l_maxBytesRaw st))
       (\<lambda>n. c1\<lparr>c_MaxBytes := n\<rparr>) c1 = Inr c2"
    "size_setting cv ''max-object-bytes'' (raw_fallback environ ''MAX_OBJECT_BYTES'' (l_maxObjectRaw st))
       (\<lambda>n. c2\<lparr>c_MaxObjectBytes := n\<rparr>) c2 = Inr c3"
    "peers_setting (raw_fallback environ ''PEERS'' (l_peersRaw st)) c3 = Inr c4"
    "finish_load cv c4 = Inr c"
  using assms by (auto simp: Load_def bind_result_Inr)

lemma Load_NodeName:
  assumes "Load cv environ args = Inr c"
  shows "c_NodeName c =
     (case last_value args ''node-name'' of
        Some v \<Rightarrow> v
      | None \<Rightarrow> (case Env environ ''NODE_NAME'' of Some v \<Rightarrow> v | None \<Rightarrow> ''node-a''))"
proof -
  obtain st c1 c2 c3 c4 where
    s: "parse_flags cv args \<lparr>l_cfg = Defaults, l_peersRaw = '''', l_maxBytesRaw = '''',
       l_maxObjectRaw = '''', l_set = []\<rparr> = Inr st"
      "env_fallbacks cv environ (l_set st) env_vars (l_cfg st) = Inr c1" and
    r: "size_setting cv ''max-bytes'' (raw_fallback environ ''MAX_BYTES'' (l_maxBytesRaw st))
       (\<lambda>n. c1\<lparr>c_MaxBytes := n\<rparr>) c1 = Inr c2"
      "size_setting cv ''max-object-bytes'' (raw_fallback environ ''MAX_OBJECT_BYTES'' (l_maxObjectRaw st))
       (\<lambda>n. c2\<lparr>c_MaxObjectBytes := n\<rparr>) c2 = Inr c3"
      "peers_setting (raw_fallback environ ''PEERS'' (l_peersRaw st)) c3 = Inr c4"
      "finish_load cv c4 = Inr c"
    by (rule Load_stages [OF assms])
  have "c_NodeName c = c_NodeName c1"
    using settings_NodeName(1) [OF r(1)] settings_NodeName(2) [OF r(2)] settings_NodeName(3) [OF r(3)]
      settings_NodeName(4) [OF r(4)] by simp
  from parse_flags_NodeName [OF s(1)] env_fallbacks_NodeName [OF s(2)] this show ?thesis
    using last_value_None_iff [of args "''node-name''"]
    by (cases "last_value args ''node-name''") (auto simp: Defaults_def simp del: set_map split: option.splits)
qed

section \<open>Lemmas: parsing\<close>

lemma format_peer_ends:
  assumes "plain_peer p"
  shows "format_peer p \<noteq> []" "hd (format_peer p) = hd (p_Name p)" "last (format_peer p) = last (p_URL p)"
  using assms by (auto simp: format_peer_def plain_peer_def)

lemma trim_format_peer: "plain_peer p \<Longrightarrow> trim_space (format_peer p) = format_peer p"
  using format_peer_ends [of p]
  by (intro trim_space_id) (auto simp: plain_peer_def trim_space_ends)

lemma parse_peer_parts_format:
  "list_all plain_peer ps \<Longrightarrow> parse_peer_parts (map format_peer ps) = Inr ps"
proof (induction ps)
  case (Cons p ps)
  then have p: "plain_peer p" by simp
  then have "cut (format_peer p) (CHR ''='') = (p_Name p, p_URL p, True)"
    by (simp add: format_peer_def plain_peer_def cut_append)
  with Cons p trim_format_peer [OF p] format_peer_ends [OF p] show ?case
    by (simp add: plain_peer_def trim_right_id)
qed simp

lemma ParsePeers_format:
  assumes "ps \<noteq> []" "list_all plain_peer ps"
  shows "ParsePeers (join '','' (map format_peer ps)) = Inr ps"
proof -
  let ?s = "join '','' (map format_peer ps)"
  obtain p qs where ps: "ps = p # qs" using assms by (cases ps) auto
  have plain: "plain_peer p" "plain_peer (last ps)" using assms ps by (auto simp: list_all_iff)
  have ne: "?s \<noteq> []" using plain ps format_peer_ends by (simp add: join_eq_Nil)
  have l: "last (map format_peer ps) = format_peer (last ps)" using assms by (simp add: last_map)
  have "trim_space ?s = ?s"
  proof (rule trim_space_id [OF ne])
    show "\<not> is_space (hd ?s)"
      using plain ps format_peer_ends [of p] by (simp add: hd_join plain_peer_def trim_space_ends)
    show "\<not> is_space (last ?s)"
      using plain l assms format_peer_ends [of "last ps"]
      by (simp add: last_join plain_peer_def trim_space_ends)
  qed
  moreover have "split_on (CHR '','') ?s = map format_peer ps"
    using assms by (intro split_on_join) (auto simp: list_all_iff plain_peer_def format_peer_def)
  ultimately show ?thesis using ne parse_peer_parts_format [OF assms(2)] by (simp add: ParsePeers_def)
qed

lemma digit_char_digit: "d < 10 \<Longrightarrow> is_digit (digit_char d) \<and> digit_val (digit_char d) = d"
  by (simp add: is_digit_def digit_char_def digit_val_def less_eq_char_def)

lemma dec_val_append: "dec_val (s @ [c]) = dec_val s * 10 + digit_val c"
  by (simp add: dec_val_def)

lemma show_nat_digits: "show_nat n \<noteq> [] \<and> list_all is_digit (show_nat n) \<and> dec_val (show_nat n) = n"
proof (induction n rule: show_nat.induct)
  case (1 n)
  show ?case
  proof (cases "n < 10")
    case True
    then show ?thesis using digit_char_digit [of n]
      by (simp add: show_nat.simps [of n]) (simp add: dec_val_def)
  next
    case False
    with 1 digit_char_digit [of "n mod 10"] show ?thesis
      by (simp add: show_nat.simps [of n] dec_val_append)
  qed
qed

lemma is_digit_facts:
  assumes "is_digit c"
  shows "\<not> is_space c" "upper_char c = c" "c \<noteq> CHR ''-''" "c \<noteq> CHR ''+''"
    "c \<notin> {CHR ''I'', CHR ''K'', CHR ''M'', CHR ''G'', CHR ''T'', CHR ''B''}"
  using assms by (auto simp: is_digit_def is_space_def upper_char_def less_eq_char_def)

lemma show_nat_rev: obtains c r where "rev (show_nat n) = c # r" "is_digit c"
proof -
  have "rev (show_nat n) \<noteq> []" "list_all is_digit (rev (show_nat n))" using show_nat_digits by simp_all
  then show ?thesis using that by (cases "rev (show_nat n)") auto
qed

lemma digits_trim: "s \<noteq> [] \<Longrightarrow> list_all is_digit s \<Longrightarrow> trim_space s = s"
  by (rule trim_space_id) (auto simp: list_all_iff is_digit_facts)

lemma digits_upper: "list_all is_digit s \<Longrightarrow> to_upper s = s"
  by (auto simp: to_upper_def list_all_iff is_digit_facts intro: map_idI)

lemma find_suffix:
  assumes "(t, m) \<in> set size_suffixes"
  shows "find (\<lambda>(text, m). has_suffix (show_nat n @ t) text) size_suffixes = Some (t, m)"
proof -
  obtain c r where "rev (show_nat n) = c # r" and c: "is_digit c" by (rule show_nat_rev)
  then have r: "rev (show_nat n) = c # r" by simp
  from is_digit_facts(5) [OF c] have ne: "c \<noteq> CHR ''I''" "c \<noteq> CHR ''K''" "c \<noteq> CHR ''M''"
    "c \<noteq> CHR ''G''" "c \<noteq> CHR ''T''" "c \<noteq> CHR ''B''" by auto
  from assms show ?thesis
    unfolding size_suffixes_def set_simps insert_iff empty_iff prod.inject has_suffix_def rev_append r
    by (elim disjE conjE; simp add: ne)
qed

lemma find_suffix_none:
  "find (\<lambda>(text, m). has_suffix (show_nat n) text) size_suffixes = None"
proof -
  obtain c r where "rev (show_nat n) = c # r" and c: "is_digit c" by (rule show_nat_rev)
  with is_digit_facts(5) [OF c] show ?thesis by (simp add: size_suffixes_def has_suffix_def)
qed

lemma to_upper_append: "to_upper (a @ b) = to_upper a @ to_upper b"
  by (simp add: to_upper_def)

lemma suffix_shape:
  assumes "(t, m) \<in> set size_suffixes"
  shows "t \<noteq> [] \<and> to_upper t = t \<and> \<not> is_space (last t) \<and> 0 < m \<and> m < 2 ^ 53"
  using assms
  unfolding size_suffixes_def set_simps insert_iff empty_iff prod.inject
  by (elim disjE conjE; simp add: to_upper_def upper_char_def is_space_def less_eq_char_def)

lemma trunc_rat_of_int: "trunc_rat (of_int n) = n"
  unfolding trunc_rat_def by (cases "0 \<le> n") (simp, metis floor_of_int of_int_minus minus_minus of_int_0_le_iff)

lemma ParseSize_suffix:
  assumes sm: "(t, m) \<in> set size_suffixes" and n: "int n * m < 2 ^ 53"
    and pf: "pf (show_nat n) = Inr (Fin (of_nat n))"
  shows "ParseSize pf ovf (show_nat n @ t) = Inr (int n * m)"
proof -
  let ?s = "show_nat n @ t"
  note d = show_nat_digits [of n] and sh = suffix_shape [OF sm]
  have "trim_space ?s = ?s"
  proof (rule trim_space_id)
    have "is_digit (hd (show_nat n))" using d by (cases "show_nat n") auto
    then show "\<not> is_space (hd ?s)" using d is_digit_facts(1) by simp
  qed (use d sh in auto)
  moreover have "to_upper ?s = ?s" using d sh by (simp add: to_upper_append digits_upper)
  moreover have "f64_to_int64 ovf (f64_mul (Fin (of_nat n)) (f64_of_int m)) = int n * m"
  proof -
    have "f64_mul (Fin (of_nat n)) (f64_of_int m) = f64_of_int (int n * m)"
      using sh by (simp add: f64_of_int_exact) (simp add: f64_of_int_def)
    also have "\<dots> = Fin (of_int (int n * m))" using n sh by (intro f64_of_int_exact) simp_all
    finally show ?thesis using n sh trunc_rat_of_int [of "int n * m"]
      by (simp del: of_int_mult) (smt (verit) mult_nonneg_nonneg of_nat_0_le_iff)
  qed
  ultimately show ?thesis
    using d pf find_suffix [OF sm, of n] digits_trim [of "show_nat n"]
    by (simp add: ParseSize_def Let_def)
qed

lemma ParseSize_plain:
  assumes "int n < 2 ^ 63"
  shows "ParseSize pf ovf (show_nat n) = Inr (int n)"
proof -
  note d = show_nat_digits [of n]
  have "\<not> has_prefix (show_nat n) ''-''" "\<not> has_prefix (show_nat n) ''+''"
    using d is_digit_facts by (cases "show_nat n"; auto)+
  then have "parse_int64 (show_nat n) = Inr (int n)"
    using d assms by (simp add: parse_int64_def Let_def)
  then show ?thesis
    using d find_suffix_none [of n] digits_trim [of "show_nat n"] digits_upper [of "show_nat n"]
    by (simp add: ParseSize_def Let_def)
qed

section \<open>Properties\<close>


text \<open>A water mark that is not a number passes validation: every comparison of \<^verbatim>\<open>Validate\<close> with it
  is false, so no guard fires, whatever the other mark is.\<close>

theorem Validate_accepts_NaN:
  assumes "Validate parseURL c = None"
  shows "Validate parseURL (c\<lparr>c_HighWater := FNaN\<rparr>) = None \<and>
     Validate parseURL (c\<lparr>c_LowWater := FNaN\<rparr>) = None"
  using assms by (auto simp: Validate_def split: if_splits sum.splits)

text \<open>\<^verbatim>\<open>Load\<close> returns only configurations that \<^verbatim>\<open>Validate\<close> accepts, and it resolves the node name
  with the documented precedence: the last flag, then the environment variable, then the
  default.\<close>

theorem Load_precedence:
  assumes "Load cv environ args = Inr c"
  shows "Validate (cv_url cv) c = None \<and>
     c_NodeName c =
       (case last_value args ''node-name'' of
          Some v \<Rightarrow> v
        | None \<Rightarrow> (case environ ''KILNCACHE_NODE_NAME'' of Some v \<Rightarrow> v | None \<Rightarrow> ''node-a''))"
proof -
  have "Validate (cv_url cv) c = None"
    using assms by (elim Load_stages) (rule finish_load_valid)
  with Load_NodeName [OF assms] show ?thesis by (auto simp: Env_def split: option.splits)
qed

text \<open>A peer list written as \<^verbatim>\<open>name=url,name=url\<close> reads back as the same list, for names and URLs
  that need no trimming and hold no separator.\<close>

theorem ParsePeers_roundtrip:
  assumes "ps \<noteq> []" "list_all plain_peer ps"
  shows "ParsePeers (join '','' (map format_peer ps)) = Inr ps"
  using assms by (rule ParsePeers_format)

text \<open>A size written with decimal digits is read as that number up to the range of \<^verbatim>\<open>int64\<close>, and
  one written with a suffix is read as exactly that multiple up to 53 bits, although the code
  computes the product in floating point: decimal suffixes are powers of 1000 and binary ones
  powers of 1024.\<close>

theorem ParseSize_exact:
  assumes "parseFloat (show_nat n) = Inr (Fin (of_nat n))"
  shows "(int n < 2 ^ 63 \<longrightarrow> ParseSize parseFloat ovf (show_nat n) = Inr (int n)) \<and>
     (\<forall>(t, m) \<in> set size_suffixes. int n * m < 2 ^ 53 \<longrightarrow>
        ParseSize parseFloat ovf (show_nat n @ t) = Inr (int n * m))"
  using ParseSize_plain ParseSize_suffix [where pf = parseFloat] assms by blast

section \<open>Witnesses\<close>

text \<open>Converters for the examples: one URL form, one float, constant durations.\<close>

definition ex_converters :: converters where
  "ex_converters = \<lparr>cv_url = (\<lambda>s. Inr (''http'', s)),
     cv_float = (\<lambda>s. Inr (Fin (if s = ''0.5'' then 1 / 2 else 1 / 4))), cv_int = parse_int64,
     cv_atoi = parse_int64,
     cv_bool = (\<lambda>s. Inr (s = ''true'')), cv_duration = (\<lambda>s. Inr second), cv_ovf = (\<lambda>_. 0)\<rparr>"

definition ex_args :: "(string \<times> string) list" where
  "ex_args = [(''high-water'', ''0.5''), (''low-water'', ''0.25''), (''node-name'', ''b'')]"

definition ex_environ :: "string \<Rightarrow> string option" where
  "ex_environ k = (if k = ''KILNCACHE_NODE_NAME'' then Some ''c'' else None)"

definition ex_config :: Config where
  "ex_config = Defaults\<lparr>c_NodeName := ''b'', c_HighWater := Fin (1 / 2), c_LowWater := Fin (1 / 4),
     c_Peers := [\<lparr>p_Name = ''b'', p_URL = ''http://127.0.0.1:8080''\<rparr>], c_ReplicaCount := 1\<rparr>"

lemma ex_config_valid: "Validate (cv_url ex_converters) ex_config = None"
  by (simp add: Validate_def ex_config_def ex_converters_def Defaults_def trim_space_def is_space_def)

lemma ex_load: "Load ex_converters ex_environ ex_args = Inr ex_config"
  using ex_config_valid
  by (simp add: Load_def ex_args_def apply_flag_def flag_cfg_def ex_converters_def env_vars_def
      env_fallback_def Env_def ex_environ_def raw_fallback_def size_setting_def peers_setting_def
      finish_load_def default_membership_def Defaults_def ex_config_def defaultSelfURL_def to_lower_def
      lower_char_def less_eq_char_def)


theorem Validate_accepts_NaN_witness:
  "Validate (cv_url ex_converters) (ex_config\<lparr>c_HighWater := FNaN\<rparr>) = None"
  using Validate_accepts_NaN [OF ex_config_valid] by simp

theorem ParseSize_exact_witness:
  "ParseSize (\<lambda>s. Inr (Fin (of_nat (dec_val s)))) (\<lambda>_. 0) ''20GIB'' = Inr (20 * 2 ^ 30)"
proof -
  have n: "show_nat 20 = ''20''" by code_simp
  have "dec_val ''20'' = 20" by (simp add: dec_val_def digit_val_def)
  then have "\<forall>(t, m) \<in> set size_suffixes. int 20 * m < 2 ^ 53 \<longrightarrow>
      ParseSize (\<lambda>s. Inr (Fin (of_nat (dec_val s)))) (\<lambda>_. 0) (''20'' @ t) = Inr (int 20 * m)"
    using ParseSize_exact [of "\<lambda>s. Inr (Fin (of_nat (dec_val s)))" 20 "\<lambda>_. 0"] n by simp
  moreover have "(''GIB'', 2 ^ 30) \<in> set size_suffixes" by (simp add: size_suffixes_def)
  ultimately show ?thesis by fastforce
qed

end
