(* ===== verification/Rendezvous.thy ===== *)
theory Rendezvous
  imports ConfigLoad Keys
begin

text \<open>
  \<^verbatim>\<open>internal/cluster/ring.go\<close>: rendezvous placement. A ring is a membership; \<open>Owners\<close> orders it by
  descending weight for a key. The parameter \<open>sha\<close> is \<^verbatim>\<open>sha256.Sum256\<close>.

  The lemmas show that the weight mixer is a bijection of the 64-bit integers, that the preference
  list is a permutation of the membership that no reordering of the peer list changes, and that a
  membership change moves only the keys of the member that left or joined.
\<close>

unbundle bit_operations_syntax

section \<open>Definitions\<close>

record Member =
  m_Name :: string
  m_URL :: string
  m_seed :: u64

record Ring =
  r_members :: "Member list"
  r_self :: string

definition memberSeed :: "(bytes \<Rightarrow> bytes) \<Rightarrow> string \<Rightarrow> u64" where
  "memberSeed sha name = be_uint64 (sha (''kilncache/member/'' @ name))"

fun isHex :: "string \<Rightarrow> bool" where
  "isHex [] = True"
| "isHex (c # s) =
     (if (CHR ''0'' \<le> c \<and> c \<le> CHR ''9'') \<or> (CHR ''a'' \<le> c \<and> c \<le> CHR ''f'') then isHex s else False)"

definition hexVal :: "char \<Rightarrow> 8 word" where
  "hexVal c =
     (if CHR ''0'' \<le> c \<and> c \<le> CHR ''9'' then of_char c - of_char CHR ''0''
      else of_char c - of_char CHR ''a'' + 10)"

definition keySeed :: "(bytes \<Rightarrow> bytes) \<Rightarrow> key \<Rightarrow> u64" where
  "keySeed sha key =
     (if length key \<ge> 16 \<and> isHex (take 16 key)
      then foldl (\<lambda>v c. push_bit 4 v OR ucast (hexVal c)) 0 (take 16 key)
      else be_uint64 (sha key))"

definition mix :: "u64 \<Rightarrow> u64" where
  "mix x0 =
     (let x1 = x0 XOR drop_bit 30 x0;
          x2 = x1 * 0xbf58476d1ce4e5b9;
          x3 = x2 XOR drop_bit 27 x2;
          x4 = x3 * 0x94d049bb133111eb
      in x4 XOR drop_bit 31 x4)"

definition weight :: "u64 \<Rightarrow> u64 \<Rightarrow> u64" where
  "weight ks ms = mix (ks XOR ms)"

text \<open>The loop of \<^verbatim>\<open>New\<close> over the peers, with the names seen so far.\<close>

definition mk_member :: "(bytes \<Rightarrow> bytes) \<Rightarrow> Peer \<Rightarrow> Member" where
  "mk_member sha p =
     (let name = trim_space (p_Name p) in
      \<lparr>m_Name = name, m_URL = trim_right (CHR ''/'') (p_URL p), m_seed = memberSeed sha name\<rparr>)"

fun new_members :: "(bytes \<Rightarrow> bytes) \<Rightarrow> string list \<Rightarrow> Peer list \<Rightarrow> Member list result" where
  "new_members sha seen [] = Inr []"
| "new_members sha seen (p # ps) =
     (let name = trim_space (p_Name p) in
      if name = '''' then Inl (NewError ''cluster: member name must not be empty'')
      else if name \<in> set seen then Inl (NewError (''cluster: duplicate member '' @ quoted name))
      else case new_members sha (name # seen) ps of
             Inl e \<Rightarrow> Inl e
           | Inr ms \<Rightarrow> Inr (mk_member sha p # ms))"

definition New :: "(bytes \<Rightarrow> bytes) \<Rightarrow> Peer list \<Rightarrow> string \<Rightarrow> Ring result" where
  "New sha peers self =
     (if peers = [] then Inl ErrEmptyMembership
      else case new_members sha [] peers of
             Inl e \<Rightarrow> Inl e
           | Inr ms \<Rightarrow>
               (let members = sort_by (\<lambda>a b. m_Name a < m_Name b) ms in
                if self \<noteq> '''' \<and> self \<notin> set (map m_Name ms)
                then Inl (NewError (''cluster: self '' @ quoted self @ '' is not a member''))
                else Inr \<lparr>r_members = members, r_self = self\<rparr>))"

definition Size :: "Ring \<Rightarrow> nat" where
  "Size r = length (r_members r)"

definition Self :: "Ring \<Rightarrow> string" where
  "Self r = r_self r"

definition Members :: "Ring \<Rightarrow> Member list" where
  "Members r = r_members r"

definition Lookup :: "Ring \<Rightarrow> string \<Rightarrow> Member option" where
  "Lookup r name = find (\<lambda>m. m_Name m = name) (r_members r)"

text \<open>The comparator of \<^verbatim>\<open>Owners\<close>: descending weight, then ascending name.\<close>

definition scored_less :: "Member \<times> u64 \<Rightarrow> Member \<times> u64 \<Rightarrow> bool" where
  "scored_less a b = (if snd a \<noteq> snd b then snd a > snd b else m_Name (fst a) < m_Name (fst b))"

definition Owners :: "(bytes \<Rightarrow> bytes) \<Rightarrow> Ring \<Rightarrow> key \<Rightarrow> Member list" where
  "Owners sha r key =
     (let ks = keySeed sha key;
          scored = map (\<lambda>m. (m, weight ks (m_seed m))) (r_members r)
      in map fst (sort_by scored_less scored))"

definition Holders :: "(bytes \<Rightarrow> bytes) \<Rightarrow> Ring \<Rightarrow> key \<Rightarrow> int \<Rightarrow> Member list" where
  "Holders sha r key n0 =
     (let n1 = (if n0 < 1 then 1 else n0);
          owners = Owners sha r key;
          n = (if n1 > int (length owners) then int (length owners) else n1)
      in take (nat n) owners)"

definition HoldsKey :: "(bytes \<Rightarrow> bytes) \<Rightarrow> Ring \<Rightarrow> string \<Rightarrow> key \<Rightarrow> int \<Rightarrow> bool" where
  "HoldsKey sha r name key n = list_ex (\<lambda>m. m_Name m = name) (Holders sha r key n)"

definition SelfHolds :: "(bytes \<Rightarrow> bytes) \<Rightarrow> Ring \<Rightarrow> key \<Rightarrow> int \<Rightarrow> bool" where
  "SelfHolds sha r key n = HoldsKey sha r (r_self r) key n"

text \<open>\<open>None\<close> is the index panic on an empty membership, which \<^verbatim>\<open>New\<close> excludes.\<close>

definition Primary :: "(bytes \<Rightarrow> bytes) \<Rightarrow> Ring \<Rightarrow> key \<Rightarrow> Member option" where
  "Primary sha r key = (case Owners sha r key of [] \<Rightarrow> None | m # _ \<Rightarrow> Some m)"

text \<open>What \<^verbatim>\<open>New\<close> establishes: a non-empty membership, sorted by name without duplicates, every
  seed derived from its name, and this node a member unless it is anonymous.\<close>

definition ring_ok :: "(bytes \<Rightarrow> bytes) \<Rightarrow> Ring \<Rightarrow> bool" where
  "ring_ok sha r \<longleftrightarrow> r_members r \<noteq> [] \<and> sorted (map m_Name (r_members r)) \<and>
     distinct (map m_Name (r_members r)) \<and>
     list_all (\<lambda>m. m_Name m \<noteq> '''' \<and> m_seed m = memberSeed sha (m_Name m)) (r_members r) \<and>
     (r_self r = '''' \<or> r_self r \<in> set (map m_Name (r_members r)))"

text \<open>The sort key that \<open>scored_less\<close> compares: descending weight, then name.\<close>

definition pref_key :: "u64 \<Rightarrow> Member \<Rightarrow> int \<times> string" where
  "pref_key ks m = (- uint (weight ks (m_seed m)), m_Name m)"

text \<open>The name under which a peer becomes a member.\<close>

definition peer_key :: "Peer \<Rightarrow> string" where
  "peer_key p = trim_space (p_Name p)"

text \<open>The number that sixteen hexadecimal digits spell.\<close>

definition hex_nat :: "string \<Rightarrow> nat" where
  "hex_nat s = foldl (\<lambda>v c. v * 16 + unat (hexVal c)) 0 s"

section \<open>A preference order over a membership\<close>

text \<open>
  What the replication code needs of placement: for every key, the owners are a permutation of the
  members. \<open>holders\<close> takes a prefix of it.
\<close>

locale placement =
  fixes owners :: "'r \<Rightarrow> 'k \<Rightarrow> 'm list" and members :: "'r \<Rightarrow> 'm list" and ok :: "'r \<Rightarrow> bool"
  assumes owners_perm: "mset (owners r k) = mset (members r)"
    and members_distinct: "ok r \<Longrightarrow> distinct (members r)"
    and members_ne: "ok r \<Longrightarrow> members r \<noteq> []"
begin

lemma owners_set: "set (owners r k) = set (members r)"
  by (metis owners_perm set_mset_mset)

lemma owners_length: "length (owners r k) = length (members r)"
  by (metis owners_perm size_mset)

lemma owners_distinct: "ok r \<Longrightarrow> distinct (owners r k)"
  using owners_perm members_distinct by (metis mset_eq_imp_distinct_iff)

lemma prefix_distinct: "ok r \<Longrightarrow> distinct (take n (owners r k))"
  by (simp add: owners_distinct)

lemma prefix_length: "n \<le> length (members r) \<Longrightarrow> length (take n (owners r k)) = n"
  by (simp add: owners_length)

lemma prefix_members: "set (take n (owners r k)) \<subseteq> set (members r)"
  using owners_set set_take_subset by fastforce

lemma owners_ne: "ok r \<Longrightarrow> owners r k \<noteq> []"
  by (metis length_0_conv members_ne owners_length)

end

section \<open>Lemmas: the mixer\<close>

text \<open>\<open>x XOR (x >> k)\<close> determines \<open>x\<close>: its bits are recovered from the top down.\<close>

lemma xorshift_inj:
  assumes "0 < k"
  shows "inj (\<lambda>x :: u64. x XOR drop_bit k x)"
proof (rule injI, rule bit_eqI)
  fix x y :: u64 and n
  assume eq: "x XOR drop_bit k x = y XOR drop_bit k y"
  have "bit x n = bit y n" for n
  proof (induction "64 - n" arbitrary: n rule: less_induct)
    case less
    show ?case
    proof (cases "n < 64")
      case True
      then have "bit x (n + k) = bit y (n + k)" using less assms by simp
      moreover have "bit (x XOR drop_bit k x) n = bit (y XOR drop_bit k y) n" using eq by simp
      ultimately show ?thesis by (simp add: bit_simps add.commute) blast
    next
      case False
      then show ?thesis by (auto dest: bit_imp_le_length)
    qed
  qed
  then show "bit x n = bit y n" .
qed

lemma odd_mult_inj:
  assumes "c * d = (1 :: u64)"
  shows "inj (\<lambda>x. x * c)"
proof (rule injI)
  fix x y :: u64
  assume "x * c = y * c"
  then have "x * c * d = y * c * d" by simp
  then show "x = y" using assms by (simp only: mult.assoc mult_1_right)
qed

lemma mix_inj: "inj mix"
proof -
  have m: "mix = (\<lambda>x. x XOR drop_bit 31 x) \<circ> ((\<lambda>x. x * 0x94d049bb133111eb) \<circ> ((\<lambda>x. x XOR drop_bit 27 x) \<circ>
      ((\<lambda>x. x * 0xbf58476d1ce4e5b9) \<circ> (\<lambda>x. x XOR drop_bit 30 x))))"
    by (simp add: fun_eq_iff mix_def Let_def)
  have i: "inj (\<lambda>x :: u64. x * 0x94d049bb133111eb)" "inj (\<lambda>x :: u64. x * 0xbf58476d1ce4e5b9)"
    by (rule odd_mult_inj [where d = "0x319642b2d24d8ec3"], simp)
      (rule odd_mult_inj [where d = "0x96de1b173f119089"], simp)
  show ?thesis unfolding m by (intro inj_compose xorshift_inj i) simp_all
qed

lemma xor_cancel_word: "a XOR b = a XOR c \<longleftrightarrow> b = (c :: u64)"
  by (auto simp: bit_eq_iff bit_xor_iff)

lemma weight_eq_iff: "weight ks a = weight ks b \<longleftrightarrow> a = b"
  by (simp add: weight_def inj_eq [OF mix_inj] xor_cancel_word)

section \<open>Lemmas: the preference list\<close>

lemma sort_key_map: "sort_key f (map g xs) = map g (sort_key (f \<circ> g) xs)"
proof -
  have "insort_key f (g x) (map g ys) = map g (insort_key (f \<circ> g) x ys)" for x ys
    by (induction ys) auto
  then show ?thesis by (induction xs) auto
qed

lemma Owners_sort_key: "Owners sha r key = sort_key (pref_key (keySeed sha key)) (r_members r)"
proof -
  let ?ks = "keySeed sha key" and ?f = "\<lambda>x. (- uint (snd x), m_Name (fst x))"
  have less: "scored_less x y = (?f x < ?f y)" for x y
    using word_uint_eq_iff [of "snd x" "snd y"]
    by (auto simp: scored_less_def word_less_def less_prod_def)
  show ?thesis
    by (simp add: Owners_def Let_def sort_by_key [of scored_less ?f, OF less] sort_key_map comp_def
        pref_key_def [abs_def])
qed

lemma Owners_perm: "mset (Owners sha r key) = mset (r_members r)"
  by (simp add: Owners_sort_key)

lemma distinct_names_members: "distinct (map m_Name ms) \<Longrightarrow> distinct ms"
  by (simp add: distinct_map)

interpretation rdv: placement "Owners sha" r_members "ring_ok sha" for sha
  by unfold_locales (auto simp: Owners_perm ring_ok_def dest: distinct_names_members)

lemma Holders_take:
  "Holders sha r key n = take (nat (max 1 n)) (Owners sha r key)"
  by (auto simp: Holders_def Let_def max_def)

lemma HoldsKey_iff: "HoldsKey sha r name key n \<longleftrightarrow> name \<in> m_Name ` set (Holders sha r key n)"
  by (auto simp: HoldsKey_def list_ex_iff)

section \<open>Lemmas: construction\<close>

lemma mk_member_sel [simp]:
  "m_Name (mk_member sha p) = peer_key p" "m_seed (mk_member sha p) = memberSeed sha (peer_key p)"
  by (simp_all add: mk_member_def peer_key_def Let_def)

lemma new_members_Inr:
  "new_members sha seen ps = Inr ms \<longleftrightarrow>
     ms = map (mk_member sha) ps \<and> distinct (map peer_key ps) \<and> '''' \<notin> set (map peer_key ps) \<and>
     set (map peer_key ps) \<inter> set seen = {}"
proof (induction ps arbitrary: seen ms)
  case (Cons p ps)
  let ?n = "peer_key p"
  show ?case
  proof (cases "?n = '''' \<or> ?n \<in> set seen")
    case True
    then show ?thesis by (auto simp: Let_def peer_key_def)
  next
    case False
    then have "new_members sha seen (p # ps) = Inr ms \<longleftrightarrow>
        (\<exists>ms'. new_members sha (?n # seen) ps = Inr ms' \<and> ms = mk_member sha p # ms')"
      by (auto simp: Let_def peer_key_def split: sum.split)
    with Cons.IH [of "?n # seen"] False show ?thesis by auto
  qed
qed auto

lemma New_Inr:
  "New sha ps self = Inr r \<longleftrightarrow>
     ps \<noteq> [] \<and> distinct (map peer_key ps) \<and> '''' \<notin> set (map peer_key ps) \<and>
     (self = '''' \<or> self \<in> set (map peer_key ps)) \<and>
     r = \<lparr>r_members = sort_key m_Name (map (mk_member sha) ps), r_self = self\<rparr>"
proof (cases "new_members sha [] ps")
  case (Inl e)
  then show ?thesis
    using new_members_Inr [of sha "[]" ps "map (mk_member sha) ps"] by (auto simp: New_def)
next
  case (Inr ms)
  then show ?thesis
    using new_members_Inr [of sha "[]" ps ms]
    by (auto simp: New_def Let_def sort_by_key [of "\<lambda>a b. m_Name a < m_Name b" m_Name] image_image)
qed

lemma map_mk_member_names: "map m_Name (map (mk_member sha) ps) = map peer_key ps"
  by simp

lemma New_ring_ok:
  assumes "New sha ps self = Inr r"
  shows "ring_ok sha r"
proof -
  let ?ms = "map (mk_member sha) ps"
  from assms have r: "r = \<lparr>r_members = sort_key m_Name ?ms, r_self = self\<rparr>"
    and ps: "ps \<noteq> []" "distinct (map peer_key ps)" "'''' \<notin> set (map peer_key ps)"
      "self = '''' \<or> self \<in> set (map peer_key ps)"
    by (simp_all add: New_Inr)
  have "mset (map m_Name (sort_key m_Name ?ms)) = mset (map peer_key ps)"
    by (simp add: multiset.map_comp comp_def)
  then have "distinct (map m_Name (sort_key m_Name ?ms))"
    using ps(2) mset_eq_imp_distinct_iff by blast
  moreover have "sort_key m_Name ?ms \<noteq> []" using ps(1) by (metis length_0_conv length_map length_sort)
  ultimately show ?thesis
    using ps r by (force simp: ring_ok_def list_all_iff image_image)
qed

text \<open>Any permutation of the peers gives the same ring, since the sort by distinct names is unique.\<close>

lemma New_perm:
  assumes "New sha ps self = Inr r" "mset ps' = mset ps"
  shows "New sha ps' self = Inr r"
proof -
  have ms: "mset (map peer_key ps') = mset (map peer_key ps)" and s: "set ps' = set ps"
    using assms(2) by (simp, metis set_mset_mset)
  from assms(1) have d: "distinct (map peer_key ps)" by (simp add: New_Inr)
  then have "inj_on m_Name (set (map (mk_member sha) ps))"
    by (auto simp: distinct_map inj_on_def)
  then have "sort_key m_Name (map (mk_member sha) ps') = sort_key m_Name (map (mk_member sha) ps)"
    using assms(2) by (intro sorted_perm_unique) simp_all
  moreover have "distinct (map peer_key ps')" using ms d mset_eq_imp_distinct_iff by blast
  moreover have "ps' \<noteq> []" using assms by (auto simp: New_Inr)
  ultimately show ?thesis using assms(1) s by (simp add: New_Inr)
qed

text \<open>Dropping the peers with one name drops that member and nothing else.\<close>

lemma New_drop:
  assumes "New sha ps self = Inr r" "New sha (filter (\<lambda>p. peer_key p \<noteq> n) ps) self' = Inr r'"
  shows "r_members r' = filter (\<lambda>m. m_Name m \<noteq> n) (r_members r)"
  using assms by (simp add: New_Inr filter_sort filter_map comp_def)

lemma Owners_drop:
  assumes "r_members r' = filter P (r_members r)"
  shows "Owners sha r' key = filter P (Owners sha r key)"
  using assms by (simp add: Owners_sort_key filter_sort)

lemma take_filter_superset:
  "set (filter P (take n xs)) \<subseteq> set (take n (filter P xs))"
proof (induction xs arbitrary: n)
  case (Cons x xs)
  then show ?case
  proof (cases n)
    case (Suc k)
    have "set (take k (filter P xs)) \<subseteq> set (take (Suc k) (filter P xs))"
      by (rule set_take_subset_set_take) simp
    with Cons.IH [of k] Suc show ?thesis by auto
  qed simp
qed simp

lemma take_filter_id: "\<forall>x \<in> set (take n xs). P x \<Longrightarrow> take n (filter P xs) = take n xs"
proof (induction xs arbitrary: n)
  case (Cons x xs)
  then show ?case by (cases n) auto
qed simp

section \<open>Lemmas: key seeds\<close>

lemma isHex_iff: "isHex s \<longleftrightarrow> (\<forall>c \<in> set s. is_hex_char c)"
  by (induction s) (auto simp: is_hex_char_def)

lemma keySeed_valid:
  "valid_key key \<Longrightarrow> keySeed sha key = foldl (\<lambda>v c. push_bit 4 v OR ucast (hexVal c)) 0 (take 16 key)"
  by (auto simp: keySeed_def ValidateKey_iff isHex_iff dest: in_set_takeD)

lemma is_hex_char_cases: "is_hex_char c \<Longrightarrow> c \<in> set ''0123456789abcdef''"
proof -
  assume "is_hex_char c"
  then have "48 \<le> (of_char c :: nat) \<and> of_char c \<le> (57 :: nat) \<or>
      97 \<le> (of_char c :: nat) \<and> of_char c \<le> (102 :: nat)"
    by (auto simp: is_hex_char_def less_eq_char_def)
  then have n: "of_char c \<in> set ([48..<58] @ [97..<103 :: nat])"
    by (simp only: set_append set_upt Un_iff atLeastLessThan_iff) linarith
  have "c = char_of (of_char c :: nat)" by simp
  also have "\<dots> \<in> char_of ` set ([48..<58] @ [97..<103 :: nat])" using n by (rule imageI)
  also have "\<dots> = set ''0123456789abcdef''" by code_simp
  finally show ?thesis .
qed

lemma hexVal_inverse: "is_hex_char c \<Longrightarrow> hex_digit (unat (hexVal c)) = c \<and> unat (hexVal c) < 16"
proof -
  have "\<forall>c \<in> set ''0123456789abcdef''. hex_digit (unat (hexVal c)) = c \<and> unat (hexVal c) < 16"
    by code_simp
  then show "is_hex_char c \<Longrightarrow> ?thesis" using is_hex_char_cases by blast
qed

lemma hexVal_inj: "is_hex_char c \<Longrightarrow> is_hex_char d \<Longrightarrow> unat (hexVal c) = unat (hexVal d) \<Longrightarrow> c = d"
  by (metis hexVal_inverse)

lemma shift_or_nat:
  fixes v :: u64 and d :: "8 word"
  assumes "unat d < 16" "unat v < 16 ^ 15"
  shows "unat (push_bit 4 v OR ucast d) = unat v * 16 + unat d"
proof -
  have bd: "\<not> bit (ucast d :: u64) n" if "n \<ge> 4" for n
  proof -
    have "2 ^ 4 \<le> (2 :: nat) ^ n" using that by (intro power_increasing) simp_all
    then have "16 \<le> (2 :: nat) ^ n" by simp
    then have "unat d < 2 ^ n" using assms(1) by (rule order.strict_trans2 [rotated])
    then have "\<not> bit (unat d) n" by (simp add: bit_nat_def)
    then show ?thesis by (simp add: bit_unsigned_iff)
  qed
  have "push_bit 4 v OR ucast d = push_bit 4 v + ucast d"
    by (rule disjunctive_add [symmetric]) (use bd in \<open>auto simp: bit_simps not_le\<close>)
  also have "\<dots> = of_nat (unat v * 16 + unat d)"
    by (simp add: push_bit_eq_mult)
  finally have e: "push_bit 4 v OR ucast d = of_nat (unat v * 16 + unat d)" .
  have "unat v * 16 + unat d < 2 ^ 64" using assms by simp
  then show ?thesis unfolding e unsigned_of_nat by (simp add: take_bit_nat_eq_self)
qed

lemma hex_nat_bound: "\<forall>c \<in> set s. is_hex_char c \<Longrightarrow> hex_nat s < 16 ^ length s"
proof (induction s rule: rev_induct)
  case (snoc c s)
  then have "hex_nat s < 16 ^ length s" "unat (hexVal c) < 16" using hexVal_inverse by auto
  then show ?case by (simp add: hex_nat_def)
qed (simp add: hex_nat_def)

lemma key_fold_nat:
  assumes "\<forall>c \<in> set s. is_hex_char c" "length s \<le> 16"
  shows "unat (foldl (\<lambda>v c. push_bit 4 v OR ucast (hexVal c)) (0 :: u64) s) = hex_nat s"
  using assms
proof (induction s rule: rev_induct)
  case (snoc c s)
  then have s: "unat (foldl (\<lambda>v c. push_bit 4 v OR ucast (hexVal c)) (0 :: u64) s) = hex_nat s" by simp
  have "hex_nat s < 16 ^ length s" using snoc.prems by (intro hex_nat_bound) simp
  also have "\<dots> \<le> 16 ^ 15" using snoc.prems by (intro power_increasing) simp_all
  finally have "hex_nat s < 16 ^ 15" .
  moreover have "unat (hexVal c) < 16" using snoc.prems hexVal_inverse by simp
  ultimately show ?case using s by (simp add: shift_or_nat) (simp add: hex_nat_def)
qed (simp add: hex_nat_def)

lemma hex_nat_inj:
  assumes "length s = length t" "\<forall>c \<in> set s. is_hex_char c" "\<forall>c \<in> set t. is_hex_char c"
    "hex_nat s = hex_nat t"
  shows "s = t"
  using assms
proof (induction s arbitrary: t rule: rev_induct)
  case (snoc x xs)
  then obtain ys y where t: "t = ys @ [y]" by (cases t rule: rev_cases) auto
  have xy: "unat (hexVal x) < 16" "unat (hexVal y) < 16" using hexVal_inverse snoc.prems t by simp_all
  have "hex_nat xs * 16 + unat (hexVal x) = hex_nat ys * 16 + unat (hexVal y)"
    using snoc.prems t by (simp add: hex_nat_def)
  with xy have "hex_nat xs = hex_nat ys" "unat (hexVal x) = unat (hexVal y)" by presburger+
  then have "xs = ys" "x = y" using snoc.IH [of ys] hexVal_inj [of x y] snoc.prems t by simp_all
  with t show ?case by simp
qed simp

lemma keySeed_eq_iff:
  assumes "valid_key k" "valid_key k'"
  shows "keySeed sha k = keySeed sha k' \<longleftrightarrow> take 16 k = take 16 k'"
proof
  have h: "\<forall>c \<in> set (take 16 k). is_hex_char c" "\<forall>c \<in> set (take 16 k'). is_hex_char c"
    using assms by (auto simp: ValidateKey_iff dest: in_set_takeD)
  assume "keySeed sha k = keySeed sha k'"
  then have "hex_nat (take 16 k) = hex_nat (take 16 k')"
    using key_fold_nat [OF h(1)] key_fold_nat [OF h(2)] assms by (simp add: keySeed_valid)
  then show "take 16 k = take 16 k'"
    using assms h by (intro hex_nat_inj) (simp_all add: ValidateKey_iff)
qed (simp add: keySeed_valid assms)

section \<open>Properties\<close>

text \<open>The weight mixer is a bijection on the 64-bit integers, so for any key two members have the
  same weight exactly when they have the same seed: the tie break by name is reached only on a
  collision of member seeds, never because of the key.\<close>

theorem mix_bijection: "bij mix \<and> (weight ks a = weight ks b \<longleftrightarrow> a = b)"
  using mix_inj finite_UNIV_inj_surj [of mix] weight_eq_iff by (auto simp: bij_def)

text \<open>C12: The preference list of a ring built by \<^verbatim>\<open>New\<close> is a permutation of the members without
  repetition, in descending order of weight with ties in order of name, and it is the only such
  list; the holders are a prefix of it with exactly the clamped number of members.\<close>

theorem Owners_correct:
  assumes "New sha peers self = Inr r"
  shows "mset (Owners sha r key) = mset (r_members r) \<and> distinct (map m_Name (Owners sha r key)) \<and>
     sorted (map (pref_key (keySeed sha key)) (Owners sha r key)) \<and>
     (\<forall>ms. mset ms = mset (r_members r) \<longrightarrow> sorted (map (pref_key (keySeed sha key)) ms) \<longrightarrow>
        ms = Owners sha r key) \<and>
     Holders sha r key n = take (nat (max 1 n)) (Owners sha r key) \<and>
     length (Holders sha r key n) = nat (min (max 1 n) (int (length peers)))"
proof -
  have ok: "ring_ok sha r" using assms by (rule New_ring_ok)
  then have d: "distinct (map m_Name (r_members r))" by (simp add: ring_ok_def)
  then have "distinct (map m_Name (Owners sha r key))"
    using Owners_perm [of sha r key] by (metis mset_map mset_eq_imp_distinct_iff)
  moreover have "inj_on (pref_key ks) (set (r_members r))" for ks
    using d by (auto simp: pref_key_def inj_on_def distinct_map)
  then have "ms = Owners sha r key"
    if "mset ms = mset (r_members r)" "sorted (map (pref_key (keySeed sha key)) ms)" for ms
    unfolding Owners_sort_key using that by (intro sorted_perm_unique)
  moreover have "length (Owners sha r key) = length peers"
    using assms rdv.owners_length [of sha r key] by (simp add: New_Inr)
  ultimately show ?thesis
    by (auto simp: Owners_perm Holders_take Owners_sort_key min_def)
qed

text \<open>Two nodes that are given the same peers in a different order build the same ring.\<close>

theorem New_order_independent:
  assumes "New sha peers self = Inr r" "mset peers' = mset peers"
  shows "New sha peers' self = Inr r"
  using assms by (rule New_perm)

text \<open>C11: A membership change moves as little as possible. When member \<open>n\<close> leaves, the preference
  list of every key is the old one without \<open>n\<close>: a key that \<open>n\<close> did not hold keeps exactly its
  holders, and every key keeps all its other holders. Read backwards it is the same statement
  about a member that joins.\<close>

theorem leave_moves_only_its_keys:
  assumes "New sha peers self = Inr r"
    and "New sha (filter (\<lambda>p. trim_space (p_Name p) \<noteq> n) peers) self' = Inr r'"
  shows "Owners sha r' key = filter (\<lambda>m. m_Name m \<noteq> n) (Owners sha r key) \<and>
     {m \<in> set (Holders sha r key k). m_Name m \<noteq> n} \<subseteq> set (Holders sha r' key k) \<and>
     (\<not> HoldsKey sha r n key k \<longrightarrow> Holders sha r' key k = Holders sha r key k)"
proof -
  let ?P = "\<lambda>m. m_Name m \<noteq> n"
  have o: "Owners sha r' key = filter ?P (Owners sha r key)"
    using assms by (intro Owners_drop New_drop) (simp_all add: peer_key_def)
  moreover have "{m \<in> set (Holders sha r key k). ?P m} \<subseteq> set (Holders sha r' key k)"
    using take_filter_superset [of ?P "nat (max 1 k)" "Owners sha r key"] by (simp add: Holders_take o)
  moreover have "Holders sha r' key k = Holders sha r key k"
    if "\<not> HoldsKey sha r n key k"
    using that by (auto simp: HoldsKey_iff Holders_take o intro!: take_filter_id)
  ultimately show ?thesis by blast
qed

text \<open>The placement of a valid key does not run the hash function: its seed is the number spelled
  by its first sixteen digits, and two valid keys have the same seed exactly when these agree.\<close>

theorem keySeed_of_valid_keys:
  assumes "valid_key k" "valid_key k'"
  shows "unat (keySeed sha k) = hex_nat (take 16 k) \<and>
     (keySeed sha k = keySeed sha k' \<longleftrightarrow> take 16 k = take 16 k')"
proof -
  have "\<forall>c \<in> set (take 16 k). is_hex_char c" using assms by (auto simp: ValidateKey_iff dest: in_set_takeD)
  with key_fold_nat [OF this] keySeed_eq_iff [OF assms] assms(1) show ?thesis
    by (simp add: keySeed_valid)
qed

section \<open>Witnesses\<close>

definition ex_peers :: "Peer list" where
  "ex_peers = [\<lparr>p_Name = ''b'', p_URL = ''http://b:1/''\<rparr>, \<lparr>p_Name = ''a'', p_URL = ''http://a:1''\<rparr>,
     \<lparr>p_Name = ''c'', p_URL = ''http://c:1''\<rparr>]"

definition ex_ring :: Ring where
  "ex_ring = \<lparr>r_members = sort_key m_Name (map (mk_member ex_sha) ex_peers), r_self = ''a''\<rparr>"

definition ex_key :: key where
  "ex_key = replicate 64 (CHR ''3'')"

lemma ex_ring_New: "New ex_sha ex_peers ''a'' = Inr ex_ring"
  by (simp add: New_Inr ex_ring_def ex_peers_def peer_key_def trim_space_def is_space_def)

lemma ex_key_valid: "valid_key ex_key"
  by (simp add: ValidateKey_iff ex_key_def is_hex_char_def)

theorem Owners_correct_witness:
  "length (Holders ex_sha ex_ring ex_key 2) = 2 \<and> distinct (map m_Name (Owners ex_sha ex_ring ex_key))"
proof -
  have "length (Holders ex_sha ex_ring ex_key 2) = nat (min (max 1 2) (int (length ex_peers))) \<and>
      distinct (map m_Name (Owners ex_sha ex_ring ex_key))"
    using Owners_correct [OF ex_ring_New, of ex_key 2] by blast
  then show ?thesis by (simp add: ex_peers_def)
qed

theorem New_order_independent_witness:
  "New ex_sha (rev ex_peers) ''a'' = New ex_sha ex_peers ''a'' \<and> rev ex_peers \<noteq> ex_peers"
  using New_order_independent [OF ex_ring_New, of "rev ex_peers"] ex_ring_New by (simp add: ex_peers_def)

theorem leave_moves_only_its_keys_witness:
  "\<exists>r'. New ex_sha (filter (\<lambda>p. trim_space (p_Name p) \<noteq> ''c'') ex_peers) ''a'' = Inr r' \<and>
     Owners ex_sha r' ex_key = filter (\<lambda>m. m_Name m \<noteq> ''c'') (Owners ex_sha ex_ring ex_key)"
proof -
  have "\<exists>r'. New ex_sha (filter (\<lambda>p. trim_space (p_Name p) \<noteq> ''c'') ex_peers) ''a'' = Inr r'"
    by (simp add: New_Inr ex_peers_def peer_key_def trim_space_def is_space_def)
  with leave_moves_only_its_keys [OF ex_ring_New] show ?thesis by blast
qed

theorem keySeed_of_valid_keys_witness:
  "unat (keySeed ex_sha ex_key) = hex_nat (replicate 16 (CHR ''3''))"
  using keySeed_of_valid_keys [OF ex_key_valid ex_key_valid, of ex_sha] by (simp add: ex_key_def)

end
