(* ===== verification/MetaIndex.thy ===== *)
theory MetaIndex
  imports Keys
begin

text \<open>
  \<^verbatim>\<open>internal/storage/index.go\<close>: the metadata index. The tables \<^verbatim>\<open>objects\<close> and \<^verbatim>\<open>meta\<close> are
  association lists over their primary keys, and each operation does what the SQL statement in its
  source says. The order of the association list stands for the order in which the engine scans
  the table, which decides ties of an \<^verbatim>\<open>ORDER BY\<close>; no property depends on it.

  A failure of the database (or a cancelled context) is an argument of the operation. A
  transaction that fails at any stage is rolled back: the table is unchanged. \<open>touchMu\<close> makes the
  updates of the pending map atomic; each operation below is one critical section followed by at
  most one transaction.
\<close>

section \<open>State\<close>

record idx_row =
  x_size :: int
  x_created :: time
  x_access :: time
  x_count :: int

record Entry =
  e_ns :: namespace
  e_key :: key
  e_size :: int
  e_created :: time
  e_access :: time
  e_count :: int

record IndexStats =
  st_Inserts :: int
  st_IdxDeletes :: int
  st_TouchesQueued :: int
  st_TouchFlushes :: int
  st_TouchesWritten :: int
  st_TouchesDropped :: int

record Index =
  i_objects :: "(objRef, idx_row) gomap"
  i_meta :: "(string, string) gomap"
  i_pending :: "(objRef, time) gomap"
  i_touchLimit :: nat
  i_closed :: bool
  i_dbopen :: bool
  i_stats :: IndexStats

definition zero_index_stats :: IndexStats where
  "zero_index_stats = \<lparr>st_Inserts = 0, st_IdxDeletes = 0, st_TouchesQueued = 0, st_TouchFlushes = 0,
     st_TouchesWritten = 0, st_TouchesDropped = 0\<rparr>"

definition defaultTouchLimit :: nat where
  "defaultTouchLimit = 4096"

text \<open>
  \<^verbatim>\<open>OpenIndex\<close> over the tables found in the file: \<open>fault\<close> is the error of opening, pinging or
  creating the schema. A limit of zero or less means the default.
\<close>

definition OpenIndex ::
  "path \<Rightarrow> int \<Rightarrow> (objRef, idx_row) gomap \<times> (string, string) gomap \<Rightarrow> go_error option \<Rightarrow> Index result" where
  "OpenIndex p limit tables fault =
     (if p = [] then Inl (NewError ''storage: index path must not be empty'')
      else case fault of
             Some e \<Rightarrow> Inl (Wrapped ''storage: open index'' e)
           | None \<Rightarrow> Inr \<lparr>i_objects = fst tables, i_meta = snd tables, i_pending = [],
                          i_touchLimit = (if limit \<le> 0 then defaultTouchLimit else nat limit),
                          i_closed = False, i_dbopen = True, i_stats = zero_index_stats\<rparr>)"

definition entry_of :: "objRef \<Rightarrow> idx_row \<Rightarrow> Entry" where
  "entry_of ref x = \<lparr>e_ns = fst ref, e_key = snd ref, e_size = x_size x, e_created = x_created x,
     e_access = x_access x, e_count = x_count x\<rparr>"

definition entry_ref :: "Entry \<Rightarrow> objRef" where
  "entry_ref e = (e_ns e, e_key e)"

text \<open>A statement fails when the driver reports an error or the pool was closed.\<close>

definition db_err :: "Index \<Rightarrow> go_error option \<Rightarrow> go_error option" where
  "db_err i fault = (if i_dbopen i then fault else Some (NewError ''sql: database is closed''))"

section \<open>Writes\<close>

definition Upsert ::
  "namespace \<Rightarrow> key \<Rightarrow> int \<Rightarrow> time \<Rightarrow> go_error option \<Rightarrow> Index \<Rightarrow> go_error option \<times> Index" where
  "Upsert ns key sz now fault i =
     (if i_closed i then (Some ErrClosed, i)
      else case db_err i fault of
             Some e \<Rightarrow> (Some (Wrapped ''storage: index upsert'' e), i)
           | None \<Rightarrow>
               (let row = (case mget (i_objects i) (ns, key) of
                             None \<Rightarrow> \<lparr>x_size = sz, x_created = now, x_access = now, x_count = 1\<rparr>
                           | Some x \<Rightarrow> x\<lparr>x_size := sz, x_access := now\<rparr>)
                in (None, i\<lparr>i_objects := mput (ns, key) row (i_objects i),
                             i_stats := (i_stats i)\<lparr>st_Inserts := st_Inserts (i_stats i) + 1\<rparr>\<rparr>)))"

definition Remove ::
  "namespace \<Rightarrow> key \<Rightarrow> go_error option \<Rightarrow> Index \<Rightarrow> go_error option \<times> Index" where
  "Remove ns key fault i =
     (if i_closed i then (Some ErrClosed, i)
      else let i1 = i\<lparr>i_pending := mdel (ns, key) (i_pending i)\<rparr> in
        case db_err i1 fault of
          Some e \<Rightarrow> (Some (Wrapped ''storage: index remove'' e), i1)
        | None \<Rightarrow> (None, i1\<lparr>i_objects := mdel (ns, key) (i_objects i1),
                             i_stats := (i_stats i1)\<lparr>st_IdxDeletes := st_IdxDeletes (i_stats i1) + 1\<rparr>\<rparr>))"

text \<open>Where a transaction fails: at its begin, clearing the table (\<^verbatim>\<open>ReplaceAll\<close> only), preparing
  its statement, at the \<open>n\<close>th execution of the statement, or at its commit.\<close>

datatype tx_fault =
  TxBegin go_error | TxClear go_error | TxPrepare go_error | TxExec nat go_error | TxCommit go_error

text \<open>The error of a transaction that executes its statement \<open>n\<close> times, with the texts the
  operation wraps it with. A fault at an execution that does not happen is no fault.\<close>

fun tx_error :: "string \<times> string \<times> string \<times> string \<Rightarrow> nat \<Rightarrow> tx_fault option \<Rightarrow> go_error option" where
  "tx_error (b, p, x, c) n None = None"
| "tx_error (b, p, x, c) n (Some (TxBegin e)) = Some (Wrapped b e)"
| "tx_error (b, p, x, c) n (Some (TxClear e)) = None"
| "tx_error (b, p, x, c) n (Some (TxPrepare e)) = Some (Wrapped p e)"
| "tx_error (b, p, x, c) n (Some (TxExec k e)) = (if k < n then Some (Wrapped x e) else None)"
| "tx_error (b, p, x, c) n (Some (TxCommit e)) = Some (Wrapped c e)"

definition tx_fault_of :: "Index \<Rightarrow> tx_fault option \<Rightarrow> tx_fault option" where
  "tx_fault_of i fault =
     (if i_dbopen i then fault else Some (TxBegin (NewError ''sql: database is closed'')))"

definition tx_err :: "Index \<Rightarrow> string \<times> string \<times> string \<times> string \<Rightarrow> nat \<Rightarrow> tx_fault option \<Rightarrow> go_error option" where
  "tx_err i texts n fault = tx_error texts n (tx_fault_of i fault)"

definition drop_pending :: "objRef list \<Rightarrow> Index \<Rightarrow> Index" where
  "drop_pending refs i = i\<lparr>i_pending := foldl (\<lambda>m r. mdel r m) (i_pending i) refs\<rparr>"

definition RemoveBatch :: "objRef list \<Rightarrow> tx_fault option \<Rightarrow> Index \<Rightarrow> go_error option \<times> Index" where
  "RemoveBatch refs fault i =
     (if i_closed i then (Some ErrClosed, i)
      else if refs = [] then (None, i)
      else let i1 = drop_pending refs i in
        case tx_err i1 (''storage: begin batch remove'', ''storage: prepare batch remove'',
               ''storage: batch remove'', ''storage: commit batch remove'') (length refs) fault of
          Some e \<Rightarrow> (Some e, i1)
        | None \<Rightarrow> (None, i1\<lparr>i_objects := foldl (\<lambda>m r. mdel r m) (i_objects i1) refs,
                    i_stats := (i_stats i1)\<lparr>st_IdxDeletes := st_IdxDeletes (i_stats i1) + int (length refs)\<rparr>\<rparr>))"

definition Touch :: "namespace \<Rightarrow> key \<Rightarrow> time \<Rightarrow> Index \<Rightarrow> Index" where
  "Touch ns key now i =
     (if i_closed i then i
      else if length (i_pending i) \<ge> i_touchLimit i \<and> mget (i_pending i) (ns, key) = None
      then i\<lparr>i_stats := (i_stats i)\<lparr>st_TouchesDropped := st_TouchesDropped (i_stats i) + 1\<rparr>\<rparr>
      else i\<lparr>i_pending := mput (ns, key) now (i_pending i),
             i_stats := (i_stats i)\<lparr>st_TouchesQueued := st_TouchesQueued (i_stats i) + 1\<rparr>\<rparr>)"

text \<open>One \<^verbatim>\<open>UPDATE ... WHERE ns = ? AND key = ?\<close>: it changes a row that is there and nothing else.\<close>

definition touch_row :: "objRef \<times> time \<Rightarrow> (objRef, idx_row) gomap \<Rightarrow> (objRef, idx_row) gomap" where
  "touch_row rt objs =
     (case mget objs (fst rt) of
        None \<Rightarrow> objs
      | Some x \<Rightarrow> mput (fst rt) (x\<lparr>x_access := snd rt, x_count := x_count x + 1\<rparr>) objs)"

text \<open>The batch is taken before the transaction starts, so a failed flush loses it.\<close>

definition FlushTouches :: "tx_fault option \<Rightarrow> Index \<Rightarrow> go_error option \<times> Index" where
  "FlushTouches fault i =
     (if i_pending i = [] then (None, i)
      else let batch = i_pending i; i1 = i\<lparr>i_pending := []\<rparr> in
        case tx_err i1 (''storage: begin touch flush'', ''storage: prepare touch flush'',
               ''storage: touch flush'', ''storage: commit touch flush'') (length batch) fault of
          Some e \<Rightarrow> (Some e, i1)
        | None \<Rightarrow> (None, i1\<lparr>i_objects := foldl (\<lambda>m rt. touch_row rt m) (i_objects i1) batch,
                    i_stats := (i_stats i1)\<lparr>st_TouchFlushes := st_TouchFlushes (i_stats i1) + 1,
                      st_TouchesWritten := st_TouchesWritten (i_stats i1) + int (length batch)\<rparr>\<rparr>))"

section \<open>Queries\<close>

definition Totals :: "go_error option \<Rightarrow> Index \<Rightarrow> (int \<times> int) result" where
  "Totals fault i =
     (case db_err i fault of
        Some e \<Rightarrow> Inl (Wrapped ''storage: index totals'' e)
      | None \<Rightarrow> Inr (int (length (i_objects i)), sum_list (map (\<lambda>(r, x). x_size x) (i_objects i))))"

definition idx_Get :: "namespace \<Rightarrow> key \<Rightarrow> go_error option \<Rightarrow> Index \<Rightarrow> Entry result" where
  "idx_Get ns key fault i =
     (case db_err i fault of
        Some e \<Rightarrow> Inl (Wrapped ''storage: index get'' e)
      | None \<Rightarrow> (case mget (i_objects i) (ns, key) of
                   None \<Rightarrow> Inl ErrNotFound
                 | Some x \<Rightarrow> Inr (entry_of (ns, key) x)))"

definition entries :: "Index \<Rightarrow> Entry list" where
  "entries i = map (\<lambda>(r, x). entry_of r x) (i_objects i)"

definition ColdestN :: "int \<Rightarrow> go_error option \<Rightarrow> Index \<Rightarrow> Entry list result" where
  "ColdestN n fault i =
     (if n \<le> 0 then Inr []
      else case db_err i fault of
             Some e \<Rightarrow> Inl (Wrapped ''storage: index coldest'' e)
           | None \<Rightarrow> Inr (take (nat n) (sort_by (\<lambda>a b. e_access a < e_access b) (entries i))))"

definition PageAfter ::
  "namespace \<Rightarrow> key \<Rightarrow> int \<Rightarrow> go_error option \<Rightarrow> Index \<Rightarrow> Entry list result" where
  "PageAfter lastNS lastKey limit fault i =
     (if limit \<le> 0 then Inr []
      else case db_err i fault of
             Some e \<Rightarrow> Inl (Wrapped ''storage: index page'' e)
           | None \<Rightarrow> Inr (take (nat limit)
               (sort_by (\<lambda>a b. e_ns a < e_ns b \<or> e_ns a = e_ns b \<and> e_key a < e_key b)
                 (filter (\<lambda>e. e_ns e > lastNS \<or> e_ns e = lastNS \<and> e_key e > lastKey) (entries i)))))"

text \<open>\<^verbatim>\<open>All\<close> folds a callback over every entry; the callback may fail.\<close>

fun all_entries :: "('s \<Rightarrow> Entry \<Rightarrow> 's result) \<Rightarrow> 's \<Rightarrow> Entry list \<Rightarrow> 's result" where
  "all_entries f s [] = Inr s"
| "all_entries f s (e # es) = (case f s e of Inl err \<Rightarrow> Inl err | Inr s' \<Rightarrow> all_entries f s' es)"

definition All :: "('s \<Rightarrow> Entry \<Rightarrow> 's result) \<Rightarrow> 's \<Rightarrow> go_error option \<Rightarrow> Index \<Rightarrow> 's result" where
  "All f s fault i =
     (case db_err i fault of
        Some e \<Rightarrow> Inl (Wrapped ''storage: index scan'' e)
      | None \<Rightarrow> all_entries f s (entries i))"

section \<open>Reconciliation and metadata\<close>

text \<open>The inserts of \<^verbatim>\<open>ReplaceAll\<close> after the table was cleared: a second row with the same primary key
  violates the constraint and fails the transaction.\<close>

definition row_of :: "Entry \<Rightarrow> idx_row" where
  "row_of e = \<lparr>x_size = e_size e, x_created = e_created e, x_access = e_access e,
     x_count = (if e_count e < 1 then 1 else e_count e)\<rparr>"

definition exec_fault :: "tx_fault option \<Rightarrow> nat \<Rightarrow> go_error option" where
  "exec_fault fault n = (case fault of Some (TxExec k e) \<Rightarrow> if k = n then Some e else None | _ \<Rightarrow> None)"

fun insert_rows ::
  "tx_fault option \<Rightarrow> nat \<Rightarrow> Entry list \<Rightarrow> (objRef, idx_row) gomap \<Rightarrow> (objRef, idx_row) gomap result" where
  "insert_rows fault n [] objs = Inr objs"
| "insert_rows fault n (e # es) objs =
     (case exec_fault fault n of
        Some err \<Rightarrow> Inl (Wrapped ''storage: reconcile insert'' err)
      | None \<Rightarrow>
          if mget objs (entry_ref e) \<noteq> None
          then Inl (Wrapped ''storage: reconcile insert'' (IoErr ''UNIQUE constraint failed''))
          else insert_rows fault (Suc n) es (objs @ [(entry_ref e, row_of e)]))"

definition ReplaceAll :: "Entry list \<Rightarrow> tx_fault option \<Rightarrow> Index \<Rightarrow> go_error option \<times> Index" where
  "ReplaceAll es fault0 i =
     (let fault = tx_fault_of i fault0 in
      case fault of
        Some (TxBegin e) \<Rightarrow> (Some (Wrapped ''storage: begin reconcile'' e), i)
      | Some (TxClear e) \<Rightarrow> (Some (Wrapped ''storage: clear index'' e), i)
      | Some (TxPrepare e) \<Rightarrow> (Some (Wrapped ''storage: prepare reconcile insert'' e), i)
      | _ \<Rightarrow>
          (case insert_rows fault 0 es [] of
             Inl e \<Rightarrow> (Some e, i)
           | Inr objs \<Rightarrow>
               (case fault of
                  Some (TxCommit e) \<Rightarrow> (Some (Wrapped ''storage: commit reconcile'' e), i)
                | _ \<Rightarrow> (None, i\<lparr>i_objects := objs\<rparr>))))"

definition SetMeta :: "string \<Rightarrow> string \<Rightarrow> go_error option \<Rightarrow> Index \<Rightarrow> go_error option \<times> Index" where
  "SetMeta k v fault i =
     (case db_err i fault of
        Some e \<Rightarrow> (Some (Wrapped ''storage: set meta'' e), i)
      | None \<Rightarrow> (None, i\<lparr>i_meta := mput k v (i_meta i)\<rparr>))"

definition GetMeta :: "string \<Rightarrow> go_error option \<Rightarrow> Index \<Rightarrow> string result" where
  "GetMeta k fault i =
     (case db_err i fault of
        Some e \<Rightarrow> Inl (Wrapped ''storage: get meta'' e)
      | None \<Rightarrow> (case mget (i_meta i) k of None \<Rightarrow> Inl ErrNotFound | Some v \<Rightarrow> Inr v))"

text \<open>\<^verbatim>\<open>Close\<close> flushes what is queued; a flush that fails is only logged. \<open>cr\<close> and \<open>cw\<close> are the errors
  of closing the two pools.\<close>

definition idx_Close ::
  "tx_fault option \<Rightarrow> go_error option \<Rightarrow> go_error option \<Rightarrow> Index \<Rightarrow> go_error option \<times> Index" where
  "idx_Close fault cr cw i =
     (if i_closed i then (None, i)
      else let i1 = (if i_pending i = [] then i else snd (FlushTouches fault i)) in
        (case cr of Some e \<Rightarrow> Some e | None \<Rightarrow> cw, i1\<lparr>i_closed := True, i_dbopen := False\<rparr>))"

definition indexPath :: "path \<Rightarrow> path" where
  "indexPath root = root @ [''index.db'']"

section \<open>Specification vocabulary\<close>

text \<open>The primary key and the key of the pending map.\<close>

definition index_ok :: "Index \<Rightarrow> bool" where
  "index_ok i \<longleftrightarrow> distinct (mkeys (i_objects i)) \<and> distinct (mkeys (i_pending i))"

text \<open>The size the index records for an object.\<close>

definition idx_size :: "Index \<Rightarrow> objRef \<Rightarrow> int option" where
  "idx_size i ref = map_option x_size (mget (i_objects i) ref)"

definition idx_total :: "Index \<Rightarrow> int" where
  "idx_total i = sum_list (map (\<lambda>(r, x). x_size x) (i_objects i))"

definition idx_alive :: "Index \<Rightarrow> bool" where
  "idx_alive i \<longleftrightarrow> \<not> i_closed i \<and> i_dbopen i"

text \<open>The rows in the order of the primary key.\<close>

definition sorted_entries :: "Index \<Rightarrow> Entry list" where
  "sorted_entries i = sort_key entry_ref (entries i)"

section \<open>The contract of an index with its store\<close>

text \<open>
  The store keeps a disk and an index. This is what it needs of the index: after recording an object the
  index reports its size, after removing it none, and neither touches another object. Then an
  index that agrees with the disk keeps agreeing as objects are published and deleted.
\<close>

locale index_contract =
  fixes sizes :: "'s \<Rightarrow> objRef \<Rightarrow> int option" and alive :: "'s \<Rightarrow> bool"
    and upsert :: "objRef \<Rightarrow> int \<Rightarrow> time \<Rightarrow> 's \<Rightarrow> 's" and remove :: "objRef \<Rightarrow> 's \<Rightarrow> 's"
    and touch :: "objRef \<Rightarrow> time \<Rightarrow> 's \<Rightarrow> 's"
  assumes sizes_upsert: "alive s \<Longrightarrow> sizes (upsert ref n t s) = (sizes s)(ref \<mapsto> n)"
    and sizes_remove: "alive s \<Longrightarrow> sizes (remove ref s) = (sizes s)(ref := None)"
    and sizes_touch: "sizes (touch ref t s) = sizes s"
    and alive_upsert: "alive s \<Longrightarrow> alive (upsert ref n t s)"
    and alive_remove: "alive s \<Longrightarrow> alive (remove ref s)"
    and alive_touch: "alive (touch ref t s) = alive s"
begin

text \<open>The index records exactly the objects of the disk, with their sizes.\<close>

definition synced :: "(objRef \<Rightarrow> int option) \<Rightarrow> 's \<Rightarrow> bool" where
  "synced disk s \<longleftrightarrow> alive s \<and> sizes s = disk"

lemma synced_publish: "synced disk s \<Longrightarrow> synced (disk(ref \<mapsto> n)) (upsert ref n t s)"
  by (simp add: synced_def sizes_upsert alive_upsert)

lemma synced_delete: "synced disk s \<Longrightarrow> synced (disk(ref := None)) (remove ref s)"
  by (simp add: synced_def sizes_remove alive_remove)

lemma synced_touch: "synced disk s \<Longrightarrow> synced disk (touch ref t s)"
  by (simp add: synced_def sizes_touch alive_touch)

text \<open>A batch of deletions, one after the other.\<close>

lemma synced_delete_batch:
  "synced disk s \<Longrightarrow> synced (\<lambda>r. if r \<in> set refs then None else disk r) (foldl (\<lambda>s r. remove r s) s refs)"
proof (induction refs arbitrary: disk s)
  case (Cons a refs)
  have "(\<lambda>r. if r \<in> set refs then None else (disk(a := None)) r) =
      (\<lambda>r. if r \<in> set (a # refs) then None else disk r)"
    by auto
  with Cons.IH [OF synced_delete [OF Cons.prems, of a]] show ?case by simp
qed simp

end

section \<open>Lemmas: writes\<close>

lemma idx_size_Upsert:
  "idx_alive i \<Longrightarrow> idx_size (snd (Upsert ns key sz now None i)) = (idx_size i)((ns, key) \<mapsto> sz)"
  by (auto simp: idx_size_def idx_alive_def Upsert_def db_err_def Let_def fun_eq_iff split: option.splits)

lemma idx_size_Remove:
  "idx_alive i \<Longrightarrow> idx_size (snd (Remove ns key None i)) = (idx_size i)((ns, key) := None)"
  by (auto simp: idx_size_def idx_alive_def Remove_def db_err_def Let_def fun_eq_iff)

lemma Touch_objects [simp]: "i_objects (Touch ns key now i) = i_objects i"
  by (simp add: Touch_def)

lemma idx_size_Touch [simp]: "idx_size (Touch ns key now i) = idx_size i"
  by (simp add: idx_size_def fun_eq_iff)

lemma idx_alive_ops [simp]:
  "idx_alive (snd (Upsert ns key sz now fault i)) = idx_alive i"
  "idx_alive (snd (Remove ns key fault i)) = idx_alive i"
  "idx_alive (snd (RemoveBatch refs tf i)) = idx_alive i"
  "idx_alive (snd (FlushTouches tf i)) = idx_alive i"
  "idx_alive (Touch ns key now i) = idx_alive i"
  by (auto simp: idx_alive_def Upsert_def Remove_def RemoveBatch_def FlushTouches_def Touch_def
      drop_pending_def Let_def split: option.splits)

interpretation idx: index_contract idx_size idx_alive
    "\<lambda>ref sz now i. snd (Upsert (fst ref) (snd ref) sz now None i)"
    "\<lambda>ref i. snd (Remove (fst ref) (snd ref) None i)" "\<lambda>ref now i. Touch (fst ref) (snd ref) now i"
  by unfold_locales (simp_all add: idx_size_Upsert idx_size_Remove)

text \<open>A failed operation leaves the table alone.\<close>

lemma failed_ops_keep_objects:
  "fst (Upsert ns key sz now fault i) \<noteq> None \<Longrightarrow> i_objects (snd (Upsert ns key sz now fault i)) = i_objects i"
  "fst (Remove ns key fault i) \<noteq> None \<Longrightarrow> i_objects (snd (Remove ns key fault i)) = i_objects i"
  "fst (RemoveBatch refs tf i) \<noteq> None \<Longrightarrow> i_objects (snd (RemoveBatch refs tf i)) = i_objects i"
  "fst (FlushTouches tf i) \<noteq> None \<Longrightarrow> i_objects (snd (FlushTouches tf i)) = i_objects i"
  "fst (ReplaceAll es tf i) \<noteq> None \<Longrightarrow> i_objects (snd (ReplaceAll es tf i)) = i_objects i"
  by (auto simp: Upsert_def Remove_def RemoveBatch_def FlushTouches_def ReplaceAll_def drop_pending_def
      Let_def split: option.splits sum.splits tx_fault.splits if_splits)

lemma mget_mdel_fold: "mget (foldl (\<lambda>m r. mdel r m) m refs) k = (if k \<in> set refs then None else mget m k)"
  by (induction refs arbitrary: m) auto

lemma RemoveBatch_objects:
  "fst (RemoveBatch refs tf i) = None \<Longrightarrow>
     mget (i_objects (snd (RemoveBatch refs tf i))) k = (if k \<in> set refs then None else mget (i_objects i) k)"
  by (auto simp: RemoveBatch_def drop_pending_def Let_def mget_mdel_fold split: option.splits if_splits)

lemma RemoveBatch_pending:
  "idx_alive i \<Longrightarrow>
     mget (i_pending (snd (RemoveBatch refs tf i))) k = (if k \<in> set refs then None else mget (i_pending i) k)"
  by (auto simp: RemoveBatch_def drop_pending_def Let_def mget_mdel_fold idx_alive_def split: option.splits)

lemma distinct_mdel_fold: "distinct (mkeys m) \<Longrightarrow> distinct (mkeys (foldl (\<lambda>m r. mdel r m) m refs))"
  by (induction refs arbitrary: m) (auto simp: distinct_mdel)

section \<open>Lemmas: flushing\<close>

lemma touch_row_keys: "mkeys (touch_row rt objs) = mkeys objs"
proof -
  have "mget objs k = Some x \<Longrightarrow> mkeys (mput k y objs) = mkeys objs" for k x y
    by (induction objs) auto
  then show ?thesis by (auto simp: touch_row_def split: option.splits)
qed

lemma touch_row_mget:
  "mget (touch_row rt objs) k =
     (if k = fst rt then map_option (\<lambda>x. x\<lparr>x_access := snd rt, x_count := x_count x + 1\<rparr>) (mget objs k)
      else mget objs k)"
  by (auto simp: touch_row_def split: option.splits)

lemma touch_fold_keys: "mkeys (foldl (\<lambda>m rt. touch_row rt m) objs batch) = mkeys objs"
  by (induction batch arbitrary: objs) (simp_all add: touch_row_keys)

lemma touch_fold_mget:
  "distinct (mkeys batch) \<Longrightarrow>
   mget (foldl (\<lambda>m rt. touch_row rt m) objs batch) k =
     (case mget batch k of
        None \<Rightarrow> mget objs k
      | Some t \<Rightarrow> map_option (\<lambda>x. x\<lparr>x_access := t, x_count := x_count x + 1\<rparr>) (mget objs k))"
proof (induction batch arbitrary: objs)
  case (Cons a batch)
  have "fst a \<notin> set (mkeys batch)" using Cons.prems by simp
  then have "mget batch (fst a) = None" by (rule mget_None_iff [THEN iffD2])
  with Cons show ?case by (cases a) (auto simp: touch_row_mget split: option.splits)
qed simp

lemma touch_fold_size:
  "map_option x_size (mget (foldl (\<lambda>m rt. touch_row rt m) objs batch) k) = map_option x_size (mget objs k)"
  by (induction batch arbitrary: objs) (simp_all add: touch_row_mget option.map_comp comp_def)

lemma FlushTouches_keys: "mkeys (i_objects (snd (FlushTouches tf i))) = mkeys (i_objects i)"
  by (auto simp: FlushTouches_def Let_def touch_fold_keys split: option.splits)

lemma FlushTouches_sizes: "idx_size (snd (FlushTouches tf i)) = idx_size i"
  by (auto simp: FlushTouches_def Let_def idx_size_def touch_fold_size fun_eq_iff split: option.splits)

lemma FlushTouches_pending [simp]: "i_pending (snd (FlushTouches tf i)) = []"
  by (auto simp: FlushTouches_def Let_def split: option.splits)

section \<open>Lemmas: the invariant\<close>

lemma index_ok_ops:
  "index_ok i \<Longrightarrow> index_ok (snd (Upsert ns key sz now fault i))"
  "index_ok i \<Longrightarrow> index_ok (snd (Remove ns key fault i))"
  "index_ok i \<Longrightarrow> index_ok (snd (RemoveBatch refs tf i))"
  "index_ok i \<Longrightarrow> index_ok (Touch ns key now i)"
  by (auto simp: index_ok_def Upsert_def Remove_def RemoveBatch_def Touch_def drop_pending_def Let_def
      distinct_mput distinct_mdel distinct_mdel_fold split: option.splits)

lemma index_ok_Flush: "index_ok i \<Longrightarrow> index_ok (snd (FlushTouches tf i))"
  by (simp add: index_ok_def FlushTouches_keys)

lemma index_ok_Close: "index_ok i \<Longrightarrow> index_ok (snd (idx_Close tf cr cw i))"
  using index_ok_Flush [of i tf] by (auto simp: idx_Close_def Let_def index_ok_def)

lemma insert_rows_Inr:
  "insert_rows fault n es objs = Inr objs' \<Longrightarrow> distinct (mkeys objs) \<Longrightarrow>
     distinct (mkeys objs') \<and> objs' = objs @ map (\<lambda>e. (entry_ref e, row_of e)) es"
proof (induction fault n es objs rule: insert_rows.induct)
  case (2 fault n e es objs)
  then have f: "exec_fault fault n = None" "\<not> mget objs (entry_ref e) \<noteq> None"
    and rec: "insert_rows fault (Suc n) es (objs @ [(entry_ref e, row_of e)]) = Inr objs'"
    by (auto split: option.splits if_splits)
  have "distinct (mkeys (objs @ [(entry_ref e, row_of e)]))"
    using "2.prems" f(2) by (simp add: mget_None_iff)
  from "2.IH" [OF f rec this] show ?case by (elim conjE) (intro conjI, assumption, simp)
qed simp

lemma ReplaceAll_objects:
  assumes "fst (ReplaceAll es tf i) = None"
  shows "i_objects (snd (ReplaceAll es tf i)) = map (\<lambda>e. (entry_ref e, row_of e)) es" "distinct (map entry_ref es)"
proof -
  from assms obtain objs where o: "insert_rows (tx_fault_of i tf) 0 es [] = Inr objs"
      "i_objects (snd (ReplaceAll es tf i)) = objs"
    by (auto simp: ReplaceAll_def Let_def split: option.splits sum.splits tx_fault.splits)
  from insert_rows_Inr [OF o(1)] o(2) show "i_objects (snd (ReplaceAll es tf i)) = map (\<lambda>e. (entry_ref e, row_of e)) es"
    "distinct (map entry_ref es)" by (auto simp: comp_def)
qed

lemma insert_rows_ok:
  "distinct (map entry_ref es) \<Longrightarrow> set (map entry_ref es) \<inter> set (mkeys objs) = {} \<Longrightarrow>
     insert_rows None n es objs = Inr (objs @ map (\<lambda>e. (entry_ref e, row_of e)) es)"
proof (induction es arbitrary: n objs)
  case (Cons e es)
  then have "mget objs (entry_ref e) = None" by (auto simp: mget_None_iff)
  with Cons show ?case by (auto simp: exec_fault_def)
qed simp

lemma ReplaceAll_ok:
  "i_dbopen i \<Longrightarrow> distinct (map entry_ref es) \<Longrightarrow> fst (ReplaceAll es None i) = None"
  by (simp add: ReplaceAll_def tx_fault_of_def insert_rows_ok)

lemma ReplaceAll_index_ok:
  "index_ok i \<Longrightarrow> index_ok (snd (ReplaceAll es tf i))"
proof (cases "fst (ReplaceAll es tf i)")
  case None
  have "i_pending (snd (ReplaceAll es tf i)) = i_pending i"
    by (auto simp: ReplaceAll_def Let_def split: option.splits sum.splits tx_fault.splits)
  with None show "index_ok i \<Longrightarrow> ?thesis"
    using ReplaceAll_objects [OF None] by (simp add: index_ok_def comp_def)
next
  case (Some e)
  then show "index_ok i \<Longrightarrow> ?thesis"
    by (auto simp: ReplaceAll_def Let_def split: option.splits sum.splits tx_fault.splits)
qed

section \<open>Lemmas: queries\<close>

lemma entry_ref_of [simp]: "entry_ref (entry_of r x) = r" "e_size (entry_of r x) = x_size x"
    "e_access (entry_of r x) = x_access x"
  by (simp_all add: entry_ref_def entry_of_def)

lemma entries_refs: "map entry_ref (entries i) = mkeys (i_objects i)"
  by (auto simp: entries_def)

lemma entries_mget:
  "index_ok i \<Longrightarrow> e \<in> set (entries i) \<longleftrightarrow> (\<exists>x. mget (i_objects i) (entry_ref e) = Some x \<and> e = entry_of (entry_ref e) x)"
  by (force simp: entries_def index_ok_def mget_mem_iff)

lemma Totals_ok: "i_dbopen i \<Longrightarrow> Totals None i = Inr (int (length (i_objects i)), idx_total i)"
  by (simp add: Totals_def db_err_def idx_total_def)

lemma ColdestN_ok:
  "i_dbopen i \<Longrightarrow> ColdestN n None i = Inr (take (nat n) (sort_key e_access (entries i)))"
  by (simp add: ColdestN_def db_err_def sort_by_key [of _ e_access])

lemma page_less: "(e_ns a < e_ns b \<or> e_ns a = e_ns b \<and> e_key a < e_key b) = (entry_ref a < entry_ref b)"
  by (auto simp: entry_ref_def less_prod_def)

lemma page_after: "(e_ns e > n \<or> e_ns e = n \<and> e_key e > k) = ((n, k) < entry_ref e)"
  by (auto simp: entry_ref_def less_prod_def)

lemma PageAfter_ok:
  "i_dbopen i \<Longrightarrow>
     PageAfter n k limit None i = Inr (take (nat limit) (filter (\<lambda>e. (n, k) < entry_ref e) (sorted_entries i)))"
  by (simp add: PageAfter_def db_err_def page_less page_after sort_by_key [of _ entry_ref] filter_sort
      sorted_entries_def)

lemma sorted_entries_strict:
  assumes "index_ok i"
  shows "sorted_wrt (<) (map entry_ref (sorted_entries i))"
proof -
  have "mset (map entry_ref (sorted_entries i)) = mset (mkeys (i_objects i))"
    by (simp add: sorted_entries_def entries_refs [symmetric])
  then have "distinct (map entry_ref (sorted_entries i))"
    using assms mset_eq_imp_distinct_iff unfolding index_ok_def by blast
  then show ?thesis by (simp add: strict_sorted_iff sorted_entries_def)
qed

lemma set_sorted_entries [simp]: "set (sorted_entries i) = set (entries i)"
  by (simp add: sorted_entries_def)

text \<open>In a strictly sorted list, what follows the last element of a page is the rest.\<close>

lemma strict_filter_after:
  fixes f :: "'a \<Rightarrow> 'b :: linorder"
  assumes "sorted_wrt (<) (map f (ys @ z # zs))"
  shows "filter (\<lambda>x. f z < f x) (ys @ z # zs) = zs"
proof -
  have "\<forall>x \<in> set ys. \<not> f z < f x" using assms by (fastforce simp: sorted_wrt_append)
  moreover have "\<forall>x \<in> set zs. f z < f x" using assms by (auto simp: sorted_wrt_append)
  ultimately show ?thesis by simp
qed

lemma page_rest:
  fixes f :: "'a \<Rightarrow> 'b :: linorder"
  assumes "sorted_wrt (<) (map f xs)" "page = take n (filter (\<lambda>x. c < f x) xs)" "page \<noteq> []"
  shows "filter (\<lambda>x. f (last page) < f x) xs = drop n (filter (\<lambda>x. c < f x) xs)"
proof -
  let ?after = "filter (\<lambda>x. c < f x) xs"
  obtain ys z where page: "page = ys @ [z]" using assms(3) by (cases page rule: rev_cases) auto
  then have split: "?after = ys @ z # drop n ?after"
    using append_take_drop_id [of n ?after] assms(2) by simp
  have "z \<in> set ?after" by (subst split) simp
  then have cz: "c < f z" by simp
  have "sorted_wrt (<) (map f ?after)"
    using assms(1) by (simp add: sorted_wrt_map sorted_wrt_filter)
  then have "filter (\<lambda>x. f z < f x) ?after = drop n ?after"
    using strict_filter_after [of f ys z "drop n ?after"] split by simp
  moreover have "filter (\<lambda>x. f z < f x) ?after = filter (\<lambda>x. f z < f x) xs"
    unfolding filter_filter using cz by (intro filter_cong refl) auto
  ultimately show ?thesis using page by simp
qed

section \<open>Properties\<close>

text \<open>Recording and removing an object on an open index do exactly what a map does. After
  \<^verbatim>\<open>Upsert\<close> the entry has the new size and access time, keeps the creation time and access count
  of an entry that was there, and starts them otherwise; after \<^verbatim>\<open>Remove\<close> the entry and its queued
  read are gone; every other entry is as before, and the primary keys stay distinct.\<close>

theorem index_map_laws:
  assumes "index_ok i" "idx_alive i"
  shows "(case Upsert ns key sz now None i of (err, i') \<Rightarrow>
        err = None \<and> index_ok i' \<and>
        mget (i_objects i') (ns, key) =
          Some (case mget (i_objects i) (ns, key) of
                  None \<Rightarrow> \<lparr>x_size = sz, x_created = now, x_access = now, x_count = 1\<rparr>
                | Some x \<Rightarrow> \<lparr>x_size = sz, x_created = x_created x, x_access = now, x_count = x_count x\<rparr>) \<and>
        (\<forall>ref. ref \<noteq> (ns, key) \<longrightarrow> mget (i_objects i') ref = mget (i_objects i) ref)) \<and>
     (case Remove ns key None i of (err, i') \<Rightarrow>
        err = None \<and> index_ok i' \<and>
        mget (i_objects i') = (mget (i_objects i))((ns, key) := None) \<and>
        mget (i_pending i') = (mget (i_pending i))((ns, key) := None))"
proof (intro conjI)
  have "index_ok (snd (Upsert ns key sz now None i))" using assms by (intro index_ok_ops)
  then show "case Upsert ns key sz now None i of (err, i') \<Rightarrow>
        err = None \<and> index_ok i' \<and>
        mget (i_objects i') (ns, key) =
          Some (case mget (i_objects i) (ns, key) of
                  None \<Rightarrow> \<lparr>x_size = sz, x_created = now, x_access = now, x_count = 1\<rparr>
                | Some x \<Rightarrow> \<lparr>x_size = sz, x_created = x_created x, x_access = now, x_count = x_count x\<rparr>) \<and>
        (\<forall>ref. ref \<noteq> (ns, key) \<longrightarrow> mget (i_objects i') ref = mget (i_objects i) ref)"
    using assms(2) by (auto simp: Upsert_def idx_alive_def db_err_def Let_def split: option.splits)
next
  have "index_ok (snd (Remove ns key None i))" using assms by (intro index_ok_ops)
  then show "case Remove ns key None i of (err, i') \<Rightarrow>
        err = None \<and> index_ok i' \<and>
        mget (i_objects i') = (mget (i_objects i))((ns, key) := None) \<and>
        mget (i_pending i') = (mget (i_pending i))((ns, key) := None)"
    using assms(2) by (auto simp: Remove_def idx_alive_def db_err_def Let_def fun_eq_iff)
qed

text \<open>A flush of queued reads can never resurrect a row: whatever the database does, the set of
  rows and their sizes are those from before, and the queue is empty afterwards. When it
  succeeds, every queued read of a row that is there has set its access time and added one to
  its count.\<close>

theorem flush_never_resurrects:
  assumes "index_ok i"
  shows "mkeys (i_objects (snd (FlushTouches fault i))) = mkeys (i_objects i) \<and>
     idx_size (snd (FlushTouches fault i)) = idx_size i \<and>
     i_pending (snd (FlushTouches fault i)) = [] \<and>
     (fst (FlushTouches fault i) = None \<longrightarrow>
        mget (i_objects (snd (FlushTouches fault i))) ref =
          (case mget (i_pending i) ref of
             None \<Rightarrow> mget (i_objects i) ref
           | Some t \<Rightarrow> map_option (\<lambda>x. x\<lparr>x_access := t, x_count := x_count x + 1\<rparr>) (mget (i_objects i) ref)))"
proof -
  have "mget (i_objects (snd (FlushTouches fault i))) ref =
          (case mget (i_pending i) ref of
             None \<Rightarrow> mget (i_objects i) ref
           | Some t \<Rightarrow> map_option (\<lambda>x. x\<lparr>x_access := t, x_count := x_count x + 1\<rparr>) (mget (i_objects i) ref))"
    if "fst (FlushTouches fault i) = None"
    using that assms
    by (auto simp: FlushTouches_def Let_def index_ok_def touch_fold_mget split: option.splits if_splits)
  then show ?thesis by (simp add: FlushTouches_keys FlushTouches_sizes)
qed

text \<open>A page holds the first entries after the cursor in the order of namespace and key, and
  continuing from its last entry yields exactly the entries it left out: scanning page by page
  meets every row once, in order.\<close>

theorem PageAfter_partition:
  assumes "index_ok i" "i_dbopen i" "0 < limit" "PageAfter ns key limit None i = Inr page"
  shows "page = take (nat limit) (filter (\<lambda>e. (ns, key) < entry_ref e) (sorted_entries i)) \<and>
     sorted_wrt (<) (map entry_ref page) \<and>
     (page = [] \<longleftrightarrow> (\<forall>e \<in> set (entries i). \<not> (ns, key) < entry_ref e)) \<and>
     (page \<noteq> [] \<longrightarrow>
        filter (\<lambda>e. (ns, key) < entry_ref e) (sorted_entries i) =
          page @ filter (\<lambda>e. entry_ref (last page) < entry_ref e) (sorted_entries i))"
proof -
  let ?after = "filter (\<lambda>e. (ns, key) < entry_ref e) (sorted_entries i)"
  have page: "page = take (nat limit) ?after" using assms by (simp add: PageAfter_ok)
  have strict: "sorted_wrt (<) (map entry_ref (sorted_entries i))"
    using assms(1) by (rule sorted_entries_strict)
  then have "sorted_wrt (<) (map entry_ref page)"
    unfolding page by (simp add: sorted_wrt_map sorted_wrt_filter sorted_wrt_take)
  moreover have "page = [] \<longleftrightarrow> (\<forall>e \<in> set (entries i). \<not> (ns, key) < entry_ref e)"
    using assms(3) by (simp add: page filter_empty_conv)
  moreover have "?after = page @ filter (\<lambda>e. entry_ref (last page) < entry_ref e) (sorted_entries i)"
    if "page \<noteq> []"
    using page_rest [OF strict page that] page by (metis append_take_drop_id)
  ultimately show ?thesis using page by blast
qed

text \<open>The eviction candidates are the coldest entries: the batch has the requested number of
  entries or all of them, and no entry outside it was read earlier than one inside.\<close>

theorem ColdestN_coldest:
  assumes "index_ok i" "i_dbopen i" "ColdestN n None i = Inr batch"
  shows "length batch = min (nat n) (length (i_objects i)) \<and> set batch \<subseteq> set (entries i) \<and>
     distinct (map entry_ref batch) \<and> sorted (map e_access batch) \<and>
     (\<forall>e \<in> set (entries i). \<forall>b \<in> set batch. e \<notin> set batch \<longrightarrow> e_access b \<le> e_access e)"
proof -
  let ?s = "sort_key e_access (entries i)"
  have b: "batch = take (nat n) ?s" using assms by (simp add: ColdestN_ok)
  have "sorted (map e_access (take (nat n) ?s) @ map e_access (drop (nat n) ?s))"
    by (simp flip: map_append)
  then have cut: "\<forall>x \<in> set (take (nat n) ?s). \<forall>y \<in> set (drop (nat n) ?s). e_access x \<le> e_access y"
    and sorted: "sorted (map e_access batch)"
    by (simp_all add: sorted_append b)
  have "e \<in> set (drop (nat n) ?s)" if "e \<in> set (entries i)" "e \<notin> set batch" for e
  proof -
    have "e \<in> set (take (nat n) ?s @ drop (nat n) ?s)" using that(1) by simp
    with that(2) b show ?thesis by (simp only: set_append Un_iff) simp
  qed
  then have rest: "\<forall>e \<in> set (entries i). \<forall>b \<in> set batch. e \<notin> set batch \<longrightarrow> e_access b \<le> e_access e"
    using cut b by blast
  have "mset (map entry_ref ?s) = mset (mkeys (i_objects i))" by (simp add: entries_refs [symmetric])
  then have "distinct (map entry_ref ?s)"
    using assms(1) mset_eq_imp_distinct_iff unfolding index_ok_def by blast
  then have "distinct (map entry_ref batch)" by (simp add: b take_map [symmetric])
  moreover have "length batch = min (nat n) (length (i_objects i))" by (simp add: b entries_def)
  moreover have "set batch \<subseteq> set (entries i)" by (auto simp: b dest: in_set_takeD)
  ultimately show ?thesis using sorted rest by blast
qed

section \<open>Witnesses\<close>

definition ex_index :: Index where
  "ex_index = \<lparr>i_objects =
       [((''cas'', ''b''), \<lparr>x_size = 10, x_created = 1, x_access = 5, x_count = 1\<rparr>),
        ((''ac'', ''a''), \<lparr>x_size = 20, x_created = 2, x_access = 3, x_count = 4\<rparr>)],
     i_meta = [], i_pending = [((''cas'', ''b''), 9), ((''cas'', ''gone''), 8)],
     i_touchLimit = 4096, i_closed = False, i_dbopen = True, i_stats = zero_index_stats\<rparr>"

lemma ex_index_ok: "index_ok ex_index" "idx_alive ex_index" "i_dbopen ex_index"
  by (simp_all add: ex_index_def index_ok_def idx_alive_def)

theorem flush_never_resurrects_witness:
  "idx_size (snd (FlushTouches None ex_index)) (''cas'', ''gone'') = None \<and>
   mget (i_objects (snd (FlushTouches None ex_index))) (''cas'', ''b'') =
     Some \<lparr>x_size = 10, x_created = 1, x_access = 9, x_count = 2\<rparr>"
proof -
  have "fst (FlushTouches None ex_index) = None"
    by (simp add: FlushTouches_def ex_index_def tx_err_def tx_fault_of_def)
  with flush_never_resurrects [OF ex_index_ok(1), of None "(''cas'', ''b'')"] show ?thesis
    by (auto simp: idx_size_def ex_index_def)
qed

theorem ColdestN_coldest_witness:
  "\<exists>batch. ColdestN 1 None ex_index = Inr batch \<and> length batch = 1"
proof -
  obtain batch where b: "ColdestN 1 None ex_index = Inr batch"
    using ColdestN_ok [OF ex_index_ok(3)] by blast
  with ColdestN_coldest [OF ex_index_ok(1,3) b] show ?thesis by (simp add: ex_index_def)
qed

end
