(* ===== verification/ObjectStore.thy ===== *)
theory ObjectStore
  imports MetaIndex
begin

text \<open>
  \<^verbatim>\<open>internal/storage/store.go\<close> and \<^verbatim>\<open>fsutil.go\<close>: the on-disk object store of one node.

  The file system is an association list from paths to files. What the operating system, the
  client's connection and the database do during a call is a record argument of the call
  (\<open>put_env\<close>, \<open>reconcile_env\<close>, \<open>open_env\<close>), so every error branch of the code is a branch of the
  model. The parameter \<open>sha\<close> is SHA-256. An open file keeps the content it had when it was
  opened, as an inode does under rename and unlink.
\<close>

section \<open>State\<close>

datatype file_kind = Regular | Directory | Other

record fnode =
  f_data :: bytes
  f_mtime :: time
  f_kind :: file_kind

type_synonym fsys = "(path, fnode) gomap"

record Stats =
  st_PutsOK :: int
  st_PutsRejected :: int
  st_PutsAlreadyStored :: int
  st_Gets :: int
  st_GetMisses :: int
  st_Deletes :: int
  st_BytesIn :: int
  st_BytesOut :: int
  st_ObjectsStored :: int
  st_BytesStored :: int
  st_VerifyFailures :: int

definition zero_stats :: Stats where
  "zero_stats = \<lparr>st_PutsOK = 0, st_PutsRejected = 0, st_PutsAlreadyStored = 0, st_Gets = 0,
     st_GetMisses = 0, st_Deletes = 0, st_BytesIn = 0, st_BytesOut = 0, st_ObjectsStored = 0,
     st_BytesStored = 0, st_VerifyFailures = 0\<rparr>"

text \<open>\<open>s_evictor\<close> says that an evictor is attached and \<open>s_wake\<close> that a wake-up is queued for it.\<close>

record Store =
  s_root :: path
  s_maxObject :: int
  s_verifyReads :: bool
  s_dirs :: "path list"
  s_index :: "Index option"
  s_evictor :: bool
  s_wake :: bool
  s_closed :: bool
  s_dirSyncUnsupported :: bool
  s_fs :: fsys
  s_stats :: Stats

definition bump :: "(Stats \<Rightarrow> Stats) \<Rightarrow> Store \<Rightarrow> Store" where
  "bump f s = s\<lparr>s_stats := f (s_stats s)\<rparr>"

definition on_index :: "(Index \<Rightarrow> Index) \<Rightarrow> Store \<Rightarrow> Store" where
  "on_index f s = s\<lparr>s_index := map_option f (s_index s)\<rparr>"

definition tmpDir :: "Store \<Rightarrow> path" where
  "tmpDir s = s_root s @ [''tmp'']"

definition AttachEvictor :: "Store \<Rightarrow> Store" where
  "AttachEvictor s = s\<lparr>s_evictor := True\<rparr>"

definition DirSyncSupported :: "Store \<Rightarrow> bool" where
  "DirSyncSupported s = (\<not> s_dirSyncUnsupported s)"

section \<open>Put\<close>

text \<open>
  The environment of a \<^verbatim>\<open>Put\<close>: the error of creating the shard directory, an I/O error of the first
  \<^verbatim>\<open>os.Stat\<close>, the random suffix or the error of \<^verbatim>\<open>os.CreateTemp\<close>, the bytes the body delivers and the
  error it ends with (\<open>None\<close> is EOF), the offset and error of a failed write, the state of the
  context, the errors of sync, close, rename and directory sync, the error of removing an
  abandoned temporary file, the error of the index write, and the time.
\<close>

record put_env =
  pe_mkdir :: "go_error option"
  pe_stat :: "go_error option"
  pe_tmp :: "string result"
  pe_body :: bytes
  pe_body_err :: "go_error option"
  pe_write :: "(nat \<times> go_error) option"
  pe_ctx :: "go_error option"
  pe_sync :: "go_error option"
  pe_close :: "go_error option"
  pe_rename :: "go_error option"
  pe_dirsync :: "go_error option"
  pe_unlink :: "go_error option"
  pe_upsert :: "go_error option"
  pe_now :: time

record PutResult =
  pr_Key :: key
  pr_Namespace :: namespace
  pr_Size :: int
  pr_Digest :: string
  pr_AlreadyStored :: bool
  pr_Durable :: bool

text \<open>\<^verbatim>\<open>dirCache.ensure\<close>: a directory that was created before is not created again.\<close>

definition ensure :: "path \<Rightarrow> go_error option \<Rightarrow> Store \<Rightarrow> go_error option \<times> Store" where
  "ensure dir mkdir s =
     (if dir \<in> set (s_dirs s) then (None, s)
      else case mkdir of
             Some e \<Rightarrow> (Some (Wrapped ''create shard dir'' e), s)
           | None \<Rightarrow> (None, s\<lparr>s_dirs := dir # s_dirs s\<rparr>))"

text \<open>
  \<^verbatim>\<open>syncDir\<close> from the results of opening and of syncing the directory: the \<^verbatim>\<open>errno\<close> values of
  \<^verbatim>\<open>isNotSupported\<close> give \<open>ErrDirSyncUnsupported\<close>, every other failure an error of its own. Its result
  is the component \<open>pe_dirsync\<close> of the environment.
\<close>

datatype sys_error = EINVAL | ENOTSUP | EOPNOTSUPP | EPERM | FsErrInvalid | OtherErrno string

fun isNotSupported :: "sys_error \<Rightarrow> bool" where
  "isNotSupported (OtherErrno t) = False"
| "isNotSupported e = True"

fun sys_text :: "sys_error \<Rightarrow> string" where
  "sys_text EPERM = ''operation not permitted''"
| "sys_text ENOTSUP = ''operation not supported''"
| "sys_text EOPNOTSUPP = ''operation not supported''"
| "sys_text (OtherErrno t) = t"
| "sys_text e = ''invalid argument''"

definition syncDir :: "go_error option \<Rightarrow> sys_error option \<Rightarrow> go_error option" where
  "syncDir openerr syncerr =
     (case openerr of
        Some e \<Rightarrow> Some (Wrapped ''open dir for sync'' e)
      | None \<Rightarrow> (case syncerr of
                   None \<Rightarrow> None
                 | Some e \<Rightarrow> if isNotSupported e then Some ErrDirSyncUnsupported
                             else Some (Wrapped ''fsync dir'' (IoErr (sys_text e)))))"

definition noteDirSyncUnsupported :: "Store \<Rightarrow> Store" where
  "noteDirSyncUnsupported s = s\<lparr>s_dirSyncUnsupported := True\<rparr>"

definition regular_at :: "fsys \<Rightarrow> path \<Rightarrow> fnode option" where
  "regular_at fs p = (case mget fs p of Some f \<Rightarrow> if f_kind f = Regular then Some f else None | None \<Rightarrow> None)"

text \<open>\<^verbatim>\<open>os.CreateTemp\<close> fails when every name it tries exists.\<close>

definition create_temp :: "Store \<Rightarrow> put_env \<Rightarrow> path result" where
  "create_temp s env =
     (case pe_tmp env of
        Inl e \<Rightarrow> Inl (Wrapped ''create temp file'' e)
      | Inr suffix \<Rightarrow>
          let p = tmpDir s @ [tmpPrefix @ suffix] in
          if mget (s_fs s) p \<noteq> None then Inl (Wrapped ''create temp file'' (IoErr ''file exists''))
          else Inr p)"

text \<open>
  The copy loop: the bytes that reach the temporary file (and the hasher) and the copy error. With
  a limit the reader stops one byte past it and the body's own error is not reached; a failed
  write stops the copy where it happens.
\<close>

definition stream :: "int \<Rightarrow> put_env \<Rightarrow> bytes \<times> go_error option" where
  "stream maxObject env =
     (let avail = (if maxObject > 0 then take (nat maxObject + 1) (pe_body env) else pe_body env);
          rerr = (if maxObject > 0 \<and> int (length (pe_body env)) > maxObject then None else pe_body_err env)
      in case pe_write env of
           Some (n, e) \<Rightarrow> if n < length avail then (take n avail, Some e) else (avail, rerr)
         | None \<Rightarrow> (avail, rerr))"

text \<open>The checks between the end of the copy and the rename, in their order.\<close>

definition put_verdict ::
  "(bytes \<Rightarrow> bytes) \<Rightarrow> int \<Rightarrow> namespace \<Rightarrow> key \<Rightarrow> int \<Rightarrow> put_env \<Rightarrow> bytes \<times> go_error option \<Rightarrow> go_error option" where
  "put_verdict sha maxObject ns key declared env = (\<lambda>(data, copyErr).
     let written = int (length data); digest = hex_encode (sha data) in
     case copyErr of
       Some e \<Rightarrow> Some (Wrapped ''stream body'' e)
     | None \<Rightarrow>
    (case pe_ctx env of
       Some e \<Rightarrow> Some e
     | None \<Rightarrow>
       if maxObject > 0 \<and> written > maxObject then Some (TooLargeError written maxObject)
       else if declared \<ge> 0 \<and> written \<noteq> declared then Some (ErrShortWrite declared written)
       else if ContentAddressed ns \<and> digest \<noteq> key then Some (DigestMismatchError key digest written)
       else case pe_sync env of
              Some e \<Rightarrow> Some (Wrapped ''fsync object'' e)
            | None \<Rightarrow>
           (case pe_close env of
              Some e \<Rightarrow> Some (Wrapped ''close object'' e)
            | None \<Rightarrow>
           (case pe_rename env of
              Some e \<Rightarrow> Some (Wrapped ''publish object'' e)
            | None \<Rightarrow> None))))"

definition temp_node :: "put_env \<Rightarrow> bytes \<Rightarrow> fnode" where
  "temp_node env data = \<lparr>f_data = data, f_mtime = pe_now env, f_kind = Regular\<rparr>"

text \<open>The deferred clean-up of an upload that was not published.\<close>

definition abandon :: "path \<Rightarrow> put_env \<Rightarrow> Store \<Rightarrow> Store" where
  "abandon tmp env s =
     (case pe_unlink env of Some e \<Rightarrow> s | None \<Rightarrow> s\<lparr>s_fs := mdel tmp (s_fs s)\<rparr>)"

definition rename_file :: "path \<Rightarrow> path \<Rightarrow> fnode \<Rightarrow> fsys \<Rightarrow> fsys" where
  "rename_file src dst node fs = mput dst node (mdel src fs)"

text \<open>Everything after the rename: the directory sync, the counters, the index and the wake-up.\<close>

definition finish_put :: "namespace \<Rightarrow> key \<Rightarrow> bytes \<Rightarrow> put_env \<Rightarrow> Store \<Rightarrow> bool \<times> Store" where
  "finish_put ns key data env s =
     (let written = int (length data);
          durable = (pe_dirsync env = None);
          s1 = (if pe_dirsync env = Some ErrDirSyncUnsupported then noteDirSyncUnsupported s else s);
          s2 = bump (\<lambda>st. st\<lparr>st_PutsOK := st_PutsOK st + 1, st_BytesIn := st_BytesIn st + written,
                 st_ObjectsStored := st_ObjectsStored st + 1, st_BytesStored := st_BytesStored st + written\<rparr>) s1;
          s3 = on_index (\<lambda>i. snd (Upsert ns key written (pe_now env) (pe_upsert env) i)) s2;
          s4 = (if s_index s3 \<noteq> None \<and> s_evictor s3 then s3\<lparr>s_wake := True\<rparr> else s3)
      in (durable, s4))"

definition touch_store :: "namespace \<Rightarrow> key \<Rightarrow> time \<Rightarrow> Store \<Rightarrow> Store" where
  "touch_store ns key now s = on_index (Touch ns key now) s"

definition Put ::
  "(bytes \<Rightarrow> bytes) \<Rightarrow> namespace \<Rightarrow> key \<Rightarrow> int \<Rightarrow> put_env \<Rightarrow> Store \<Rightarrow> PutResult result \<times> Store" where
  "Put sha ns key declared env s =
     (if s_closed s then (Inl ErrClosed, s)
      else if \<not> ns_Valid ns then (Inl (ErrBadNamespace ns), s)
      else case ValidateKey key of
        Some e \<Rightarrow> (Inl e, s)
      | None \<Rightarrow>
        if s_maxObject s > 0 \<and> declared > s_maxObject s
        then (Inl (TooLargeError declared (s_maxObject s)), s)
        else case ObjectPath (s_root s) ns key of (dir, finalPath) \<Rightarrow>
       (case ensure dir (pe_mkdir env) s of
          (Some e, s1) \<Rightarrow> (Inl e, s1)
        | (None, s1) \<Rightarrow>
         (case (if ContentAddressed ns \<and> pe_stat env = None then regular_at (s_fs s1) finalPath else None) of
            Some f \<Rightarrow>
              (Inr \<lparr>pr_Key = key, pr_Namespace = ns, pr_Size = int (length (f_data f)), pr_Digest = key,
                    pr_AlreadyStored = True, pr_Durable = True\<rparr>,
               touch_store ns key (pe_now env)
                 (bump (\<lambda>st. st\<lparr>st_PutsAlreadyStored := st_PutsAlreadyStored st + 1,
                          st_BytesIn := st_BytesIn st + int (length (pe_body env))\<rparr>) s1))
          | None \<Rightarrow>
         (case create_temp s1 env of
            Inl e \<Rightarrow> (Inl e, s1)
          | Inr tmp \<Rightarrow>
              let copied = stream (s_maxObject s1) env;
                  data = fst copied;
                  s2 = s1\<lparr>s_fs := mput tmp (temp_node env data) (s_fs s1)\<rparr>
              in case put_verdict sha (s_maxObject s1) ns key declared env copied of
                   Some e \<Rightarrow>
                     (Inl e, abandon tmp env (bump (\<lambda>st. st\<lparr>st_PutsRejected := st_PutsRejected st + 1\<rparr>) s2))
                 | None \<Rightarrow>
                     (case finish_put ns key data env
                             (s2\<lparr>s_fs := rename_file tmp finalPath (temp_node env data) (s_fs s2)\<rparr>) of
                        (durable, s4) \<Rightarrow>
                          (Inr \<lparr>pr_Key = key, pr_Namespace = ns, pr_Size = int (length data),
                                pr_Digest = hex_encode (sha data), pr_AlreadyStored = False,
                                pr_Durable = durable\<rparr>, s4))))))"

text \<open>
  The file systems a concurrent reader can see while an upload that reached the copy runs: before
  it, with every prefix of the copied bytes in the temporary file, and at the end.
\<close>

definition put_trace :: "(bytes \<Rightarrow> bytes) \<Rightarrow> namespace \<Rightarrow> key \<Rightarrow> int \<Rightarrow> put_env \<Rightarrow> Store \<Rightarrow> fsys list" where
  "put_trace sha ns key declared env s =
     (let mid = (case create_temp s env of
                   Inl e \<Rightarrow> []
                 | Inr tmp \<Rightarrow>
                     map (\<lambda>n. mput tmp (temp_node env (take n (fst (stream (s_maxObject s) env)))) (s_fs s))
                       [0..<Suc (length (fst (stream (s_maxObject s) env)))])
      in s_fs s # mid @ [s_fs (snd (Put sha ns key declared env s))])"

section \<open>Stat, Get and verified reading\<close>

record Stat =
  t_Key :: key
  t_Namespace :: namespace
  t_Size :: int
  t_ModTime :: time

definition stat_of :: "namespace \<Rightarrow> key \<Rightarrow> fnode \<Rightarrow> Stat" where
  "stat_of ns key f = \<lparr>t_Key = key, t_Namespace = ns, t_Size = int (length (f_data f)), t_ModTime = f_mtime f\<rparr>"

text \<open>\<open>oserr\<close> is an error of \<^verbatim>\<open>os.Stat\<close> other than a missing file.\<close>

definition store_Stat ::
  "namespace \<Rightarrow> key \<Rightarrow> go_error option \<Rightarrow> time \<Rightarrow> Store \<Rightarrow> Stat result \<times> Store" where
  "store_Stat ns key oserr now s =
     (if \<not> ns_Valid ns then (Inl (ErrBadNamespace ns), s)
      else case ValidateKey key of
        Some e \<Rightarrow> (Inl e, s)
      | None \<Rightarrow>
       (case oserr of
          Some e \<Rightarrow> (Inl (Wrapped ''stat object'' e), s)
        | None \<Rightarrow>
         (case mget (s_fs s) (object_path (s_root s) ns key) of
            None \<Rightarrow> (Inl ErrNotFound, s)
          | Some f \<Rightarrow>
              if f_kind f \<noteq> Regular then (Inl ErrNotFound, s)
              else (Inr (stat_of ns key f), touch_store ns key now s))))"

record Object =
  o_stat :: Stat
  o_data :: bytes
  o_verify :: bool
  o_hashed :: bytes
  o_bytesServed :: int

text \<open>\<open>openerr\<close> and \<open>staterr\<close> are I/O errors of \<^verbatim>\<open>os.Open\<close> and of \<^verbatim>\<open>f.Stat\<close>.\<close>

definition store_Get ::
  "namespace \<Rightarrow> key \<Rightarrow> go_error option \<Rightarrow> go_error option \<Rightarrow> time \<Rightarrow> Store \<Rightarrow> Object result \<times> Store" where
  "store_Get ns key openerr staterr now s =
     (let miss = bump (\<lambda>st. st\<lparr>st_Gets := st_Gets st + 1, st_GetMisses := st_GetMisses st + 1\<rparr>) s;
          got = bump (\<lambda>st. st\<lparr>st_Gets := st_Gets st + 1\<rparr>) s
      in if s_closed s then (Inl ErrClosed, s)
      else if \<not> ns_Valid ns then (Inl (ErrBadNamespace ns), s)
      else case ValidateKey key of
        Some e \<Rightarrow> (Inl e, s)
      | None \<Rightarrow>
       (case openerr of
          Some e \<Rightarrow> (Inl (Wrapped ''open object'' e), miss)
        | None \<Rightarrow>
         (case mget (s_fs s) (object_path (s_root s) ns key) of
            None \<Rightarrow> (Inl ErrNotFound, miss)
          | Some f \<Rightarrow>
             (case staterr of
                Some e \<Rightarrow> (Inl (Wrapped ''stat open object'' e), got)
              | None \<Rightarrow>
                  if f_kind f \<noteq> Regular then (Inl ErrNotFound, miss)
                  else (Inr \<lparr>o_stat = stat_of ns key f, o_data = f_data f,
                             o_verify = (s_verifyReads s \<and> ContentAddressed ns),
                             o_hashed = [], o_bytesServed = 0\<rparr>,
                        touch_store ns key now got)))))"

text \<open>The copy buffer of \<^verbatim>\<open>fsutil.go\<close>, and a file read through it: every read but the last fills it.\<close>

definition bufSize :: nat where
  "bufSize = 256 * 1024"

fun chunk_list :: "nat \<Rightarrow> bytes \<Rightarrow> bytes list" where
  "chunk_list n [] = []"
| "chunk_list n (b # bs) = (b # take n bs) # chunk_list n (drop n bs)"

text \<open>
  The loop of \<^verbatim>\<open>copyVerified\<close> over the chunks that are read before the read error \<open>rerr\<close> (\<open>None\<close> is
  EOF). A chunk goes to the hasher and then to the destination, which fails with its error once
  it has taken \<open>n\<close> more bytes. The result is what was written, what was hashed, and the error.
\<close>

fun copyVerified ::
  "bytes list \<Rightarrow> go_error option \<Rightarrow> (nat \<times> go_error) option \<Rightarrow> bytes \<times> bytes \<times> go_error option" where
  "copyVerified [] rerr wfail = ([], [], rerr)"
| "copyVerified (c # cs) rerr None =
     (case copyVerified cs rerr None of (w, h, e) \<Rightarrow> (c @ w, c @ h, e))"
| "copyVerified (c # cs) rerr (Some (n, err)) =
     (if n < length c then (take n c, c, Some err)
      else case copyVerified cs rerr (Some (n - length c, err)) of (w, h, e) \<Rightarrow> (c @ w, c @ h, e))"

text \<open>
  \<^verbatim>\<open>WriteTo\<close>. \<open>rfail\<close> is the offset and error of a failed read, \<open>wfail\<close> those of a failed write. Without
  verification \<^verbatim>\<open>io.Copy\<close> moves the same bytes and the hasher sees nothing.
\<close>

definition readable :: "(nat \<times> go_error) option \<Rightarrow> bytes \<Rightarrow> bytes \<times> go_error option" where
  "readable rfail data =
     (case rfail of
        Some (n, e) \<Rightarrow> if n < length data then (take n data, Some e) else (data, None)
      | None \<Rightarrow> (data, None))"

definition WriteTo ::
  "(nat \<times> go_error) option \<Rightarrow> (nat \<times> go_error) option \<Rightarrow> Object \<Rightarrow> bytes \<times> go_error option \<times> Object" where
  "WriteTo rfail wfail ob =
     (case readable rfail (o_data ob) of (bytes, rerr) \<Rightarrow>
      case copyVerified (chunk_list (bufSize - 1) bytes) rerr wfail of (w, h, e) \<Rightarrow>
        (w, e, ob\<lparr>o_hashed := (if o_verify ob then h else []), o_bytesServed := int (length w)\<rparr>))"

definition Verify :: "(bytes \<Rightarrow> bytes) \<Rightarrow> Object \<Rightarrow> Store \<Rightarrow> go_error option \<times> Store" where
  "Verify sha ob s =
     (if \<not> o_verify ob then (None, s)
      else let got = hex_encode (sha (o_hashed ob)) in
        if got \<noteq> t_Key (o_stat ob)
        then (Some (DigestMismatchError (t_Key (o_stat ob)) got (o_bytesServed ob)),
              bump (\<lambda>st. st\<lparr>st_VerifyFailures := st_VerifyFailures st + 1\<rparr>) s)
        else (None, s))"

definition obj_Close :: "Object \<Rightarrow> Store \<Rightarrow> Store" where
  "obj_Close ob s = bump (\<lambda>st. st\<lparr>st_BytesOut := st_BytesOut st + o_bytesServed ob\<rparr>) s"

section \<open>Deletion\<close>

text \<open>\<open>staterr\<close> and \<open>rmerr\<close> are errors of \<^verbatim>\<open>os.Stat\<close> and \<^verbatim>\<open>os.Remove\<close> on a file that is there, \<open>idxerr\<close>
  one of the index. A file that is not there is not an error.\<close>

definition unlink_counts :: "go_error option \<Rightarrow> fnode \<Rightarrow> Stats \<Rightarrow> Stats" where
  "unlink_counts staterr f st =
     (let st1 = (if staterr = None
                 then st\<lparr>st_ObjectsStored := st_ObjectsStored st - 1,
                         st_BytesStored := st_BytesStored st - int (length (f_data f))\<rparr> else st)
      in st1\<lparr>st_Deletes := st_Deletes st1 + 1\<rparr>)"

definition Delete ::
  "namespace \<Rightarrow> key \<Rightarrow> go_error option \<Rightarrow> go_error option \<Rightarrow> go_error option \<Rightarrow> Store \<Rightarrow> go_error option \<times> Store" where
  "Delete ns key staterr rmerr idxerr s =
     (if \<not> ns_Valid ns then (Some (ErrBadNamespace ns), s)
      else case ValidateKey key of
        Some e \<Rightarrow> (Some e, s)
      | None \<Rightarrow>
        let p = object_path (s_root s) ns key in
        (case mget (s_fs s) p of
           None \<Rightarrow> (None, s)
         | Some f \<Rightarrow>
            (case rmerr of
               Some e \<Rightarrow> (Some (Wrapped ''delete object'' e), s)
             | None \<Rightarrow>
                 (None, on_index (\<lambda>i. snd (Remove ns key idxerr i))
                          (bump (unlink_counts staterr f) (s\<lparr>s_fs := mdel p (s_fs s)\<rparr>))))))"

definition DeleteFile ::
  "namespace \<Rightarrow> key \<Rightarrow> go_error option \<Rightarrow> go_error option \<Rightarrow> Store \<Rightarrow> int result \<times> Store" where
  "DeleteFile ns key staterr rmerr s =
     (if \<not> ns_Valid ns then (Inl (ErrBadNamespace ns), s)
      else case ValidateKey key of
        Some e \<Rightarrow> (Inl e, s)
      | None \<Rightarrow>
        let p = object_path (s_root s) ns key in
        (case mget (s_fs s) p of
           None \<Rightarrow> (Inr 0, s)
         | Some f \<Rightarrow>
            (case rmerr of
               Some e \<Rightarrow> (Inl (Wrapped ''delete object'' e), s)
             | None \<Rightarrow>
                 (Inr (if staterr = None then int (length (f_data f)) else 0),
                  bump (unlink_counts staterr f) (s\<lparr>s_fs := mdel p (s_fs s)\<rparr>)))))"

section \<open>Walking the tree\<close>

definition below :: "path \<Rightarrow> path \<Rightarrow> bool" where
  "below dir p = (take (length dir) p = dir \<and> length dir < length p)"

text \<open>The files \<^verbatim>\<open>filepath.WalkDir\<close> visits in a namespace whose name is a key, in its lexical order.
  They are found at any depth.\<close>

definition walk_files :: "Store \<Rightarrow> namespace \<Rightarrow> (path \<times> fnode) list" where
  "walk_files s ns =
     sort_key fst (filter (\<lambda>(p, f). below (s_root s @ [ns]) p \<and> f_kind f \<noteq> Directory \<and> valid_key (last p)) (s_fs s))"

fun walk_fold ::
  "(path \<Rightarrow> go_error option) \<Rightarrow> namespace \<Rightarrow> ('s \<Rightarrow> path \<Rightarrow> Stat \<Rightarrow> 's result) \<Rightarrow> 's \<Rightarrow> (path \<times> fnode) list \<Rightarrow> 's result" where
  "walk_fold visit ns fn st [] = Inr st"
| "walk_fold visit ns fn st ((p, f) # pfs) =
     (case visit p of
        Some e \<Rightarrow> Inl e
      | None \<Rightarrow> (case fn st p (stat_of ns (last p) f) of
                   Inl e \<Rightarrow> Inl e
                 | Inr st' \<Rightarrow> walk_fold visit ns fn st' pfs))"

definition Walk ::
  "(path \<Rightarrow> go_error option) \<Rightarrow> namespace \<Rightarrow> ('s \<Rightarrow> path \<Rightarrow> Stat \<Rightarrow> 's result) \<Rightarrow> 's \<Rightarrow> Store \<Rightarrow> 's result" where
  "Walk visit ns fn st s =
     (if \<not> ns_Valid ns then Inl (ErrBadNamespace ns) else walk_fold visit ns fn st (walk_files s ns))"

section \<open>Reconciliation\<close>

record ReconcileResult =
  rr_FilesOnDisk :: int
  rr_BytesOnDisk :: int
  rr_IndexedBefore :: int
  rr_AddedToIndex :: int
  rr_RemovedStale :: int
  rr_SizeCorrected :: int

text \<open>
  The environment of a reconciliation: database errors of the three queries and the transaction,
  the context and the I/O errors met at each file, and the time stamp recorded at the end. The
  duration fields of the result are not modelled.
\<close>

record reconcile_env =
  re_totals :: "go_error option"
  re_all :: "go_error option"
  re_ctx :: "path \<Rightarrow> go_error option"
  re_visit :: "path \<Rightarrow> go_error option"
  re_replace :: "tx_fault option"
  re_setmeta :: "go_error option"
  re_stamp :: string

type_synonym rec_state = "ReconcileResult \<times> (objRef, Entry) gomap \<times> Entry list"

definition reconcile_file ::
  "(path \<Rightarrow> go_error option) \<Rightarrow> rec_state \<Rightarrow> path \<Rightarrow> Stat \<Rightarrow> rec_state result" where
  "reconcile_file ctx = (\<lambda>(res, known, es) p st.
     case ctx p of
       Some e \<Rightarrow> Inl e
     | None \<Rightarrow>
       let res1 = res\<lparr>rr_FilesOnDisk := rr_FilesOnDisk res + 1,
                      rr_BytesOnDisk := rr_BytesOnDisk res + t_Size st\<rparr>;
           ref = (t_Namespace st, t_Key st) in
       case mget known ref of
         Some prev \<Rightarrow>
           (let res2 = (if e_size prev \<noteq> t_Size st
                        then res1\<lparr>rr_SizeCorrected := rr_SizeCorrected res1 + 1\<rparr> else res1);
                prev2 = (if e_size prev \<noteq> t_Size st then prev\<lparr>e_size := t_Size st\<rparr> else prev)
            in Inr (res2, mdel ref known, es @ [prev2]))
       | None \<Rightarrow>
           Inr (res1\<lparr>rr_AddedToIndex := rr_AddedToIndex res1 + 1\<rparr>, known,
                es @ [\<lparr>e_ns = t_Namespace st, e_key = t_Key st, e_size = t_Size st,
                       e_created = t_ModTime st, e_access = t_ModTime st, e_count = 1\<rparr>]))"

definition zero_reconcile :: ReconcileResult where
  "zero_reconcile = \<lparr>rr_FilesOnDisk = 0, rr_BytesOnDisk = 0, rr_IndexedBefore = 0, rr_AddedToIndex = 0,
     rr_RemovedStale = 0, rr_SizeCorrected = 0\<rparr>"

text \<open>The two walks and what is collected from them.\<close>

definition reconcile_walk :: "reconcile_env \<Rightarrow> rec_state \<Rightarrow> Store \<Rightarrow> rec_state result" where
  "reconcile_walk env st0 s =
     (case Walk (re_visit env) NamespaceCAS (reconcile_file (re_ctx env)) st0 s of
        Inl e \<Rightarrow> Inl (Wrapped ''storage: reconcile walk cas'' e)
      | Inr st1 \<Rightarrow>
         (case Walk (re_visit env) NamespaceAC (reconcile_file (re_ctx env)) st1 s of
            Inl e \<Rightarrow> Inl (Wrapped ''storage: reconcile walk ac'' e)
          | Inr st2 \<Rightarrow> Inr st2))"

definition Reconcile :: "reconcile_env \<Rightarrow> Store \<Rightarrow> ReconcileResult result \<times> Store" where
  "Reconcile env s =
     (case s_index s of
        None \<Rightarrow> (Inr zero_reconcile, s)
      | Some i \<Rightarrow>
     (case Totals (re_totals env) i of
        Inl e \<Rightarrow> (Inl e, s)
      | Inr (before, _) \<Rightarrow>
     (case All (\<lambda>m e. Inr (mput (entry_ref e) e m)) [] (re_all env) i of
        Inl e \<Rightarrow> (Inl e, s)
      | Inr known \<Rightarrow>
     (case reconcile_walk env (zero_reconcile\<lparr>rr_IndexedBefore := before\<rparr>, known, []) s of
        Inl e \<Rightarrow> (Inl e, s)
      | Inr (res, known', es) \<Rightarrow>
     (case ReplaceAll es (re_replace env) i of
        (Some e, i1) \<Rightarrow> (Inl e, s\<lparr>s_index := Some i1\<rparr>)
      | (None, i1) \<Rightarrow>
          (Inr (res\<lparr>rr_RemovedStale := int (length known')\<rparr>),
           bump (\<lambda>st. st\<lparr>st_ObjectsStored := rr_FilesOnDisk res, st_BytesStored := rr_BytesOnDisk res\<rparr>)
             (s\<lparr>s_index := Some (snd (SetMeta ''reconciled_at'' (re_stamp env) (re_setmeta env) i1))\<rparr>)))))))"

section \<open>Opening and closing\<close>

text \<open>
  \<^verbatim>\<open>sweepTemps\<close> removes what an earlier run left in the temporary directory; \<open>rm\<close> gives the error of
  removing a path, and the first one stops the sweep. The parent of the files is the directory
  itself, as \<^verbatim>\<open>os.ReadDir\<close> lists one level.
\<close>

definition stale_temps :: "path \<Rightarrow> fsys \<Rightarrow> path list" where
  "stale_temps tmp fs =
     sort_key id (filter (\<lambda>p. butlast p = tmp \<and> has_prefix (last p) tmpPrefix) (mkeys fs))"

fun remove_all :: "(path \<Rightarrow> go_error option) \<Rightarrow> path list \<Rightarrow> fsys \<Rightarrow> go_error option \<times> fsys" where
  "remove_all rm [] fs = (None, fs)"
| "remove_all rm (p # ps) fs =
     (case rm p of
        Some e \<Rightarrow> (Some (Wrapped ''storage: remove stale temp'' e), fs)
      | None \<Rightarrow> remove_all rm ps (mdel p fs))"

definition sweepTemps ::
  "go_error option \<Rightarrow> (path \<Rightarrow> go_error option) \<Rightarrow> Store \<Rightarrow> go_error option \<times> Store" where
  "sweepTemps readdir rm s =
     (case readdir of
        Some e \<Rightarrow> (Some (Wrapped ''storage: scan tmp dir'' e), s)
      | None \<Rightarrow> (case remove_all rm (stale_temps (tmpDir s) (s_fs s)) (s_fs s) of
                   (err, fs) \<Rightarrow> (err, s\<lparr>s_fs := fs\<rparr>)))"

record Options =
  op_Root :: path
  op_MaxObjectBytes :: int
  op_VerifyReads :: bool
  op_DisableIndex :: bool

record open_env =
  oe_abs :: "go_error option"
  oe_mkdir :: "go_error option"
  oe_readdir :: "go_error option"
  oe_rm :: "path \<Rightarrow> go_error option"
  oe_index :: "go_error option"
  oe_reconcile :: reconcile_env

text \<open>\<^verbatim>\<open>Open\<close> over the files and the index tables found under the root.\<close>

definition Open ::
  "Options \<Rightarrow> open_env \<Rightarrow> fsys \<Rightarrow> (objRef, idx_row) gomap \<times> (string, string) gomap \<Rightarrow> Store result" where
  "Open opts env fs tables =
     (if op_Root opts = [] then Inl (NewError ''storage: root must not be empty'')
      else case oe_abs env of
        Some e \<Rightarrow> Inl (Wrapped ''storage: resolve root'' e)
      | None \<Rightarrow>
     (case oe_mkdir env of
        Some e \<Rightarrow> Inl (Wrapped ''storage: create'' e)
      | None \<Rightarrow>
        let s0 = \<lparr>s_root = op_Root opts, s_maxObject = op_MaxObjectBytes opts,
                  s_verifyReads = op_VerifyReads opts, s_dirs = [], s_index = None, s_evictor = False,
                  s_wake = False, s_closed = False, s_dirSyncUnsupported = False, s_fs = fs,
                  s_stats = zero_stats\<rparr> in
        case sweepTemps (oe_readdir env) (oe_rm env) s0 of
          (Some e, _) \<Rightarrow> Inl e
        | (None, s1) \<Rightarrow>
            if op_DisableIndex opts then Inr s1
            else case OpenIndex (indexPath (s_root s1)) 0 tables (oe_index env) of
                   Inl e \<Rightarrow> Inl e
                 | Inr i \<Rightarrow>
                    (case Reconcile (oe_reconcile env) (s1\<lparr>s_index := Some i\<rparr>) of
                       (Inl e, _) \<Rightarrow> Inl e
                     | (Inr res, s2) \<Rightarrow> Inr s2)))"

definition store_Close ::
  "tx_fault option \<Rightarrow> go_error option \<Rightarrow> go_error option \<Rightarrow> Store \<Rightarrow> go_error option \<times> Store" where
  "store_Close tf cr cw s =
     (if s_closed s then (None, s)
      else case s_index s of
             None \<Rightarrow> (None, s\<lparr>s_closed := True\<rparr>)
           | Some i \<Rightarrow> (case idx_Close tf cr cw i of
                          (err, i') \<Rightarrow> (err, s\<lparr>s_closed := True, s_index := Some i'\<rparr>)))"

section \<open>Specification vocabulary\<close>

text \<open>The objects a client can see: the regular files at the paths of valid keys.\<close>

definition visible :: "path \<Rightarrow> fsys \<Rightarrow> objRef \<Rightarrow> bytes option" where
  "visible root fs ref =
     (if ns_Valid (fst ref) \<and> valid_key (snd ref)
      then map_option f_data (regular_at fs (object_path root (fst ref) (snd ref))) else None)"

abbreviation objects :: "Store \<Rightarrow> objRef \<Rightarrow> bytes option" where
  "objects s \<equiv> visible (s_root s) (s_fs s)"

definition disk_sizes :: "Store \<Rightarrow> objRef \<Rightarrow> int option" where
  "disk_sizes s ref = map_option (\<lambda>b. int (length b)) (objects s ref)"

text \<open>Every stored CAS object hashes to its key.\<close>

definition cas_ok :: "(bytes \<Rightarrow> bytes) \<Rightarrow> Store \<Rightarrow> bool" where
  "cas_ok sha s \<longleftrightarrow> (\<forall>key data. objects s (NamespaceCAS, key) = Some data \<longrightarrow> hex_encode (sha data) = key)"

text \<open>The index is open and records exactly the visible objects, with their sizes.\<close>

definition store_synced :: "Store \<Rightarrow> bool" where
  "store_synced s \<longleftrightarrow> (\<exists>i. s_index s = Some i \<and> index_ok i \<and> idx.synced (disk_sizes s) i)"

definition store_ok :: "Store \<Rightarrow> bool" where
  "store_ok s \<longleftrightarrow> distinct (mkeys (s_fs s)) \<and> (\<forall>i. s_index s = Some i \<longrightarrow> index_ok i)"

text \<open>An environment in which nothing fails, with a body, a name for the temporary file and a time.\<close>

definition quiet_env :: "bytes \<Rightarrow> string \<Rightarrow> time \<Rightarrow> put_env" where
  "quiet_env body suffix now = \<lparr>pe_mkdir = None, pe_stat = None, pe_tmp = Inr suffix, pe_body = body,
     pe_body_err = None, pe_write = None, pe_ctx = None, pe_sync = None, pe_close = None,
     pe_rename = None, pe_dirsync = None, pe_unlink = None, pe_upsert = None, pe_now = now\<rparr>"

text \<open>Past the early checks, \<^verbatim>\<open>Put\<close> is its streaming part on the store after \<^verbatim>\<open>ensure\<close>.\<close>

definition put_early :: "namespace \<Rightarrow> key \<Rightarrow> int \<Rightarrow> put_env \<Rightarrow> Store \<Rightarrow> bool" where
  "put_early ns key declared env s \<longleftrightarrow>
     s_closed s \<or> \<not> ns_Valid ns \<or> ValidateKey key \<noteq> None \<or> s_maxObject s > 0 \<and> declared > s_maxObject s \<or>
     fst (ensure (fst (ObjectPath (s_root s) ns key)) (pe_mkdir env) s) \<noteq> None"

text \<open>The entry that reconciliation makes for a file: the known one with the size on disk, or a
  fresh one dated by the file.\<close>

definition entry_for :: "(objRef, Entry) gomap \<Rightarrow> namespace \<Rightarrow> path \<times> fnode \<Rightarrow> Entry" where
  "entry_for known ns pf =
     (case mget known (ns, last (fst pf)) of
        Some prev \<Rightarrow> prev\<lparr>e_size := int (length (f_data (snd pf)))\<rparr>
      | None \<Rightarrow> \<lparr>e_ns = ns, e_key = last (fst pf), e_size = int (length (f_data (snd pf))),
                 e_created = f_mtime (snd pf), e_access = f_mtime (snd pf), e_count = 1\<rparr>)"

definition file_ref :: "namespace \<Rightarrow> path \<times> fnode \<Rightarrow> objRef" where
  "file_ref ns pf = (ns, last (fst pf))"

text \<open>The files of both namespaces, in the order of the two walks.\<close>

definition disk_files :: "Store \<Rightarrow> (namespace \<times> path \<times> fnode) list" where
  "disk_files s = map (Pair NamespaceCAS) (walk_files s NamespaceCAS) @ map (Pair NamespaceAC) (walk_files s NamespaceAC)"

text \<open>The entries collected from the index are filed under their own name.\<close>

definition known_ok :: "(objRef, Entry) gomap \<Rightarrow> bool" where
  "known_ok known \<longleftrightarrow> (\<forall>ref e. mget known ref = Some e \<longrightarrow> entry_ref e = ref)"

text \<open>A tree without foreign files: every file that is named like a key is a regular file in its
  own shard.\<close>

definition canonical :: "Store \<Rightarrow> bool" where
  "canonical s \<longleftrightarrow> distinct (mkeys (s_fs s)) \<and>
     (\<forall>ns \<in> {NamespaceCAS, NamespaceAC}. \<forall>(p, f) \<in> set (walk_files s ns).
        f_kind f = Regular \<and> p = object_path (s_root s) ns (last p))"

section \<open>Lemmas: the file system\<close>

lemma regular_at_mput [simp]:
  "regular_at (mput p f fs) q = (if q = p then (if f_kind f = Regular then Some f else None) else regular_at fs q)"
  by (simp add: regular_at_def)

lemma regular_at_mdel [simp]: "regular_at (mdel p fs) q = (if q = p then None else regular_at fs q)"
  by (simp add: regular_at_def)

lemma object_path_tmp:
  "ns_Valid ns \<Longrightarrow> object_path root ns key \<noteq> tmpDir s @ [n]" if "root = s_root s"
  using that object_path_not_tmp [of ns root key n] by (simp add: tmpDir_def)

lemma visible_mput_object:
  assumes "ns_Valid ns" "valid_key key" "f_kind f = Regular"
  shows "visible root (mput (object_path root ns key) f fs) = (visible root fs)((ns, key) \<mapsto> f_data f)"
  using assms by (auto simp: visible_def fun_eq_iff object_path_inj)

lemma visible_mdel_object:
  assumes "ns_Valid ns" "valid_key key"
  shows "visible root (mdel (object_path root ns key) fs) = (visible root fs)((ns, key) := None)"
  using assms by (auto simp: visible_def fun_eq_iff object_path_inj)

lemma visible_tmp:
  "visible root (mput (root @ [''tmp'', n]) f fs) = visible root fs"
  "visible root (mdel (root @ [''tmp'', n]) fs) = visible root fs"
  using object_path_not_tmp [of _ root _ n] by (auto simp: visible_def fun_eq_iff)

lemma create_temp_Inr:
  "create_temp s env = Inr tmp \<Longrightarrow>
     \<exists>n. tmp = s_root s @ [''tmp'', tmpPrefix @ n] \<and> pe_tmp env = Inr n \<and> mget (s_fs s) tmp = None"
  by (auto simp: create_temp_def tmpDir_def Let_def split: sum.splits if_splits)

section \<open>Lemmas: Put\<close>

lemma bump_sel [simp]:
  "s_root (bump f s) = s_root s" "s_fs (bump f s) = s_fs s" "s_index (bump f s) = s_index s"
  "s_maxObject (bump f s) = s_maxObject s" "s_closed (bump f s) = s_closed s"
  "s_verifyReads (bump f s) = s_verifyReads s" "s_evictor (bump f s) = s_evictor s"
  "s_dirs (bump f s) = s_dirs s" "s_stats (bump f s) = f (s_stats s)"
  by (simp_all add: bump_def)

lemma on_index_sel [simp]:
  "s_root (on_index f s) = s_root s" "s_fs (on_index f s) = s_fs s"
  "s_index (on_index f s) = map_option f (s_index s)" "s_stats (on_index f s) = s_stats s"
  "s_maxObject (on_index f s) = s_maxObject s" "s_closed (on_index f s) = s_closed s"
  "s_verifyReads (on_index f s) = s_verifyReads s" "s_evictor (on_index f s) = s_evictor s"
  "s_dirs (on_index f s) = s_dirs s"
  by (simp_all add: on_index_def)

lemma touch_store_sel [simp]:
  "s_root (touch_store ns key now s) = s_root s" "s_fs (touch_store ns key now s) = s_fs s"
  "s_index (touch_store ns key now s) = map_option (Touch ns key now) (s_index s)"
  "s_closed (touch_store ns key now s) = s_closed s"
  "s_maxObject (touch_store ns key now s) = s_maxObject s"
  "s_verifyReads (touch_store ns key now s) = s_verifyReads s"
  by (simp_all add: touch_store_def)

lemma ensure_sel:
  assumes "ensure dir mk s = (r, s1)"
  shows "s_root s1 = s_root s" "s_fs s1 = s_fs s" "s_index s1 = s_index s" "s_maxObject s1 = s_maxObject s"
    "s_closed s1 = s_closed s" "s_verifyReads s1 = s_verifyReads s"
  using assms by (auto simp: ensure_def split: if_splits option.splits)

lemma finish_put_sel:
  assumes "finish_put ns key data env s = (d, s')"
  shows "s_root s' = s_root s" "s_fs s' = s_fs s" "s_maxObject s' = s_maxObject s" "s_closed s' = s_closed s"
    "s_verifyReads s' = s_verifyReads s" "d = (pe_dirsync env = None)"
    "s_index s' = map_option (\<lambda>i. snd (Upsert ns key (int (length data)) (pe_now env) (pe_upsert env) i)) (s_index s)"
  using assms by (auto simp: finish_put_def Let_def noteDirSyncUnsupported_def split: if_splits)

lemma abandon_sel [simp]:
  "s_root (abandon tmp env s) = s_root s" "s_index (abandon tmp env s) = s_index s"
  "s_closed (abandon tmp env s) = s_closed s" "s_maxObject (abandon tmp env s) = s_maxObject s"
  "s_verifyReads (abandon tmp env s) = s_verifyReads s"
  by (simp_all add: abandon_def split: option.splits)

lemma Put_early:
  "put_early ns key declared env s \<Longrightarrow> \<exists>e s1. Put sha ns key declared env s = (Inl e, s1) \<and> (s1 = s \<or>
     s1 = snd (ensure (fst (ObjectPath (s_root s) ns key)) (pe_mkdir env) s))"
  by (auto simp: Put_def put_early_def split: prod.splits option.splits)

lemma Put_body:
  assumes "\<not> put_early ns key declared env s"
    "ensure (fst (ObjectPath (s_root s) ns key)) (pe_mkdir env) s = (m, s1)"
  shows "Put sha ns key declared env s =
        (case (if ContentAddressed ns \<and> pe_stat env = None then regular_at (s_fs s) (object_path (s_root s) ns key) else None) of
            Some f \<Rightarrow>
              (Inr \<lparr>pr_Key = key, pr_Namespace = ns, pr_Size = int (length (f_data f)), pr_Digest = key,
                    pr_AlreadyStored = True, pr_Durable = True\<rparr>,
               touch_store ns key (pe_now env)
                 (bump (\<lambda>st. st\<lparr>st_PutsAlreadyStored := st_PutsAlreadyStored st + 1,
                          st_BytesIn := st_BytesIn st + int (length (pe_body env))\<rparr>) s1))
          | None \<Rightarrow>
         (case create_temp s1 env of
            Inl e \<Rightarrow> (Inl e, s1)
          | Inr tmp \<Rightarrow>
              let copied = stream (s_maxObject s) env;
                  data = fst copied;
                  s2 = s1\<lparr>s_fs := mput tmp (temp_node env data) (s_fs s)\<rparr>
              in case put_verdict sha (s_maxObject s) ns key declared env copied of
                   Some e \<Rightarrow>
                     (Inl e, abandon tmp env (bump (\<lambda>st. st\<lparr>st_PutsRejected := st_PutsRejected st + 1\<rparr>) s2))
                 | None \<Rightarrow>
                     (case finish_put ns key data env
                             (s2\<lparr>s_fs := rename_file tmp (object_path (s_root s) ns key) (temp_node env data) (s_fs s2)\<rparr>) of
                        (durable, s4) \<Rightarrow>
                          (Inr \<lparr>pr_Key = key, pr_Namespace = ns, pr_Size = int (length data),
                                pr_Digest = hex_encode (sha data), pr_AlreadyStored = False,
                                pr_Durable = durable\<rparr>, s4))))"
proof -
  have ok: "\<not> s_closed s" "ns_Valid ns" "valid_key key"
    and lim: "(0 < s_maxObject s \<and> s_maxObject s < declared) = False"
    using assms(1) by (auto simp: put_early_def)
  obtain dir p where op: "ObjectPath (s_root s) ns key = (dir, p)" by fastforce
  with assms have e: "ensure dir (pe_mkdir env) s = (None, s1)" by (simp add: put_early_def)
  note sel = ensure_sel [OF e]
  show ?thesis
    unfolding Put_def op fst_conv snd_conv prod.case e ok(3) option.case lim if_False sel
    using ok(1,2) by simp
qed

text \<open>The four ways a \<^verbatim>\<open>Put\<close> ends: an early error, a CAS object that is already there, a rejected
  upload, and a published one.\<close>

lemma Put_cases:
  assumes "Put sha ns key declared env s = (r, s')"
  obtains
    (early) e where "r = Inl e" "s_fs s' = s_fs s" "s_index s' = s_index s"
  | (stored) f where "ns_Valid ns" "valid_key key" "ContentAddressed ns"
      "regular_at (s_fs s) (object_path (s_root s) ns key) = Some f"
      "r = Inr \<lparr>pr_Key = key, pr_Namespace = ns, pr_Size = int (length (f_data f)), pr_Digest = key,
                pr_AlreadyStored = True, pr_Durable = True\<rparr>"
      "s_fs s' = s_fs s" "s_index s' = map_option (Touch ns key (pe_now env)) (s_index s)"
  | (rejected) e n where "r = Inl e" "s_index s' = s_index s" "mget (s_fs s) (s_root s @ [''tmp'', n]) = None"
      "put_verdict sha (s_maxObject s) ns key declared env (stream (s_maxObject s) env) = Some e"
      "s_fs s' = s_fs (abandon (s_root s @ [''tmp'', n]) env
         (s\<lparr>s_fs := mput (s_root s @ [''tmp'', n]) (temp_node env (fst (stream (s_maxObject s) env))) (s_fs s)\<rparr>))"
  | (published) n data where "ns_Valid ns" "valid_key key"
      "stream (s_maxObject s) env = (data, None)"
      "put_verdict sha (s_maxObject s) ns key declared env (data, None) = None"
      "s_fs s' = mput (object_path (s_root s) ns key) (temp_node env data)
         (mdel (s_root s @ [''tmp'', n]) (mput (s_root s @ [''tmp'', n]) (temp_node env data) (s_fs s)))"
      "s_index s' =
         map_option (\<lambda>i. snd (Upsert ns key (int (length data)) (pe_now env) (pe_upsert env) i)) (s_index s)"
      "r = Inr \<lparr>pr_Key = key, pr_Namespace = ns, pr_Size = int (length data), pr_Digest = hex_encode (sha data),
                pr_AlreadyStored = False, pr_Durable = (pe_dirsync env = None)\<rparr>"
proof -
  let ?path = "object_path (s_root s) ns key"
  obtain m s1 where e: "ensure (fst (ObjectPath (s_root s) ns key)) (pe_mkdir env) s = (m, s1)" by fastforce
  note e' = ensure_sel [OF e]
  show thesis
  proof (cases "put_early ns key declared env s")
    case True
    then obtain err where "r = Inl err" "s' = s \<or> s' = s1"
      using Put_early [OF True, of sha] assms e by auto
    with e' show thesis by (intro early) auto
  next
    case False
    then have ok: "ns_Valid ns" "valid_key key" by (auto simp: put_early_def)
    note Put = Put_body [OF False e, of sha]
    let ?there = "if ContentAddressed ns \<and> pe_stat env = None then regular_at (s_fs s) ?path else None"
    show thesis
    proof (cases ?there)
      case (Some f)
      then show thesis
        using assms Put ok e' by (intro stored) (auto split: if_splits)
    next
      case None
      show thesis
      proof (cases "create_temp s1 env")
        case (Inl err)
        then show thesis using assms Put None e' by (intro early) auto
      next
        case (Inr tmp)
        then obtain n where tmp: "tmp = s_root s @ [''tmp'', n]" "mget (s_fs s) (s_root s @ [''tmp'', n]) = None"
          using create_temp_Inr [of s1 env tmp] e' by auto
        obtain data cerr where st: "stream (s_maxObject s) env = (data, cerr)" by fastforce
        show thesis
        proof (cases "put_verdict sha (s_maxObject s) ns key declared env (data, cerr)")
          case (Some err)
          then show thesis
            using assms Put None Inr st tmp e'
            by (intro rejected [of err n]) (auto simp: Let_def abandon_def split: option.splits)
        next
          case verdict: None
          then have c: "cerr = None" by (auto simp: put_verdict_def Let_def split: option.splits)
          obtain d s4 where fin: "finish_put ns key data env
              (s1\<lparr>s_fs := rename_file tmp ?path (temp_node env data) (mput tmp (temp_node env data) (s_fs s))\<rparr>) = (d, s4)"
            by fastforce
          then have "s' = s4" "r = Inr \<lparr>pr_Key = key, pr_Namespace = ns, pr_Size = int (length data),
              pr_Digest = hex_encode (sha data), pr_AlreadyStored = False, pr_Durable = d\<rparr>"
            using assms Put None Inr st verdict by (simp_all add: Let_def)
          with finish_put_sel [OF fin] tmp e' ok st verdict c show thesis
            by (intro published [of data n]) (simp_all add: rename_file_def)
        qed
      qed
    qed
  qed
qed

lemma Put_frame:
  assumes "Put sha ns key declared env s = (r, s')"
  shows "s_root s' = s_root s \<and> s_closed s' = s_closed s \<and> s_maxObject s' = s_maxObject s \<and>
     s_verifyReads s' = s_verifyReads s"
proof -
  obtain m s1 where e: "ensure (fst (ObjectPath (s_root s) ns key)) (pe_mkdir env) s = (m, s1)" by fastforce
  note e' = ensure_sel [OF e]
  show ?thesis
  proof (cases "put_early ns key declared env s")
    case True
    from Put_early [OF True, of sha] assms e e' show ?thesis by auto
  next
    case False
    from Put_body [OF False e, of sha] assms e' show ?thesis
      by (auto simp: Let_def finish_put_def noteDirSyncUnsupported_def split: option.splits sum.splits)
  qed
qed

lemma temp_node_sel [simp]: "f_data (temp_node env d) = d" "f_kind (temp_node env d) = Regular"
  by (simp_all add: temp_node_def)

lemma visible_abandon:
  "visible root (s_fs (abandon (root @ [''tmp'', n]) env (s\<lparr>s_fs := mput (root @ [''tmp'', n]) f fs\<rparr>))) = visible root fs"
  by (simp add: abandon_def visible_tmp split: option.split)

text \<open>What a \<^verbatim>\<open>Put\<close> does to the visible objects: nothing, or one object set to the streamed bytes.\<close>

lemma Put_objects:
  assumes "Put sha ns key declared env s = (r, s')"
  shows "objects s' =
     (case r of
        Inl e \<Rightarrow> objects s
      | Inr res \<Rightarrow> if pr_AlreadyStored res then objects s
                  else (objects s)((ns, key) \<mapsto> fst (stream (s_maxObject s) env)))"
  using Put_frame [OF assms]
proof (cases rule: Put_cases [OF assms])
  case (4 n data)
  then show ?thesis
    using Put_frame [OF assms] by (simp add: visible_mput_object visible_tmp)
qed (simp_all add: visible_abandon)

lemma put_verdict_None:
  assumes "put_verdict sha m ns key declared env (data, cerr) = None"
  shows "cerr = None" "pe_ctx env = None" "m > 0 \<Longrightarrow> int (length data) \<le> m"
    "declared \<ge> 0 \<Longrightarrow> int (length data) = declared" "ContentAddressed ns \<Longrightarrow> hex_encode (sha data) = key"
    "pe_sync env = None" "pe_close env = None" "pe_rename env = None"
  using assms by (auto simp: put_verdict_def Let_def split: option.splits if_splits)

text \<open>A stream without an error that passed the size check is the whole body.\<close>

lemma stream_body:
  assumes "stream m env = (data, None)" "m > 0 \<longrightarrow> int (length data) \<le> m"
  shows "data = pe_body env" "pe_body_err env = None"
proof -
  have w: "pe_write env = None \<or> (\<exists>n e. pe_write env = Some (n, e))" by (cases "pe_write env") auto
  have d: "data = (if m > 0 then take (nat m + 1) (pe_body env) else pe_body env)"
    and r: "(if m > 0 \<and> int (length (pe_body env)) > m then None else pe_body_err env) = None"
    using assms(1) w by (auto simp: stream_def Let_def split: if_splits)
  have len: "\<not> (m > 0 \<and> int (length (pe_body env)) > m)"
  proof
    assume "m > 0 \<and> int (length (pe_body env)) > m"
    with d have "length data = nat m + 1" by auto
    with assms(2) \<open>m > 0 \<and> int (length (pe_body env)) > m\<close> show False by simp
  qed
  with d show "data = pe_body env" by (auto simp: take_all_iff)
  from len r show "pe_body_err env = None" by (auto split: if_splits)
qed

lemma Put_published:
  assumes "Put sha ns key declared env s = (Inr res, s')" "\<not> pr_AlreadyStored res"
  shows "ns_Valid ns" "valid_key key" "fst (stream (s_maxObject s) env) = pe_body env"
    "ContentAddressed ns \<Longrightarrow> hex_encode (sha (pe_body env)) = key"
    "s_maxObject s > 0 \<Longrightarrow> int (length (pe_body env)) \<le> s_maxObject s"
    "declared \<ge> 0 \<Longrightarrow> int (length (pe_body env)) = declared" "pe_body_err env = None"
    "res = \<lparr>pr_Key = key, pr_Namespace = ns, pr_Size = int (length (pe_body env)),
       pr_Digest = hex_encode (sha (pe_body env)), pr_AlreadyStored = False, pr_Durable = (pe_dirsync env = None)\<rparr>"
    "s_index s' = map_option (\<lambda>i. snd (Upsert ns key (int (length (pe_body env))) (pe_now env) (pe_upsert env) i))
       (s_index s)"
proof -
  obtain data where
    p: "ns_Valid ns" "valid_key key" "stream (s_maxObject s) env = (data, None)"
      "put_verdict sha (s_maxObject s) ns key declared env (data, None) = None"
      "s_index s' = map_option (\<lambda>i. snd (Upsert ns key (int (length data)) (pe_now env) (pe_upsert env) i)) (s_index s)"
      "res = \<lparr>pr_Key = key, pr_Namespace = ns, pr_Size = int (length data), pr_Digest = hex_encode (sha data),
         pr_AlreadyStored = False, pr_Durable = (pe_dirsync env = None)\<rparr>"
    by (rule Put_cases [OF assms(1)]) (use assms(2) in auto)
  note v = put_verdict_None [OF p(4)]
  have b: "data = pe_body env" "pe_body_err env = None" using stream_body [OF p(3)] v(3) by simp_all
  show "ns_Valid ns" "valid_key key" "fst (stream (s_maxObject s) env) = pe_body env"
    "ContentAddressed ns \<Longrightarrow> hex_encode (sha (pe_body env)) = key"
    "s_maxObject s > 0 \<Longrightarrow> int (length (pe_body env)) \<le> s_maxObject s"
    "declared \<ge> 0 \<Longrightarrow> int (length (pe_body env)) = declared" "pe_body_err env = None"
    "res = \<lparr>pr_Key = key, pr_Namespace = ns, pr_Size = int (length (pe_body env)),
       pr_Digest = hex_encode (sha (pe_body env)), pr_AlreadyStored = False, pr_Durable = (pe_dirsync env = None)\<rparr>"
    "s_index s' = map_option (\<lambda>i. snd (Upsert ns key (int (length (pe_body env))) (pe_now env) (pe_upsert env) i))
       (s_index s)"
    using p v b by simp_all
qed

lemma Put_stored:
  assumes "Put sha ns key declared env s = (Inr res, s')" "pr_AlreadyStored res"
  shows "ns = NamespaceCAS \<and> valid_key key \<and> objects s (ns, key) \<noteq> None \<and>
     s_index s' = map_option (Touch ns key (pe_now env)) (s_index s)"
  by (rule Put_cases [OF assms(1)]) (use assms(2) in \<open>auto simp: ContentAddressed_def visible_def\<close>)

lemma Put_failed_index: "Put sha ns key declared env s = (Inl e, s') \<Longrightarrow> s_index s' = s_index s"
  by (erule Put_cases) auto

lemma Put_cas_ok:
  assumes "Put sha ns key declared env s = (r, s')" "cas_ok sha s"
  shows "cas_ok sha s'"
proof (cases "\<exists>res. r = Inr res \<and> \<not> pr_AlreadyStored res")
  case True
  then obtain res where res: "r = Inr res" "\<not> pr_AlreadyStored res" by auto
  note p = Put_published [OF assms(1) [unfolded res(1)] res(2)]
  show ?thesis
    using assms(2) Put_objects [OF assms(1)] res p(3,4)
    by (auto simp: cas_ok_def ContentAddressed_def)
next
  case False
  then have "objects s' = objects s" using Put_objects [OF assms(1)] by (auto split: sum.splits)
  with assms(2) show ?thesis by (simp add: cas_ok_def)
qed

lemma disk_sizes_upd:
  "objects s' = (objects s)((ns, key) \<mapsto> d) \<Longrightarrow> disk_sizes s' = (disk_sizes s)((ns, key) \<mapsto> int (length d))"
  "objects s' = (objects s)((ns, key) := None) \<Longrightarrow> disk_sizes s' = (disk_sizes s)((ns, key) := None)"
  "objects s' = objects s \<Longrightarrow> disk_sizes s' = disk_sizes s"
  by (auto simp: disk_sizes_def fun_eq_iff)

lemma Put_synced:
  assumes "Put sha ns key declared env s = (r, s')" "store_synced s" "pe_upsert env = None"
  shows "store_synced s'"
proof -
  obtain i where i: "s_index s = Some i" "index_ok i" "idx.synced (disk_sizes s) i"
    using assms(2) by (auto simp: store_synced_def)
  show ?thesis
  proof (cases r)
    case (Inl e)
    then show ?thesis
      using i Put_failed_index [OF assms(1) [unfolded Inl]] Put_objects [OF assms(1)] disk_sizes_upd(3) [of s' s]
      by (auto simp: store_synced_def)
  next
    case (Inr res)
    show ?thesis
    proof (cases "pr_AlreadyStored res")
      case True
      then have "disk_sizes s' = disk_sizes s"
        using Put_objects [OF assms(1)] Inr by (intro disk_sizes_upd) simp
      then show ?thesis
        using i Put_stored [OF assms(1) [unfolded Inr] True]
          idx.synced_touch [OF i(3), of "(ns, key)"] index_ok_ops(4) [OF i(2)]
        by (auto simp: store_synced_def)
    next
      case False
      note p = Put_published [OF assms(1) [unfolded Inr] False]
      have "disk_sizes s' = (disk_sizes s)((ns, key) \<mapsto> int (length (pe_body env)))"
        using Put_objects [OF assms(1)] Inr False p(3) by (intro disk_sizes_upd) simp
      then show ?thesis
        using i p(9) assms(3) idx.synced_publish [OF i(3), of "(ns, key)"] index_ok_ops(1) [OF i(2)]
        by (auto simp: store_synced_def)
    qed
  qed
qed

section \<open>Lemmas: reading\<close>

lemma visible_Some:
  "visible root fs (ns, key) = Some d \<longleftrightarrow>
     ns_Valid ns \<and> valid_key key \<and>
     (\<exists>f. mget fs (object_path root ns key) = Some f \<and> f_kind f = Regular \<and> f_data f = d)"
  by (auto simp: visible_def regular_at_def split: option.splits if_splits)

lemma store_Get_found:
  assumes "objects s (ns, key) = Some d" "\<not> s_closed s"
  shows "\<exists>ob s'. store_Get ns key None None now s = (Inr ob, s') \<and> o_data ob = d \<and>
     t_Key (o_stat ob) = key \<and> t_Namespace (o_stat ob) = ns \<and> t_Size (o_stat ob) = int (length d) \<and>
     o_verify ob = (s_verifyReads s \<and> ContentAddressed ns) \<and>
     s_fs s' = s_fs s \<and> s_root s' = s_root s \<and> s_index s' = map_option (Touch ns key now) (s_index s)"
  using assms by (auto simp: store_Get_def visible_Some stat_of_def Let_def)

lemma store_Get_missing:
  assumes "objects s (ns, key) = None" "\<not> s_closed s" "ns_Valid ns" "valid_key key"
  shows "fst (store_Get ns key None None now s) = Inl ErrNotFound"
  using assms by (auto simp: store_Get_def visible_def regular_at_def Let_def split: option.splits if_splits)

lemma store_Get_objects: "store_Get ns key oe se now s = (r, s') \<Longrightarrow> s_fs s' = s_fs s \<and> s_root s' = s_root s"
  by (auto simp: store_Get_def Let_def split: if_splits option.splits)

lemma store_Get_Inr:
  assumes "store_Get ns key oe se now s = (Inr ob, s')"
  shows "objects s (ns, key) = Some (o_data ob)" "o_stat ob = stat_of ns key (the (mget (s_fs s) (object_path (s_root s) ns key)))"
    "t_Size (o_stat ob) = int (length (o_data ob))" "t_Key (o_stat ob) = key"
    "o_verify ob = (s_verifyReads s \<and> ContentAddressed ns)"
    "s_index s' = map_option (Touch ns key now) (s_index s)" "ns_Valid ns" "valid_key key"
  using assms by (auto simp: store_Get_def visible_Some stat_of_def Let_def split: if_splits option.splits)

lemma store_Stat_Inr:
  "store_Stat ns key oe now s = (Inr st, s') \<Longrightarrow>
     (\<exists>d. objects s (ns, key) = Some d \<and> t_Size st = int (length d)) \<and> s_fs s' = s_fs s \<and> s_root s' = s_root s \<and>
     s_index s' = map_option (Touch ns key now) (s_index s)"
  by (auto simp: store_Stat_def visible_Some stat_of_def split: if_splits option.splits)

lemma concat_chunk_list [simp]: "concat (chunk_list n bs) = bs"
  by (induction n bs rule: chunk_list.induct) auto

lemma copyVerified_complete: "copyVerified cs rerr None = (concat cs, concat cs, rerr)"
  by (induction cs) auto

lemma copyVerified_ok:
  "copyVerified cs rerr wfl = (w, h, None) \<Longrightarrow> rerr = None \<and> w = concat cs \<and> h = concat cs"
  by (induction cs rerr wfl arbitrary: w h rule: copyVerified.induct) (auto split: prod.splits if_splits)

lemma copyVerified_prefix: "copyVerified cs rerr wfl = (w, h, e) \<Longrightarrow> \<exists>rest. concat cs = w @ rest"
proof (induction cs rerr wfl arbitrary: w h e rule: copyVerified.induct)
  case (3 c cs rerr n err)
  show ?case
  proof (cases "n < length c")
    case True
    with 3 have "w = take n c" by auto
    then have "concat (c # cs) = w @ (drop n c @ concat cs)" by simp
    then show ?thesis by blast
  next
    case False
    with 3 show ?thesis by (force split: prod.splits)
  qed
qed (auto split: prod.splits)

text \<open>A copy that ends without an error has sent, and hashed, exactly the bytes of the file.\<close>

lemma WriteTo_ok:
  assumes "WriteTo rfl wfl ob = (w, None, ob')"
  shows "w = o_data ob" "o_stat ob' = o_stat ob" "o_verify ob' = o_verify ob"
    "o_hashed ob' = (if o_verify ob then o_data ob else [])" "o_bytesServed ob' = int (length (o_data ob))"
proof -
  obtain bytes rerr where r: "readable rfl (o_data ob) = (bytes, rerr)" by fastforce
  obtain w' h e where c: "copyVerified (chunk_list (bufSize - 1) bytes) rerr wfl = (w', h, e)" by (metis prod_cases3)
  have e: "e = None" "w' = w" using assms r c by (auto simp: WriteTo_def)
  from copyVerified_ok [OF c [unfolded e]] have k: "rerr = None" "w = bytes" "h = bytes" by simp_all
  then have "bytes = o_data ob" using r by (auto simp: readable_def split: option.splits if_splits)
  with k assms r c e show "w = o_data ob" "o_stat ob' = o_stat ob" "o_verify ob' = o_verify ob"
    "o_hashed ob' = (if o_verify ob then o_data ob else [])" "o_bytesServed ob' = int (length (o_data ob))"
    by (auto simp: WriteTo_def)
qed

lemma WriteTo_prefix: "WriteTo rfl wfl ob = (w, e, ob') \<Longrightarrow> \<exists>rest. o_data ob = w @ rest"
proof -
  assume w: "WriteTo rfl wfl ob = (w, e, ob')"
  obtain bytes rerr where r: "readable rfl (o_data ob) = (bytes, rerr)" by fastforce
  obtain w' h e' where c: "copyVerified (chunk_list (bufSize - 1) bytes) rerr wfl = (w', h, e')" by (metis prod_cases3)
  have "w' = w" using w r c by (auto simp: WriteTo_def)
  with copyVerified_prefix [OF c] obtain r1 where "bytes = w @ r1" by auto
  moreover have "\<exists>r2. o_data ob = bytes @ r2"
    using r by (auto simp: readable_def split: option.splits if_splits) (metis append_take_drop_id)
  ultimately show ?thesis by auto
qed

lemma WriteTo_all: "WriteTo None None ob = (o_data ob, None, ob\<lparr>o_hashed := (if o_verify ob then o_data ob else []),
     o_bytesServed := int (length (o_data ob))\<rparr>)"
  by (simp add: WriteTo_def readable_def copyVerified_complete)

section \<open>Lemmas: deletion\<close>

lemma Delete_objects:
  assumes "Delete ns key se re ie s = (r, s')"
  shows "s_root s' = s_root s"
    "r = None \<Longrightarrow> objects s' = (objects s)((ns, key) := None)" "r \<noteq> None \<Longrightarrow> s' = s"
proof -
  show "s_root s' = s_root s" "r \<noteq> None \<Longrightarrow> s' = s"
    using assms by (auto simp: Delete_def Let_def split: if_splits option.splits)
  assume r: "r = None"
  then have ok: "ns_Valid ns" "valid_key key"
    using assms by (auto simp: Delete_def Let_def split: if_splits option.splits)
  let ?p = "object_path (s_root s) ns key"
  show "objects s' = (objects s)((ns, key) := None)"
  proof (cases "mget (s_fs s) ?p")
    case None
    then have "s' = s" "objects s (ns, key) = None"
      using assms ok r by (auto simp: Delete_def visible_def regular_at_def Let_def)
    then show ?thesis by (simp add: fun_upd_idem)
  next
    case (Some f)
    then have "s_fs s' = mdel ?p (s_fs s)" "s_root s' = s_root s"
      using assms ok r by (auto simp: Delete_def Let_def split: option.splits)
    with ok show ?thesis by (simp add: visible_mdel_object)
  qed
qed

lemma DeleteFile_objects:
  assumes "DeleteFile ns key se re s = (r, s')"
  shows "s_root s' = s_root s" "s_index s' = s_index s" "s_closed s' = s_closed s"
    "r = Inr n \<Longrightarrow> objects s' = (objects s)((ns, key) := None)" "r = Inl e \<Longrightarrow> s' = s"
proof -
  show "s_root s' = s_root s" "s_index s' = s_index s" "s_closed s' = s_closed s" "r = Inl e \<Longrightarrow> s' = s"
    using assms by (auto simp: DeleteFile_def Let_def split: if_splits option.splits)
  assume r: "r = Inr n"
  then have ok: "ns_Valid ns" "valid_key key"
    using assms by (auto simp: DeleteFile_def Let_def split: if_splits option.splits)
  let ?p = "object_path (s_root s) ns key"
  show "objects s' = (objects s)((ns, key) := None)"
  proof (cases "mget (s_fs s) ?p")
    case None
    then have "s' = s" "objects s (ns, key) = None"
      using assms ok r by (auto simp: DeleteFile_def visible_def regular_at_def Let_def)
    then show ?thesis by (simp add: fun_upd_idem)
  next
    case (Some f)
    then have "s_fs s' = mdel ?p (s_fs s)" "s_root s' = s_root s"
      using assms ok r by (auto simp: DeleteFile_def Let_def split: option.splits)
    with ok show ?thesis by (simp add: visible_mdel_object)
  qed
qed

section \<open>Lemmas: reconciliation\<close>

lemma entry_for_sel:
  assumes "known_ok known"
  shows "entry_ref (entry_for known ns pf) = file_ref ns pf"
    "e_size (entry_for known ns pf) = int (length (f_data (snd pf)))"
proof -
  show "e_size (entry_for known ns pf) = int (length (f_data (snd pf)))"
    by (simp add: entry_for_def split: option.split)
  show "entry_ref (entry_for known ns pf) = file_ref ns pf"
  proof (cases "mget known (ns, last (fst pf))")
    case None
    then show ?thesis by (simp add: entry_for_def file_ref_def entry_ref_def)
  next
    case (Some prev)
    then have "entry_ref prev = (ns, last (fst pf))" using assms by (simp add: known_ok_def)
    with Some show ?thesis by (simp add: entry_for_def file_ref_def entry_ref_def)
  qed
qed

lemma reconcile_file_Inr:
  assumes "reconcile_file ctx (res, known, es) p (stat_of ns (last p) f) = Inr (res', known', es')"
  shows "es' = es @ [entry_for known ns (p, f)]" "known' = mdel (file_ref ns (p, f)) known"
    "rr_FilesOnDisk res' = rr_FilesOnDisk res + 1"
    "rr_BytesOnDisk res' = rr_BytesOnDisk res + int (length (f_data f))"
proof -
  have del: "mget known k = None \<Longrightarrow> mdel k known = known" for k
  proof -
    assume "mget known k = None"
    then have "k \<notin> set (mkeys known)" by (simp only: mget_None_iff simp_thms)
    then show ?thesis by (auto simp: mdel_def filter_id_conv image_iff)
  qed
  show "es' = es @ [entry_for known ns (p, f)]" "known' = mdel (file_ref ns (p, f)) known"
    "rr_FilesOnDisk res' = rr_FilesOnDisk res + 1"
    "rr_BytesOnDisk res' = rr_BytesOnDisk res + int (length (f_data f))"
    using assms del [of "(ns, last p)"]
    by (auto simp: reconcile_file_def stat_of_def entry_for_def file_ref_def Let_def split: option.splits if_splits)
qed

lemma known_ok_mdel: "known_ok known \<Longrightarrow> known_ok (mdel k known)"
  by (simp add: known_ok_def)

text \<open>A walk collects one entry per file, whatever the index knew.\<close>

lemma walk_fold_refs:
  assumes "walk_fold visit ns (reconcile_file ctx) (res, known, es) pfs = Inr (res', known', es')" "known_ok known"
  shows "known_ok known' \<and>
    map (\<lambda>e. (entry_ref e, e_size e)) es' =
      map (\<lambda>e. (entry_ref e, e_size e)) es @ map (\<lambda>pf. (file_ref ns pf, int (length (f_data (snd pf))))) pfs \<and>
    rr_FilesOnDisk res' = rr_FilesOnDisk res + int (length pfs) \<and>
    rr_BytesOnDisk res' = rr_BytesOnDisk res + sum_list (map (\<lambda>pf. int (length (f_data (snd pf)))) pfs)"
  using assms
proof (induction pfs arbitrary: res known es)
  case (Cons pf pfs)
  obtain p f where pf: "pf = (p, f)" by fastforce
  with Cons.prems obtain res1 known1 es1 where
    step: "reconcile_file ctx (res, known, es) p (stat_of ns (last p) f) = Inr (res1, known1, es1)" and
    rest: "walk_fold visit ns (reconcile_file ctx) (res1, known1, es1) pfs = Inr (res', known', es')"
    by (auto split: option.splits sum.splits)
  note st = reconcile_file_Inr [OF step]
  have "known_ok known1" using st(2) Cons.prems(2) known_ok_mdel by simp
  from Cons.IH [OF rest this] st entry_for_sel [OF Cons.prems(2), of ns "(p, f)"] pf show ?case by simp
qed simp

text \<open>If no two files have the same name, each entry is the one of the original index.\<close>

lemma walk_fold_entries:
  assumes "walk_fold visit ns (reconcile_file ctx) (res, known, es) pfs = Inr (res', known', es')"
    "distinct (map (file_ref ns) pfs)"
  shows "es' = es @ map (entry_for known ns) pfs \<and>
    (\<forall>ref. mget known' ref = (if ref \<in> set (map (file_ref ns) pfs) then None else mget known ref))"
  using assms
proof (induction pfs arbitrary: res known es)
  case (Cons pf pfs)
  obtain p f where pf: "pf = (p, f)" by fastforce
  with Cons.prems obtain res1 known1 es1 where
    step: "reconcile_file ctx (res, known, es) p (stat_of ns (last p) f) = Inr (res1, known1, es1)" and
    rest: "walk_fold visit ns (reconcile_file ctx) (res1, known1, es1) pfs = Inr (res', known', es')"
    by (auto split: option.splits sum.splits)
  note st = reconcile_file_Inr [OF step]
  have same: "entry_for known1 ns q = entry_for known ns q" if "q \<in> set pfs" for q
  proof -
    have "file_ref ns q \<noteq> file_ref ns pf" using Cons.prems(2) that by (auto simp: image_iff)
    then show ?thesis using st(2) pf by (simp add: entry_for_def file_ref_def)
  qed
  from Cons.IH [OF rest] Cons.prems(2) st pf same show ?case
    by (auto simp: file_ref_def cong: map_cong)
qed simp

lemma All_known:
  assumes "All (\<lambda>m e. Inr (mput (entry_ref e) e m)) [] fault i = Inr known" "index_ok i"
  shows "known_ok known \<and> (\<forall>ref. mget known ref = map_option (entry_of ref) (mget (i_objects i) ref))"
proof -
  have fold: "all_entries (\<lambda>m e. Inr (mput (entry_ref e) e m)) m es = Inr (foldl (\<lambda>m e. mput (entry_ref e) e m) m es)"
    for m and es :: "Entry list"
    by (induction es arbitrary: m) auto
  have get: "mget (foldl (\<lambda>m e. mput (entry_ref e) e m) m (map (\<lambda>(r, x). entry_of r x) objs)) ref =
      (case mget objs ref of Some x \<Rightarrow> Some (entry_of ref x) | None \<Rightarrow> mget m ref)"
    if "distinct (mkeys objs)" for m objs ref
    using that
  proof (induction objs arbitrary: m)
    case (Cons a objs)
    have "fst a \<notin> set (mkeys objs)" using Cons.prems by simp
    then have "mget objs (fst a) = None" by (rule mget_None_iff [THEN iffD2])
    with Cons show ?case by (cases a) (auto split: option.splits)
  qed simp
  have "known = foldl (\<lambda>m e. mput (entry_ref e) e m) [] (entries i)"
    using assms(1) fold by (auto simp: All_def split: option.splits)
  then have "mget known ref = map_option (entry_of ref) (mget (i_objects i) ref)" for ref
    using get [of "i_objects i" "[]" ref] assms(2) 
    by (cases "mget (i_objects i) ref") (simp_all add: entries_def index_ok_def)
  then show ?thesis by (auto simp: known_ok_def)
qed

lemma Walk_Inr: "Walk visit ns fn st s = Inr st' \<Longrightarrow> walk_fold visit ns fn st (walk_files s ns) = Inr st'"
  by (simp add: Walk_def split: if_splits)

lemma map_disk_files:
  "map (\<lambda>(ns, pf). g ns pf) (disk_files s) =
     map (g NamespaceCAS) (walk_files s NamespaceCAS) @ map (g NamespaceAC) (walk_files s NamespaceAC)"
  by (simp add: disk_files_def comp_def)

text \<open>The result of a successful reconciliation: one row per file that is named like a key, with the
  file's size and, where the index knew the object, its history.\<close>

lemma Reconcile_Inr:
  assumes "Reconcile env s = (Inr res, s')" "s_index s = Some i" "index_ok i"
  obtains i' where "s_index s' = Some i'" "index_ok i'" "s_fs s' = s_fs s" "s_root s' = s_root s"
    "i_closed i' = i_closed i" "i_dbopen i' = i_dbopen i"
    "distinct (map (\<lambda>(ns, pf). file_ref ns pf) (disk_files s))"
    "i_objects i' = map (\<lambda>(ns, pf). (file_ref ns pf,
        row_of (entry_for (map (\<lambda>(r, x). (r, entry_of r x)) (i_objects i)) ns pf))) (disk_files s)"
    "rr_FilesOnDisk res = int (length (disk_files s))"
proof -
  let ?walkC = "walk_files s NamespaceCAS" and ?walkA = "walk_files s NamespaceAC"
  from assms obtain before tot known res0 res1 known1 es1 known2 es2 i1 where
    known: "All (\<lambda>m e. Inr (mput (entry_ref e) e m)) [] (re_all env) i = Inr known" and
    w1: "walk_fold (re_visit env) NamespaceCAS (reconcile_file (re_ctx env))
          (zero_reconcile\<lparr>rr_IndexedBefore := before\<rparr>, known, []) ?walkC = Inr (res0, known1, es1)" and
    w2: "walk_fold (re_visit env) NamespaceAC (reconcile_file (re_ctx env)) (res0, known1, es1) ?walkA =
          Inr (res1, known2, es2)" and
    rep: "ReplaceAll es2 (re_replace env) i = (None, i1)" and
    s': "s' = bump (\<lambda>st. st\<lparr>st_ObjectsStored := rr_FilesOnDisk res1, st_BytesStored := rr_BytesOnDisk res1\<rparr>)
             (s\<lparr>s_index := Some (snd (SetMeta ''reconciled_at'' (re_stamp env) (re_setmeta env) i1))\<rparr>)" and
    res: "res = res1\<lparr>rr_RemovedStale := int (length known2)\<rparr>"
    by (auto simp: Reconcile_def reconcile_walk_def dest!: Walk_Inr split: option.splits sum.splits prod.splits)
  let ?i' = "snd (SetMeta ''reconciled_at'' (re_stamp env) (re_setmeta env) i1)"
  from All_known [OF known assms(3)] have ok: "known_ok known"
    and get: "\<And>ref. mget known ref = map_option (entry_of ref) (mget (i_objects i) ref)" by auto
  note r1 = walk_fold_refs [OF w1 ok]
  then have ok1: "known_ok known1" by simp
  note r2 = walk_fold_refs [OF w2 ok1]
  have i1: "i_objects i1 = map (\<lambda>e. (entry_ref e, row_of e)) es2" and d: "distinct (map entry_ref es2)"
    using ReplaceAll_objects [of es2 "re_replace env" i] rep by simp_all
  have "map entry_ref es2 = map fst (map (\<lambda>e. (entry_ref e, e_size e)) es2)" by (simp add: comp_def)
  also have "\<dots> = map (\<lambda>(ns, pf). file_ref ns pf) (disk_files s)"
    using r1 r2 by (simp add: map_disk_files comp_def)
  finally have refs: "map entry_ref es2 = map (\<lambda>(ns, pf). file_ref ns pf) (disk_files s)" .
  with d have dist: "distinct (map (\<lambda>(ns, pf). file_ref ns pf) (disk_files s))" by simp
  then have dC: "distinct (map (file_ref NamespaceCAS) ?walkC)" and dA: "distinct (map (file_ref NamespaceAC) ?walkA)"
    by (simp_all add: map_disk_files)
  note e1 = walk_fold_entries [OF w1 dC] and e2 = walk_fold_entries [OF w2 dA]
  have "entry_for known1 NamespaceAC pf = entry_for known NamespaceAC pf" for pf
    using e1 by (auto simp: entry_for_def file_ref_def)
  with e1 e2 have es2: "es2 = map (\<lambda>(ns, pf). entry_for known ns pf) (disk_files s)"
    by (simp add: map_disk_files)
  have "mget (map (\<lambda>(r, x). (r, entry_of r x)) objs) ref = map_option (entry_of ref) (mget objs ref)" for ref objs
    by (induction objs) auto
  then have ef: "entry_for (map (\<lambda>(r, x). (r, entry_of r x)) (i_objects i)) = entry_for known"
    by (auto simp: fun_eq_iff entry_for_def get)
  have "i_objects ?i' = map (\<lambda>(ns, pf). (file_ref ns pf,
        row_of (entry_for (map (\<lambda>(r, x). (r, entry_of r x)) (i_objects i)) ns pf))) (disk_files s)"
    unfolding ef using i1 es2 entry_for_sel(1) [OF ok]
    by (simp add: SetMeta_def split_beta comp_def split: option.split)
  moreover have "index_ok i1" using ReplaceAll_index_ok [OF assms(3), of es2 "re_replace env"] rep by simp
  then have "index_ok ?i'" by (simp add: SetMeta_def index_ok_def split: option.split)
  moreover have "i_closed i1 = i_closed i" "i_dbopen i1 = i_dbopen i"
    using rep by (auto simp: ReplaceAll_def Let_def split: option.splits sum.splits tx_fault.splits)
  then have "i_closed ?i' = i_closed i" "i_dbopen ?i' = i_dbopen i"
    by (simp_all add: SetMeta_def split: option.split)
  moreover have "rr_FilesOnDisk res = int (length (disk_files s))"
    using r1 r2 res by (simp add: disk_files_def zero_reconcile_def)
  ultimately show thesis using s' dist by (intro that [of ?i']) simp_all
qed

lemma walk_files_mem:
  "(p, f) \<in> set (walk_files s ns) \<longleftrightarrow>
     (p, f) \<in> set (s_fs s) \<and> below (s_root s @ [ns]) p \<and> f_kind f \<noteq> Directory \<and> valid_key (last p)"
  by (auto simp: walk_files_def)

lemma below_object_path: "below (root @ [ns]) (object_path root ns key)"
  by (simp add: below_def ObjectPath_eq)

lemma last_object_path [simp]: "last (object_path root ns key) = key"
  by (simp add: ObjectPath_eq)

lemma disk_files_mem:
  "(ns, p, f) \<in> set (disk_files s) \<longleftrightarrow> ns_Valid ns \<and> (p, f) \<in> set (walk_files s ns)"
  by (auto simp: disk_files_def ns_Valid_def)

lemma mget_map_pair:
  assumes "distinct (map g xs)"
  shows "mget (map (\<lambda>x. (g x, h x)) xs) k = Some v \<longleftrightarrow> (\<exists>x \<in> set xs. g x = k \<and> h x = v)"
proof -
  have "distinct (mkeys (map (\<lambda>x. (g x, h x)) xs))" using assms by (simp add: comp_def)
  from mget_mem_iff [OF this, of k v] show ?thesis by auto
qed

lemma row_size: "x_size (row_of (entry_for known ns pf)) = int (length (f_data (snd pf)))"
  by (simp add: row_of_def entry_for_def split: option.split)

text \<open>The rows after a reconciliation are the files of the walk.\<close>

lemma Reconcile_sizes:
  assumes "Reconcile env s = (Inr res, s')" "s_index s = Some i" "index_ok i" "s_index s' = Some i'"
  shows "idx_size i' (ns, key) = Some n \<longleftrightarrow>
     (\<exists>p f. (ns, p, f) \<in> set (disk_files s) \<and> last p = key \<and> n = int (length (f_data f)))"
proof -
  let ?row = "\<lambda>nf. row_of (entry_for (map (\<lambda>(r, x). (r, entry_of r x)) (i_objects i)) (fst nf) (snd nf))"
  obtain i2 where i2: "s_index s' = Some i2"
    "distinct (map (\<lambda>(ns, pf). file_ref ns pf) (disk_files s))"
    "i_objects i2 = map (\<lambda>(ns, pf). (file_ref ns pf,
        row_of (entry_for (map (\<lambda>(r, x). (r, entry_of r x)) (i_objects i)) ns pf))) (disk_files s)"
    by (rule Reconcile_Inr [OF assms(1-3)])
  then have objs: "i_objects i' = map (\<lambda>nf. (file_ref (fst nf) (snd nf), ?row nf)) (disk_files s)"
    and d: "distinct (map (\<lambda>nf. file_ref (fst nf) (snd nf)) (disk_files s))"
    using assms(4) by (simp_all add: case_prod_unfold)
  have "idx_size i' (ns, key) = Some n \<longleftrightarrow> (\<exists>x. mget (i_objects i') (ns, key) = Some x \<and> x_size x = n)"
    by (auto simp: idx_size_def)
  also have "\<dots> \<longleftrightarrow> (\<exists>nf \<in> set (disk_files s). file_ref (fst nf) (snd nf) = (ns, key) \<and> x_size (?row nf) = n)"
    unfolding objs using mget_map_pair [OF d, of ?row "(ns, key)"] by auto
  also have "\<dots> \<longleftrightarrow> (\<exists>p f. (ns, p, f) \<in> set (disk_files s) \<and> last p = key \<and> n = int (length (f_data f)))"
    by (force simp: file_ref_def row_size)
  finally show ?thesis .
qed

lemma canonical_disk:
  assumes "canonical s"
  shows "disk_sizes s (ns, key) = Some n \<longleftrightarrow>
     (\<exists>p f. (ns, p, f) \<in> set (disk_files s) \<and> last p = key \<and> n = int (length (f_data f)))"
proof
  have d: "distinct (mkeys (s_fs s))" using assms by (simp add: canonical_def)
  {
    assume "disk_sizes s (ns, key) = Some n"
    then obtain f where f: "ns_Valid ns" "valid_key key" "mget (s_fs s) (object_path (s_root s) ns key) = Some f"
        "f_kind f = Regular" "n = int (length (f_data f))"
      by (auto simp: disk_sizes_def visible_Some)
    then have "(ns, object_path (s_root s) ns key, f) \<in> set (disk_files s)"
      using d by (auto simp: disk_files_mem walk_files_mem below_object_path mget_mem_iff)
    with f show "\<exists>p f. (ns, p, f) \<in> set (disk_files s) \<and> last p = key \<and> n = int (length (f_data f))"
      using last_object_path by blast
  next
    assume "\<exists>p f. (ns, p, f) \<in> set (disk_files s) \<and> last p = key \<and> n = int (length (f_data f))"
    then obtain p f where pf: "ns_Valid ns" "(p, f) \<in> set (walk_files s ns)" "last p = key"
        "n = int (length (f_data f))"
      by (auto simp: disk_files_mem)
    then have "f_kind f = Regular" "p = object_path (s_root s) ns key"
      using assms by (auto simp: canonical_def ns_Valid_def)
    with pf d show "disk_sizes s (ns, key) = Some n"
      by (auto simp: disk_sizes_def visible_Some walk_files_mem mget_mem_iff)
  }
qed

lemma Reconcile_synced:
  assumes "Reconcile env s = (Inr res, s')" "s_index s = Some i" "index_ok i" "idx_alive i" "canonical s"
  shows "store_synced s'"
proof -
  obtain i' where i': "s_index s' = Some i'" "index_ok i'" "s_fs s' = s_fs s" "s_root s' = s_root s"
      "i_closed i' = i_closed i" "i_dbopen i' = i_dbopen i"
    by (rule Reconcile_Inr [OF assms(1-3)])
  have "idx_size i' ref = disk_sizes s ref" for ref
  proof -
    obtain ns key where ref: "ref = (ns, key)" by fastforce
    have "idx_size i' ref = Some n \<longleftrightarrow> disk_sizes s ref = Some n" for n
      unfolding ref Reconcile_sizes [OF assms(1-3) i'(1)] canonical_disk [OF assms(5)] by (rule refl)
    then show ?thesis by (metis option.exhaust)
  qed
  then have "idx_size i' = disk_sizes s'" using i' by (simp add: fun_eq_iff disk_sizes_def)
  with i' assms(4) show ?thesis
    by (auto simp: store_synced_def idx.synced_def idx_alive_def)
qed

section \<open>Lemmas: opening\<close>

lemma remove_all_None:
  "remove_all rm ps fs = (None, fs') \<Longrightarrow> mget fs' p = (if p \<in> set ps then None else mget fs p)"
  by (induction ps arbitrary: fs) (auto split: option.splits)

lemma remove_all_keys: "remove_all rm ps fs = (r, fs') \<Longrightarrow> distinct (mkeys fs) \<Longrightarrow> distinct (mkeys fs')"
  by (induction ps arbitrary: fs) (auto split: option.splits intro: distinct_mdel)

lemma stale_temps_mem:
  "p \<in> set (stale_temps tmp fs) \<longleftrightarrow> p \<in> set (mkeys fs) \<and> butlast p = tmp \<and> has_prefix (last p) tmpPrefix"
  by (auto simp: stale_temps_def)

lemma sweepTemps_None:
  assumes "sweepTemps rd rm s = (None, s')"
  shows "s_root s' = s_root s" "s_index s' = s_index s"
    "mget (s_fs s') p = (if butlast p = tmpDir s \<and> has_prefix (last p) tmpPrefix then None else mget (s_fs s) p)"
proof -
  from assms obtain fs where fs: "remove_all rm (stale_temps (tmpDir s) (s_fs s)) (s_fs s) = (None, fs)"
      "s' = s\<lparr>s_fs := fs\<rparr>"
    by (auto simp: sweepTemps_def split: option.splits prod.splits)
  then show "s_root s' = s_root s" "s_index s' = s_index s" by simp_all
  show "mget (s_fs s') p = (if butlast p = tmpDir s \<and> has_prefix (last p) tmpPrefix then None else mget (s_fs s) p)"
    using remove_all_None [OF fs(1), of p] fs(2) mget_None_iff [of "s_fs s" p]
    by (auto simp: stale_temps_mem simp del: set_map)
qed

lemma object_path_not_stale:
  "ns_Valid ns \<Longrightarrow> butlast (object_path root ns key) \<noteq> root @ [''tmp'']"
  by (auto simp: ObjectPath_eq butlast_append)

lemma sweepTemps_visible: "sweepTemps rd rm s = (None, s') \<Longrightarrow> objects s' = objects s"
  by (auto simp: visible_def regular_at_def fun_eq_iff sweepTemps_None tmpDir_def object_path_not_stale)

lemma Open_Inr:
  assumes "Open opts env fs tables = Inr s"
  shows "s_root s = op_Root opts" "visible (op_Root opts) (s_fs s) = visible (op_Root opts) fs"
    "\<not> s_closed s"
    "p \<in> set (mkeys (s_fs s)) \<Longrightarrow> \<not> (butlast p = op_Root opts @ [''tmp''] \<and> has_prefix (last p) tmpPrefix)"
proof -
  let ?s0 = "\<lparr>s_root = op_Root opts, s_maxObject = op_MaxObjectBytes opts,
                  s_verifyReads = op_VerifyReads opts, s_dirs = [], s_index = None, s_evictor = False,
                  s_wake = False, s_closed = False, s_dirSyncUnsupported = False, s_fs = fs,
                  s_stats = zero_stats\<rparr>"
  obtain s1 where sw: "sweepTemps (oe_readdir env) (oe_rm env) ?s0 = (None, s1)"
    and eq: "s_fs s = s_fs s1" "s_root s = s_root s1" "s_closed s = s_closed s1"
  proof -
    obtain err s1 where sw: "sweepTemps (oe_readdir env) (oe_rm env) ?s0 = (err, s1)" by fastforce
    have rec: "Reconcile e st = (Inr r, st') \<Longrightarrow> s_fs st' = s_fs st \<and> s_root st' = s_root st \<and> s_closed st' = s_closed st"
      for e st r st'
      by (auto simp: Reconcile_def split: option.splits sum.splits prod.splits)
    from assms sw that show thesis
      by (auto simp: Open_def Let_def dest!: rec split: if_splits option.splits sum.splits prod.splits)
  qed
  note t = sweepTemps_None [OF sw]
  show "s_root s = op_Root opts" using eq t by simp
  show "visible (op_Root opts) (s_fs s) = visible (op_Root opts) fs"
    using sweepTemps_visible [OF sw] eq t by simp
  show "\<not> s_closed s" using eq sw by (auto simp: sweepTemps_def split: option.splits prod.splits)
  show "p \<in> set (mkeys (s_fs s)) \<Longrightarrow> \<not> (butlast p = op_Root opts @ [''tmp''] \<and> has_prefix (last p) tmpPrefix)"
    using t(3) [of p] eq mget_None_iff [of "s_fs s1" p] by (auto simp: tmpDir_def simp del: set_map)
qed

end
