(* ===== verification/CandidateHeap.thy ===== *)
theory CandidateHeap
  imports MetaIndex
begin

text \<open>
  The victim queue of \<^verbatim>\<open>internal/storage/evict.go\<close>: \<^verbatim>\<open>candidateHeap\<close>, a binary heap in a slice, driven
  by the algorithms of Go's \<^verbatim>\<open>container/heap\<close> (\<^verbatim>\<open>Init\<close>, \<^verbatim>\<open>Pop\<close> and their \<^verbatim>\<open>down\<close>), which are written
  out. The locale \<open>min_queue\<close> is what a sweep needs of it: popping yields the remaining element
  with the least score. It is interpreted on the heap.
\<close>

section \<open>The slice heap\<close>

record candidate =
  c_entry :: Entry
  c_score :: int

type_synonym candidateHeap = "candidate list"

definition heap_Less :: "candidateHeap \<Rightarrow> nat \<Rightarrow> nat \<Rightarrow> bool" where
  "heap_Less h i j = (c_score (h ! i) < c_score (h ! j))"

definition heap_Swap :: "candidateHeap \<Rightarrow> nat \<Rightarrow> nat \<Rightarrow> candidateHeap" where
  "heap_Swap h i j = h[i := h ! j, j := h ! i]"

text \<open>\<^verbatim>\<open>heap.down(h, i, n)\<close>: sink the element at \<open>i\<close> within the first \<open>n\<close>, each time below the
  smaller child.\<close>

definition small_child :: "nat \<Rightarrow> nat \<Rightarrow> candidateHeap \<Rightarrow> nat" where
  "small_child i n h =
     (let j1 = 2 * i + 1; j2 = j1 + 1 in if j2 < n \<and> heap_Less h j2 j1 then j2 else j1)"

function heap_down :: "nat \<Rightarrow> nat \<Rightarrow> candidateHeap \<Rightarrow> candidateHeap" where
  "heap_down i n h =
     (if 2 * i + 1 \<ge> n then h
      else let j = small_child i n h in
        if \<not> heap_Less h j i then h else heap_down j n (heap_Swap h i j))"
  by pat_completeness auto
termination
  by (relation "measure (\<lambda>(i, n, h). n - i)") (auto simp: small_child_def Let_def)

declare heap_down.simps [simp del]

text \<open>\<^verbatim>\<open>heap.Init\<close> sinks every inner position, from the last one down to the root.\<close>

fun init_from :: "nat \<Rightarrow> nat \<Rightarrow> candidateHeap \<Rightarrow> candidateHeap" where
  "init_from 0 n h = h"
| "init_from (Suc i) n h = init_from i n (heap_down i n h)"

definition heap_Init :: "candidateHeap \<Rightarrow> candidateHeap" where
  "heap_Init h = init_from (length h div 2) (length h) h"

text \<open>\<^verbatim>\<open>heap.Pop\<close>: the root changes places with the last element, sinks among the others, and
  \<^verbatim>\<open>candidateHeap.Pop\<close> cuts the last element off.\<close>

definition heap_Pop :: "candidateHeap \<Rightarrow> candidate \<times> candidateHeap" where
  "heap_Pop h =
     (let n = length h - 1; h2 = heap_down 0 n (heap_Swap h 0 n) in (h2 ! n, take n h2))"

section \<open>The contract of a victim queue\<close>

locale min_queue =
  fixes build :: "'a list \<Rightarrow> 'q" and pop :: "'q \<Rightarrow> 'a \<times> 'q" and elems :: "'q \<Rightarrow> 'a multiset"
    and ok :: "'q \<Rightarrow> bool" and rank :: "'a \<Rightarrow> 'b :: linorder"
  assumes build_ok: "ok (build xs)" and build_elems: "elems (build xs) = mset xs"
    and pop_law: "ok q \<Longrightarrow> elems q \<noteq> {#} \<Longrightarrow> pop q = (x, q') \<Longrightarrow>
      ok q' \<and> elems q = add_mset x (elems q') \<and> (\<forall>y \<in># elems q'. rank x \<le> rank y)"
begin

text \<open>The first \<open>n\<close> elements that come out.\<close>

primrec drain :: "nat \<Rightarrow> 'q \<Rightarrow> 'a list" where
  "drain 0 q = []"
| "drain (Suc n) q = (case pop q of (x, q') \<Rightarrow> x # drain n q')"

lemma drain_mset: "ok q \<Longrightarrow> n \<le> size (elems q) \<Longrightarrow> mset (drain n q) \<subseteq># elems q \<and> length (drain n q) = n"
proof (induction n arbitrary: q)
  case (Suc n)
  obtain x q' where p: "pop q = (x, q')" by fastforce
  from Suc.prems have "elems q \<noteq> {#}" by auto
  note l = pop_law [OF Suc.prems(1) this p]
  with Suc.prems(2) have "n \<le> size (elems q')" by simp
  with Suc.IH [of q'] l p show ?case by simp
qed simp

lemma drain_sorted:
  "ok q \<Longrightarrow> n \<le> size (elems q) \<Longrightarrow>
     sorted (map rank (drain n q)) \<and> (\<forall>x \<in> set (drain n q). \<forall>y \<in># elems q - mset (drain n q). rank x \<le> rank y)"
proof (induction n arbitrary: q)
  case (Suc n)
  obtain x q' where p: "pop q = (x, q')" by fastforce
  from Suc.prems have "elems q \<noteq> {#}" by auto
  note l = pop_law [OF Suc.prems(1) this p]
  with Suc.prems(2) have n: "n \<le> size (elems q')" by simp
  with Suc.IH [of q'] l have ih: "sorted (map rank (drain n q'))"
    "\<forall>x \<in> set (drain n q'). \<forall>y \<in># elems q' - mset (drain n q'). rank x \<le> rank y" by auto
  have "mset (drain n q') \<subseteq># elems q'" using drain_mset l n by blast
  then have "\<forall>z \<in> set (drain n q'). rank x \<le> rank z" using l by (metis mset_subset_eqD set_mset_mset)
  moreover have "\<forall>y \<in># elems q' - mset (drain n q'). rank x \<le> rank y" using l by (meson in_diffD)
  ultimately show ?case using ih l p by auto
qed simp

lemma drain_all: "mset (drain (length xs) (build xs)) = mset xs \<and> sorted (map rank (drain (length xs) (build xs)))"
proof -
  have s: "length xs \<le> size (elems (build xs))" by (simp add: build_elems)
  have "mset (drain (length xs) (build xs)) \<subseteq># mset xs" "length (drain (length xs) (build xs)) = length xs"
    using drain_mset [OF build_ok s] by (simp_all add: build_elems)
  then have "mset (drain (length xs) (build xs)) = mset xs"
    by (metis size_mset mset_subset_size subset_mset.le_imp_less_or_eq nat_neq_iff)
  with drain_sorted [OF build_ok s] show ?thesis by simp
qed

end

section \<open>Lemmas: the slice heap is such a queue\<close>

text \<open>Every element below \<open>n\<close> whose parent is at \<open>k\<close> or later is not less than its parent; the second
  notion leaves out the children of \<open>i\<close>, which only the parent of \<open>i\<close> bounds.\<close>

definition heap_from :: "nat \<Rightarrow> nat \<Rightarrow> candidateHeap \<Rightarrow> bool" where
  "heap_from k n h \<longleftrightarrow>
     (\<forall>p j. k \<le> p \<and> j < n \<and> (j = 2 * p + 1 \<or> j = 2 * p + 2) \<longrightarrow> c_score (h ! p) \<le> c_score (h ! j))"

definition heap_but :: "nat \<Rightarrow> nat \<Rightarrow> nat \<Rightarrow> candidateHeap \<Rightarrow> bool" where
  "heap_but i k n h \<longleftrightarrow>
     (\<forall>p j. k \<le> p \<and> p \<noteq> i \<and> j < n \<and> (j = 2 * p + 1 \<or> j = 2 * p + 2) \<longrightarrow> c_score (h ! p) \<le> c_score (h ! j)) \<and>
     (\<forall>p j. k \<le> p \<and> (i = 2 * p + 1 \<or> i = 2 * p + 2) \<and> j < n \<and> (j = 2 * i + 1 \<or> j = 2 * i + 2) \<longrightarrow>
        c_score (h ! p) \<le> c_score (h ! j))"

lemma heap_Pop_length: "h \<noteq> [] \<Longrightarrow> (c, h') = heap_Pop h \<Longrightarrow> length h' < length h"
  by (cases h) (auto simp: heap_Pop_def Let_def)

lemma heap_Swap_simps [simp]:
  "length (heap_Swap h i j) = length h"
  "i < length h \<Longrightarrow> j < length h \<Longrightarrow> mset (heap_Swap h i j) = mset h"
  by (simp_all add: heap_Swap_def mset_swap)

lemma heap_Swap_nth:
  "i < length h \<Longrightarrow> j < length h \<Longrightarrow> heap_Swap h i j ! k = (if k = i then h ! j else if k = j then h ! i else h ! k)"
  by (simp add: heap_Swap_def nth_list_update)

lemma small_child:
  assumes "2 * i + 1 < n"
  shows "small_child i n h < n" "i < small_child i n h"
    "small_child i n h = 2 * i + 1 \<or> small_child i n h = 2 * i + 2"
    "j < n \<Longrightarrow> j = 2 * i + 1 \<or> j = 2 * i + 2 \<Longrightarrow> c_score (h ! small_child i n h) \<le> c_score (h ! j)"
  using assms by (auto simp: small_child_def Let_def heap_Less_def)

lemma heap_down_stop: "n \<le> 2 * i + 1 \<or> \<not> heap_Less h (small_child i n h) i \<Longrightarrow> heap_down i n h = h"
  by (subst heap_down.simps) (auto simp: Let_def)

lemma heap_down_step:
  "2 * i + 1 < n \<Longrightarrow> heap_Less h (small_child i n h) i \<Longrightarrow>
     heap_down i n h = heap_down (small_child i n h) n (heap_Swap h i (small_child i n h))"
  by (subst heap_down.simps) (simp add: Let_def)

text \<open>Induction along the path of the sinking element.\<close>

lemma heap_down_induct [case_names stop step]:
  assumes "\<And>i h. n \<le> 2 * i + 1 \<or> \<not> heap_Less h (small_child i n h) i \<Longrightarrow> P i h"
    and "\<And>i h. 2 * i + 1 < n \<Longrightarrow> heap_Less h (small_child i n h) i \<Longrightarrow>
      P (small_child i n h) (heap_Swap h i (small_child i n h)) \<Longrightarrow> P i h"
  shows "P i h"
proof (induction "n - i" arbitrary: i h rule: less_induct)
  case (less i h)
  show ?case
  proof (cases "2 * i + 1 < n \<and> heap_Less h (small_child i n h) i")
    case True
    then have "n - small_child i n h < n - i" using small_child(1,2) [of i n h] by simp
    then show ?thesis using True less assms(2) by blast
  next
    case False
    then show ?thesis using assms(1) by (meson leI)
  qed
qed

lemma heap_down_frame:
  "n \<le> length h \<Longrightarrow> length (heap_down i n h) = length h \<and> mset (heap_down i n h) = mset h \<and>
     (\<forall>k. n \<le> k \<longrightarrow> heap_down i n h ! k = h ! k)"
proof (induction i h rule: heap_down_induct [where n = n])
  case (stop i h)
  then show ?case by (simp add: heap_down_stop)
next
  case (step i h)
  note c = small_child(1,2) [OF step(1), of h]
  with step show ?case by (simp add: heap_down_step heap_Swap_nth)
qed

lemma heap_but_swap:
  assumes "heap_but i k n h" "k \<le> i" "2 * i + 1 < n" "heap_Less h (small_child i n h) i" "n \<le> length h"
  shows "heap_but (small_child i n h) k n (heap_Swap h i (small_child i n h))"
proof -
  define j where "j = small_child i n h"
  have j: "j < n" "i < j" "j = 2 * i + 1 \<or> j = 2 * i + 2" "c_score (h ! j) < c_score (h ! i)"
    "\<And>j'. j' < n \<Longrightarrow> j' = 2 * i + 1 \<or> j' = 2 * i + 2 \<Longrightarrow> c_score (h ! j) \<le> c_score (h ! j')"
    using small_child [OF assms(3), where h = h] assms(4) by (auto simp: j_def heap_Less_def)
  have n: "heap_Swap h i j ! q = (if q = i then h ! j else if q = j then h ! i else h ! q)" for q
    using j assms(5) by (intro heap_Swap_nth) auto
  have a: "c_score (h ! p) \<le> c_score (h ! q)" if "k \<le> p" "p \<noteq> i" "q < n" "q = 2 * p + 1 \<or> q = 2 * p + 2" for p q
    using assms(1) that unfolding heap_but_def by blast
  have b: "c_score (h ! p) \<le> c_score (h ! q)"
    if "k \<le> p" "i = 2 * p + 1 \<or> i = 2 * p + 2" "q < n" "q = 2 * i + 1 \<or> q = 2 * i + 2" for p q
    using assms(1) that unfolding heap_but_def by blast
  have "c_score (heap_Swap h i j ! p) \<le> c_score (heap_Swap h i j ! q)"
    if "k \<le> p" "p \<noteq> j" "q < n" "q = 2 * p + 1 \<or> q = 2 * p + 2" for p q
  proof (cases "p = i")
    case True
    with j(4,5) that show ?thesis by (auto simp: n)
  next
    case False
    show ?thesis
    proof (cases "q = i")
      case True
      with False that b [of p j] j show ?thesis by (auto simp: n)
    next
      case F2: False
      have "q \<noteq> j" using that False j(3) by auto
      with F2 False that a show ?thesis by (simp add: n)
    qed
  qed
  moreover have "c_score (heap_Swap h i j ! p) \<le> c_score (heap_Swap h i j ! q)"
    if "k \<le> p" "j = 2 * p + 1 \<or> j = 2 * p + 2" "q < n" "q = 2 * j + 1 \<or> q = 2 * j + 2" for p q
  proof -
    have "p = i" "q \<noteq> i" "q \<noteq> j" using that j(2,3) by auto
    with a [of j q] that j assms(2) show ?thesis by (simp add: n)
  qed
  ultimately show ?thesis unfolding heap_but_def j_def [symmetric] by blast
qed

lemma heap_down_heap:
  "heap_but i k n h \<Longrightarrow> k \<le> i \<Longrightarrow> n \<le> length h \<Longrightarrow> heap_from k n (heap_down i n h)"
proof (induction i h rule: heap_down_induct [where n = n])
  case (stop i h)
  have "c_score (h ! p) \<le> c_score (h ! j)" if "k \<le> p" "j < n" "j = 2 * p + 1 \<or> j = 2 * p + 2" for p j
  proof (cases "p = i")
    case True
    with that have n: "2 * i + 1 < n" by auto
    with stop(1) have "c_score (h ! i) \<le> c_score (h ! small_child i n h)" by (auto simp: heap_Less_def)
    with small_child(4) [OF n, of j h] that True show ?thesis by simp
  next
    case False
    with stop(2) that show ?thesis unfolding heap_but_def by blast
  qed
  then have "heap_from k n h" unfolding heap_from_def by blast
  with stop(1) show ?case by (simp add: heap_down_stop)
next
  case (step i h)
  have "k \<le> small_child i n h" using small_child(2) [OF step(1), of h] step(5) by simp
  with step heap_but_swap [OF step(4,5,1,2,6)] show ?case by (simp add: heap_down_step)
qed

lemma init_from_heap:
  "heap_from i n h \<Longrightarrow> n \<le> length h \<Longrightarrow>
     heap_from 0 n (init_from i n h) \<and> mset (init_from i n h) = mset h \<and> length (init_from i n h) = length h"
proof (induction i n h rule: init_from.induct)
  case (2 i n h)
  have "heap_but i i n h"
    using "2.prems"(1) unfolding heap_but_def heap_from_def by (auto simp: Suc_le_eq)
  then have "heap_from i n (heap_down i n h)" using "2.prems"(2) by (intro heap_down_heap) auto
  with "2.IH" heap_down_frame [OF "2.prems"(2), of i] "2.prems"(2) show ?case by simp
qed simp

lemma heap_Init_heap: "heap_from 0 (length h) (heap_Init h)" "mset (heap_Init h) = mset h" "length (heap_Init h) = length h"
proof -
  have "heap_from (length h div 2) (length h) h" by (auto simp: heap_from_def)
  from init_from_heap [OF this] show "heap_from 0 (length h) (heap_Init h)" "mset (heap_Init h) = mset h"
    "length (heap_Init h) = length h" by (simp_all add: heap_Init_def)
qed

text \<open>The root of a heap is a least element.\<close>

lemma heap_root: "heap_from 0 n h \<Longrightarrow> j < n \<Longrightarrow> c_score (h ! 0) \<le> c_score (h ! j)"
proof (induction j rule: less_induct)
  case (less j)
  show ?case
  proof (cases "j = 0")
    case False
    let ?p = "(j - 1) div 2"
    have p: "?p < j" "j = 2 * ?p + 1 \<or> j = 2 * ?p + 2" using False by auto
    with less.prems have "c_score (h ! ?p) \<le> c_score (h ! j)" unfolding heap_from_def by blast
    moreover have "c_score (h ! 0) \<le> c_score (h ! ?p)" using less p by simp
    ultimately show ?thesis by simp
  qed simp
qed

lemma heap_from_take: "heap_from 0 n h \<Longrightarrow> n \<le> length h \<Longrightarrow> heap_from 0 n (take n h)"
  by (auto simp: heap_from_def)

lemma heap_Pop_law:
  assumes "heap_from 0 (length h) h" "h \<noteq> []" "heap_Pop h = (c, h')"
  shows "heap_from 0 (length h') h'" "mset h = add_mset c (mset h')" "\<forall>y \<in> set h'. c_score c \<le> c_score y"
    "length h = Suc (length h')"
proof -
  define n where "n = length h - 1"
  define h1 where "h1 = heap_Swap h 0 n"
  define h2 where "h2 = heap_down 0 n h1"
  have n: "length h = Suc n" using assms(2) by (cases h) (auto simp: n_def)
  have l1: "length h1 = Suc n" "mset h1 = mset h" using n by (simp_all add: h1_def)
  have nth1: "h1 ! q = (if q = 0 then h ! n else if q = n then h ! 0 else h ! q)" for q
    unfolding h1_def using n by (intro heap_Swap_nth) auto
  have "h1 ! n = h ! 0" by (cases "n = 0") (simp_all add: nth1)
  have "heap_but 0 0 n h1"
  proof -
    have "c_score (h1 ! p) \<le> c_score (h1 ! j)" if "p \<noteq> 0" "j < n" "j = 2 * p + 1 \<or> j = 2 * p + 2" for p j
    proof -
      have "p < n" "j \<noteq> 0" using that by auto
      moreover have "c_score (h ! p) \<le> c_score (h ! j)"
        using assms(1) that n unfolding heap_from_def by auto
      ultimately show ?thesis using that by (simp add: nth1)
    qed
    then show ?thesis unfolding heap_but_def by auto
  qed
  then have hp: "heap_from 0 n h2" unfolding h2_def using l1 by (intro heap_down_heap) auto
  have fr: "length h2 = Suc n" "mset h2 = mset h" "h2 ! n = h ! 0"
    using heap_down_frame [of n h1 0] l1 \<open>h1 ! n = h ! 0\<close> by (simp_all add: h2_def)
  have c: "c = h2 ! n" "h' = take n h2" using assms(3) by (simp_all add: heap_Pop_def Let_def h2_def h1_def n_def)
  have "h2 = take n h2 @ [h2 ! n]" using fr(1) by (metis lessI order_refl take_Suc_conv_app_nth take_all)
  then have m: "mset h2 = add_mset c (mset h')" unfolding c by (metis mset_append mset_single_iff union_mset_add_mset_right
      add.right_neutral mset.simps(1) mset.simps(2))
  then show "mset h = add_mset c (mset h')" using fr by simp
  have "\<forall>y \<in> set h. c_score (h ! 0) \<le> c_score y"
    using heap_root [OF assms(1)] by (auto simp: in_set_conv_nth)
  moreover have "set h' \<subseteq> set h" using m fr(2) by (metis set_mset_mset set_mset_add_mset_insert subset_insertI)
  ultimately show "\<forall>y \<in> set h'. c_score c \<le> c_score y" using c fr(3) by auto
  show "length h = Suc (length h')" using n c fr by simp
  show "heap_from 0 (length h') h'" using heap_from_take [OF hp] c fr by simp
qed

interpretation hq: min_queue heap_Init heap_Pop mset "\<lambda>h. heap_from 0 (length h) h" c_score
  using heap_Init_heap heap_Pop_law by unfold_locales auto

end
