(* ===== verification/Evictor.thy ===== *)
theory Evictor
  imports ObjectStore CandidateHeap Float64
begin

text \<open>
  \<^verbatim>\<open>internal/storage/evict.go\<close>: the quota, the score of an object and the sweep that drains a node from
  its high to its low water mark. \<^verbatim>\<open>math.Log2\<close> and the conversion of an out-of-range double to
  \<^verbatim>\<open>int64\<close>, which Go leaves to the platform, are the parameters of \<open>float_env\<close>. The outer loop of a
  sweep need not end, so it is a partial function: \<open>None\<close> is a sweep that runs for ever.

  The evictor's wake-up channel, with room for one request, is the field \<open>s_wake\<close> of the store it is
  attached to.
\<close>

section \<open>Scores and quotas\<close>

record float_env =
  fe_log2 :: "f64 \<Rightarrow> f64"
  fe_ovf :: "f64 \<Rightarrow> int"

text \<open>\<^verbatim>\<open>int64\<close> arithmetic wraps.\<close>

definition wrap64 :: "int \<Rightarrow> int" where
  "wrap64 x = (x + 2 ^ 63) mod 2 ^ 64 - 2 ^ 63"

record EvictionPolicy =
  ep_SizeWeight :: int
  ep_SizeUnit :: int

definition DefaultEvictionPolicy :: EvictionPolicy where
  "DefaultEvictionPolicy = \<lparr>ep_SizeWeight = 3600 * 10 ^ 9, ep_SizeUnit = 64 * 1024\<rparr>"

definition Score :: "float_env \<Rightarrow> EvictionPolicy \<Rightarrow> Entry \<Rightarrow> int" where
  "Score fe p e =
     (let unit = (if ep_SizeUnit p \<le> 0 then 64 * 1024 else ep_SizeUnit p);
          ratio = f64_div (f64_of_int (e_size e)) (f64_of_int unit);
          penalty = f64_mul (fe_log2 fe (f64_add (Fin 1) ratio)) (f64_of_int (ep_SizeWeight p))
      in wrap64 (e_access e - f64_to_int64 (fe_ovf fe) penalty))"

record Quota =
  q_MaxBytes :: int
  q_HighWater :: f64
  q_LowWater :: f64

definition quota_Valid :: "Quota \<Rightarrow> go_error option" where
  "quota_Valid q =
     (if q_MaxBytes q \<le> 0 then Some (NewError ''quota: max bytes must be positive'')
      else if f64_le (q_HighWater q) (Fin 0) \<or> f64_lt (Fin 1) (q_HighWater q)
      then Some (NewError ''quota: high water must be in (0,1]'')
      else if f64_le (q_LowWater q) (Fin 0) \<or> f64_le (q_HighWater q) (q_LowWater q)
      then Some (NewError ''quota: low water must be in (0,high)'')
      else None)"

definition HighBytes :: "float_env \<Rightarrow> Quota \<Rightarrow> int" where
  "HighBytes fe q = f64_to_int64 (fe_ovf fe) (f64_mul (f64_of_int (q_MaxBytes q)) (q_HighWater q))"

definition LowBytes :: "float_env \<Rightarrow> Quota \<Rightarrow> int" where
  "LowBytes fe q = f64_to_int64 (fe_ovf fe) (f64_mul (f64_of_int (q_MaxBytes q)) (q_LowWater q))"

section \<open>The evictor\<close>

record EvictorStats =
  es_Sweeps :: int
  es_Evicted :: int
  es_BytesReclaimed :: int
  es_Failures :: int
  es_Overshoot :: int

record Evictor =
  ev_quota :: Quota
  ev_policy :: EvictionPolicy
  ev_batchSize :: int
  ev_closed :: bool
  ev_done :: bool
  ev_stats :: EvictorStats

definition ev_bump :: "(EvictorStats \<Rightarrow> EvictorStats) \<Rightarrow> Evictor \<Rightarrow> Evictor" where
  "ev_bump f ev = ev\<lparr>ev_stats := f (ev_stats ev)\<rparr>"

definition defaultEvictBatch :: int where
  "defaultEvictBatch = 512"

text \<open>\<open>hasStore\<close> and \<open>hasIndex\<close> say that the two pointers of the options are not nil.\<close>

definition NewEvictor :: "bool \<Rightarrow> bool \<Rightarrow> Quota \<Rightarrow> EvictionPolicy \<Rightarrow> int \<Rightarrow> Evictor result" where
  "NewEvictor hasStore hasIndex quota policy batchSize =
     (if \<not> hasStore \<or> \<not> hasIndex then Inl (NewError ''evictor: store and index are required'')
      else case quota_Valid quota of
        Some e \<Rightarrow> Inl e
      | None \<Rightarrow>
          Inr \<lparr>ev_quota = quota,
               ev_policy = (if ep_SizeUnit policy = 0 \<and> ep_SizeWeight policy = 0 then DefaultEvictionPolicy else policy),
               ev_batchSize = (if batchSize \<le> 0 then defaultEvictBatch else batchSize),
               ev_closed = False, ev_done = False,
               ev_stats = \<lparr>es_Sweeps = 0, es_Evicted = 0, es_BytesReclaimed = 0, es_Failures = 0, es_Overshoot = 0\<rparr>\<rparr>)"

text \<open>\<^verbatim>\<open>Wake\<close> never blocks: a request that finds one queued is dropped.\<close>

definition Wake :: "Store \<Rightarrow> Store" where
  "Wake s = s\<lparr>s_wake := True\<rparr>"

definition ev_Close :: "Evictor \<Rightarrow> Evictor" where
  "ev_Close ev = ev\<lparr>ev_closed := True\<rparr>"

section \<open>One batch of a sweep\<close>

text \<open>
  What the environment does in a sweep: faults of the flush and of the totals query, and in the
  round \<open>k\<close> of the loop the state of the context, a fault of the query for the coldest rows, the
  errors of \<^verbatim>\<open>os.Stat\<close> and \<^verbatim>\<open>os.Remove\<close> on each victim, and a fault of the batch removal.
\<close>

record sweep_env =
  sw_flush :: "tx_fault option"
  sw_totals :: "go_error option"
  sw_ctx :: "nat \<Rightarrow> go_error option"
  sw_coldest :: "nat \<Rightarrow> go_error option"
  sw_stat :: "nat \<Rightarrow> objRef \<Rightarrow> go_error option"
  sw_rm :: "nat \<Rightarrow> objRef \<Rightarrow> go_error option"
  sw_remove :: "nat \<Rightarrow> tx_fault option"

record sweep_acc =
  sa_store :: Store
  sa_ev :: Evictor
  sa_refs :: "objRef list"
  sa_evicted :: int
  sa_freed :: int
  sa_progressed :: bool

definition evict_failed :: "Store \<Rightarrow> sweep_acc \<Rightarrow> sweep_acc" where
  "evict_failed s a = a\<lparr>sa_store := s, sa_ev := ev_bump (\<lambda>st. st\<lparr>es_Failures := es_Failures st + 1\<rparr>) (sa_ev a)\<rparr>"

definition evict_one :: "Entry \<Rightarrow> Store \<Rightarrow> sweep_acc \<Rightarrow> sweep_acc" where
  "evict_one e s a = a\<lparr>sa_store := s, sa_refs := sa_refs a @ [entry_ref e], sa_evicted := sa_evicted a + 1,
     sa_freed := sa_freed a + e_size e, sa_progressed := True\<rparr>"

text \<open>The inner loop: pop victims and unlink their files until enough is freed or none is left.\<close>

function evict_loop :: "sweep_env \<Rightarrow> nat \<Rightarrow> int \<Rightarrow> candidateHeap \<Rightarrow> sweep_acc \<Rightarrow> sweep_acc" where
  "evict_loop env k mustFree h a =
     (if h = [] \<or> \<not> sa_freed a < mustFree then a
      else case heap_Pop h of (c, h') \<Rightarrow>
        let e = c_entry c in
        (case DeleteFile (e_ns e) (e_key e) (sw_stat env k (entry_ref e)) (sw_rm env k (entry_ref e)) (sa_store a) of
           (Inl err, s') \<Rightarrow> evict_loop env k mustFree h' (evict_failed s' a)
         | (Inr n, s') \<Rightarrow> evict_loop env k mustFree h' (evict_one e s' a)))"
  by pat_completeness auto

termination
  by (relation "measure (\<lambda>(env, k, m, h, a). length h)") (auto intro: heap_Pop_length)

declare evict_loop.simps [simp del]

definition rank_batch :: "float_env \<Rightarrow> Evictor \<Rightarrow> Entry list \<Rightarrow> candidateHeap" where
  "rank_batch fe ev batch = heap_Init (map (\<lambda>e. \<lparr>c_entry = e, c_score = Score fe (ev_policy ev) e\<rparr>) batch)"

text \<open>The index rows of the unlinked files, in one transaction.\<close>

definition clear_rows :: "tx_fault option \<Rightarrow> objRef list \<Rightarrow> Evictor \<times> Store \<Rightarrow> Evictor \<times> Store" where
  "clear_rows fault refs = (\<lambda>(ev, s).
     case s_index s of
       None \<Rightarrow> (ev, s)
     | Some i \<Rightarrow>
         if refs = [] then (ev, s)
         else case RemoveBatch refs fault i of
                (Some e, i') \<Rightarrow> (ev_bump (\<lambda>st. st\<lparr>es_Failures := es_Failures st + 1\<rparr>) ev, s\<lparr>s_index := Some i'\<rparr>)
              | (None, i') \<Rightarrow> (ev, s\<lparr>s_index := Some i'\<rparr>))"

definition sweep_round ::
  "float_env \<Rightarrow> sweep_env \<Rightarrow> nat \<Rightarrow> int \<Rightarrow> Entry list \<Rightarrow> Evictor \<Rightarrow> Store \<Rightarrow> int \<Rightarrow> int \<Rightarrow> bool \<times> Evictor \<times> Store \<times> int \<times> int" where
  "sweep_round fe env k mustFree batch ev s evicted freed =
     (let a = evict_loop env k mustFree (rank_batch fe ev batch)
                \<lparr>sa_store = s, sa_ev = ev, sa_refs = [], sa_evicted = evicted, sa_freed = freed, sa_progressed = False\<rparr>
      in case clear_rows (sw_remove env k) (sa_refs a) (sa_ev a, sa_store a) of
           (ev', s') \<Rightarrow> (sa_progressed a, ev', s', sa_evicted a, sa_freed a))"

section \<open>The sweep\<close>

text \<open>
  The outer loop, from round \<open>k\<close> on: the error it returns with, if any, the evictor, the store, and
  what was evicted. An evictor always has an index (\<^verbatim>\<open>NewEvictor\<close> refuses nil), so the branch
  without one is not taken.
\<close>

definition overshoot :: "Evictor \<Rightarrow> Evictor" where
  "overshoot ev = ev_bump (\<lambda>st. st\<lparr>es_Overshoot := es_Overshoot st + 1\<rparr>) ev"

partial_function (option) sweep_loop ::
  "float_env \<Rightarrow> sweep_env \<Rightarrow> int \<Rightarrow> nat \<Rightarrow> Evictor \<Rightarrow> Store \<Rightarrow> int \<Rightarrow> int \<Rightarrow>
     (go_error option \<times> Evictor \<times> Store \<times> int \<times> int) option" where
  "sweep_loop fe env mustFree k ev s evicted freed =
     (if \<not> freed < mustFree then Some (None, ev, s, evicted, freed)
      else case sw_ctx env k of
        Some e \<Rightarrow> Some (Some e, ev, s, evicted, freed)
      | None \<Rightarrow>
     (case s_index s of
        None \<Rightarrow> Some (Some (NewError ''evictor: store and index are required''), ev, s, evicted, freed)
      | Some i \<Rightarrow>
     (case ColdestN (ev_batchSize ev) (sw_coldest env k) i of
        Inl e \<Rightarrow> Some (Some e, ev, s, evicted, freed)
      | Inr batch \<Rightarrow>
          if batch = [] then Some (None, overshoot ev, s, evicted, freed)
          else case sweep_round fe env k mustFree batch ev s evicted freed of
            (progressed, ev', s', evicted', freed') \<Rightarrow>
              if \<not> progressed then Some (None, overshoot ev', s', evicted', freed')
              else sweep_loop fe env mustFree (Suc k) ev' s' evicted' freed')))"

definition Sweep ::
  "float_env \<Rightarrow> sweep_env \<Rightarrow> Evictor \<Rightarrow> Store \<Rightarrow> ((int \<times> int \<times> go_error option) \<times> Evictor \<times> Store) option" where
  "Sweep fe env ev s =
     (if ev_closed ev then Some ((0, 0, Some ErrClosed), ev, s)
      else case s_index s of
        None \<Rightarrow> Some ((0, 0, Some (NewError ''evictor: store and index are required'')), ev, s)
      | Some i \<Rightarrow>
     (case FlushTouches (sw_flush env) i of
        (Some e, i1) \<Rightarrow> Some ((0, 0, Some (Wrapped ''flush touches before sweep'' e)), ev, s\<lparr>s_index := Some i1\<rparr>)
      | (None, i1) \<Rightarrow>
        let s1 = s\<lparr>s_index := Some i1\<rparr> in
     (case Totals (sw_totals env) i1 of
        Inl e \<Rightarrow> Some ((0, 0, Some e), ev, s1)
      | Inr (_, used) \<Rightarrow>
          if used \<le> HighBytes fe (ev_quota ev) then Some ((0, 0, None), ev, s1)
          else let ev1 = ev_bump (\<lambda>st. st\<lparr>es_Sweeps := es_Sweeps st + 1\<rparr>) ev;
                   mustFree = wrap64 (used - LowBytes fe (ev_quota ev)) in
            case sweep_loop fe env mustFree 0 ev1 s1 0 0 of
              None \<Rightarrow> None
            | Some (Some e, ev2, s2, evicted, freed) \<Rightarrow> Some ((evicted, freed, Some e), ev2, s2)
            | Some (None, ev2, s2, evicted, freed) \<Rightarrow>
                Some ((evicted, freed, None),
                      ev_bump (\<lambda>st. st\<lparr>es_Evicted := es_Evicted st + evicted,
                                       es_BytesReclaimed := es_BytesReclaimed st + freed\<rparr>) ev2, s2))))"

definition sweepLogged :: "float_env \<Rightarrow> sweep_env \<Rightarrow> Evictor \<Rightarrow> Store \<Rightarrow> (Evictor \<times> Store) option" where
  "sweepLogged fe env ev s =
     (case Sweep fe env ev s of
        None \<Rightarrow> None
      | Some ((n, freed, Some e), ev', s') \<Rightarrow> Some (ev_bump (\<lambda>st. st\<lparr>es_Failures := es_Failures st + 1\<rparr>) ev', s')
      | Some ((n, freed, None), ev', s') \<Rightarrow> Some (ev', s'))"

text \<open>
  One turn of the loop of \<^verbatim>\<open>Run\<close> at a ready channel. Receiving from \<^verbatim>\<open>wake\<close> empties it before the sweep
  starts, so a write during the sweep queues another one. A cancelled context ends the loop, which
  closes \<^verbatim>\<open>done\<close>.
\<close>

datatype run_event = CtxDone | WakeReady | TickerReady

fun run_turn :: "float_env \<Rightarrow> sweep_env \<Rightarrow> run_event \<Rightarrow> Evictor \<Rightarrow> Store \<Rightarrow> (Evictor \<times> Store) option" where
  "run_turn fe env CtxDone ev s = Some (ev\<lparr>ev_done := True\<rparr>, s)"
| "run_turn fe env WakeReady ev s = sweepLogged fe env ev (s\<lparr>s_wake := False\<rparr>)"
| "run_turn fe env TickerReady ev s = sweepLogged fe env ev s"

section \<open>The contract between the evictor and the index\<close>

text \<open>
  What a sweep relies on: only an empty index has no coldest rows, and removing rows of a batch takes
  exactly their sizes and their number off the totals. Then rounds of removals account for every
  byte, there can be only as many as there are rows, and while the usage is above the target a
  round finds something to remove.
\<close>

locale evictable =
  fixes used :: "'s \<Rightarrow> int" and rows :: "'s \<Rightarrow> nat" and coldest :: "nat \<Rightarrow> 's \<Rightarrow> Entry list"
    and remove :: "objRef list \<Rightarrow> 's \<Rightarrow> 's" and ok :: "'s \<Rightarrow> bool"
  assumes coldest_empty: "ok s \<Longrightarrow> 0 < n \<Longrightarrow> coldest n s = [] \<Longrightarrow> used s = 0"
    and remove_ok: "ok s \<Longrightarrow> mset es \<subseteq># mset (coldest n s) \<Longrightarrow> ok (remove (map entry_ref es) s)"
    and remove_used: "ok s \<Longrightarrow> mset es \<subseteq># mset (coldest n s) \<Longrightarrow>
      used (remove (map entry_ref es) s) + sum_list (map e_size es) = used s"
    and remove_rows: "ok s \<Longrightarrow> mset es \<subseteq># mset (coldest n s) \<Longrightarrow>
      rows (remove (map entry_ref es) s) + length es = rows s"
begin

inductive evicts :: "nat \<Rightarrow> 's \<Rightarrow> Entry list \<Rightarrow> 's \<Rightarrow> bool" for n where
  evicts_none: "evicts n s [] s"
| evicts_round: "mset es \<subseteq># mset (coldest n s) \<Longrightarrow> evicts n (remove (map entry_ref es) s) fs s' \<Longrightarrow>
    evicts n s (es @ fs) s'"

lemma evicts_account:
  "evicts n s es s' \<Longrightarrow> ok s \<Longrightarrow> ok s' \<and> used s' + sum_list (map e_size es) = used s \<and> rows s' + length es = rows s"
proof (induction rule: evicts.induct)
  case (evicts_round es s fs s')
  with remove_ok [OF evicts_round.prems evicts_round.hyps(1)] remove_used [OF evicts_round.prems evicts_round.hyps(1)]
    remove_rows [OF evicts_round.prems evicts_round.hyps(1)]
  show ?case by auto
qed simp

lemma above_target_not_empty: "ok s \<Longrightarrow> 0 < n \<Longrightarrow> 0 \<le> target \<Longrightarrow> target < used s \<Longrightarrow> coldest n s \<noteq> []"
  using coldest_empty by fastforce

lemma round_shrinks:
  "ok s \<Longrightarrow> mset es \<subseteq># mset (coldest n s) \<Longrightarrow> es \<noteq> [] \<Longrightarrow> rows (remove (map entry_ref es) s) < rows s"
  using remove_rows [of s es n] by (cases es) auto

end

section \<open>Lemmas: the index honours the contract\<close>

definition idx_rows :: "Index \<Rightarrow> nat" where
  "idx_rows i = length (i_objects i)"

text \<open>The batch of a query that does not fail.\<close>

definition coldest_batch :: "nat \<Rightarrow> Index \<Rightarrow> Entry list" where
  "coldest_batch n i = take n (sort_key e_access (entries i))"

definition remove_rows_of :: "objRef list \<Rightarrow> Index \<Rightarrow> Index" where
  "remove_rows_of refs i = snd (RemoveBatch refs None i)"

definition idx_live :: "Index \<Rightarrow> bool" where
  "idx_live i \<longleftrightarrow> index_ok i \<and> idx_alive i"

lemma ColdestN_batch: "idx_alive i \<Longrightarrow> 0 < n \<Longrightarrow> ColdestN n None i = Inr (coldest_batch (nat n) i)"
  by (simp add: ColdestN_ok coldest_batch_def idx_alive_def)

lemma RemoveBatch_alive:
  "idx_alive i \<Longrightarrow> RemoveBatch refs None i = (None, remove_rows_of refs i)"
  by (auto simp: RemoveBatch_def remove_rows_of_def idx_alive_def Let_def tx_err_def tx_fault_of_def drop_pending_def)

lemma remove_rows_objects:
  "idx_alive i \<Longrightarrow> i_objects (remove_rows_of refs i) = foldl (\<lambda>m r. mdel r m) (i_objects i) refs"
  by (auto simp: RemoveBatch_def remove_rows_of_def idx_alive_def Let_def tx_err_def tx_fault_of_def drop_pending_def)

lemma distinct_submset:
  assumes "mset xs \<subseteq># mset ys" "distinct ys"
  shows "distinct xs"
proof -
  obtain zs where "mset ys = mset (xs @ zs)"
    using assms(1) by (metis ex_mset mset_append mset_subset_eq_exists_conv)
  then have "distinct (xs @ zs)" using assms(2) mset_eq_imp_distinct_iff by blast
  then show ?thesis by simp
qed

lemma coldest_entries:
  assumes "mset es \<subseteq># mset (coldest_batch n i)" "index_ok i"
  shows "set es \<subseteq> set (entries i)" "distinct (map entry_ref es)"
proof -
  have sub: "mset es \<subseteq># mset (entries i)"
    using assms(1) by (metis append_take_drop_id coldest_batch_def mset_append mset_sort mset_subset_eq_add_left
        subset_mset.order_trans)
  then show "set es \<subseteq> set (entries i)" by (metis mset_subset_eqD set_mset_mset subsetI)
  have "mset (map entry_ref es) \<subseteq># mset (mkeys (i_objects i))"
    using image_mset_subseteq_mono [OF sub, of entry_ref] by (simp add: entries_refs [symmetric])
  moreover have "distinct (mkeys (i_objects i))" using assms(2) by (simp add: index_ok_def)
  ultimately show "distinct (map entry_ref es)"
    by (rule distinct_submset)
qed

lemma remove_entries_account:
  assumes "distinct (mkeys objs)" "distinct (map entry_ref es)"
    "\<And>e. e \<in> set es \<Longrightarrow> \<exists>x. mget objs (entry_ref e) = Some x \<and> x_size x = e_size e"
  shows "sum_list (map (\<lambda>(r, x). x_size x) (foldl (\<lambda>m r. mdel r m) objs (map entry_ref es))) + sum_list (map e_size es) =
      sum_list (map (\<lambda>(r, x). x_size x) objs) \<and>
    length (foldl (\<lambda>m r. mdel r m) objs (map entry_ref es)) + length es = length objs"
  using assms
proof (induction es arbitrary: objs)
  case (Cons e es)
  obtain x where x: "mget objs (entry_ref e) = Some x" "x_size x = e_size e" using Cons.prems(3) by auto
  have m: "mset objs = add_mset (entry_ref e, x) (mset (mdel (entry_ref e) objs))"
    using mset_mdel [OF Cons.prems(1) x(1)] .
  have "sum_list (map (\<lambda>(r, x). x_size x) objs) = e_size e + sum_list (map (\<lambda>(r, x). x_size x) (mdel (entry_ref e) objs))"
    using arg_cong [OF m, of "\<lambda>M. sum_mset (image_mset (\<lambda>(r, x). x_size x) M)"] x(2)
    by (simp flip: sum_mset_sum_list mset_map)
  moreover have "length objs = Suc (length (mdel (entry_ref e) objs))" using arg_cong [OF m, of size] by simp
  moreover have "\<exists>x. mget (mdel (entry_ref e) objs) (entry_ref e') = Some x \<and> x_size x = e_size e'"
    if "e' \<in> set es" for e'
  proof -
    have "entry_ref e' \<noteq> entry_ref e" using that Cons.prems(2) by (metis distinct.simps(2) image_eqI list.set_map list.simps(9))
    with Cons.prems(3) [of e'] that show ?thesis by simp
  qed
  ultimately show ?case
    using Cons.IH [of "mdel (entry_ref e) objs"] Cons.prems(1,2) by (simp add: distinct_mdel)
qed simp

lemma idx_live_remove: "idx_live i \<Longrightarrow> idx_live (remove_rows_of refs i)"
  using index_ok_ops [of i] by (auto simp: idx_live_def remove_rows_of_def)

lemma remove_rows_account:
  assumes "idx_live i" "mset es \<subseteq># mset (coldest_batch n i)"
  shows "idx_total (remove_rows_of (map entry_ref es) i) + sum_list (map e_size es) = idx_total i"
    "idx_rows (remove_rows_of (map entry_ref es) i) + length es = idx_rows i"
proof -
  have ok: "index_ok i" "idx_alive i" using assms(1) by (simp_all add: idx_live_def)
  note c = coldest_entries [OF assms(2) ok(1)]
  have "\<exists>x. mget (i_objects i) (entry_ref e) = Some x \<and> x_size x = e_size e" if "e \<in> set es" for e
    using that c(1) entries_mget [OF ok(1), of e] by (metis entry_ref_of(2) in_mono)
  with remove_entries_account [OF _ c(2), of "i_objects i"] ok
  show "idx_total (remove_rows_of (map entry_ref es) i) + sum_list (map e_size es) = idx_total i"
    "idx_rows (remove_rows_of (map entry_ref es) i) + length es = idx_rows i"
    by (auto simp: idx_total_def idx_rows_def remove_rows_objects index_ok_def)
qed

interpretation eix: evictable idx_total idx_rows coldest_batch remove_rows_of idx_live
proof
  fix s :: Index and n :: nat
  assume "idx_live s" "0 < n" "coldest_batch n s = []"
  then have "entries s = []" by (simp add: coldest_batch_def) (metis length_0_conv length_sort)
  then show "idx_total s = 0" by (simp add: entries_def idx_total_def)
qed (auto simp: idx_live_remove remove_rows_account)

section \<open>Lemmas: one batch\<close>

text \<open>What evicting the entries \<open>vs\<close> does to the state of a sweep.\<close>

definition evicted :: "Entry list \<Rightarrow> sweep_acc \<Rightarrow> sweep_acc \<Rightarrow> bool" where
  "evicted vs a a' \<longleftrightarrow>
     sa_refs a' = sa_refs a @ map entry_ref vs \<and> sa_evicted a' = sa_evicted a + int (length vs) \<and>
     sa_freed a' = sa_freed a + sum_list (map e_size vs) \<and> sa_progressed a' = (sa_progressed a \<or> vs \<noteq> []) \<and>
     objects (sa_store a') = objects (sa_store a) |` (- set (map entry_ref vs)) \<and>
     s_index (sa_store a') = s_index (sa_store a) \<and> s_root (sa_store a') = s_root (sa_store a) \<and>
     (\<exists>st. sa_ev a' = (sa_ev a)\<lparr>ev_stats := st\<rparr>)"

lemma restrict_map_top [simp]: "m |` UNIV = m"
  by (simp add: restrict_map_def)

lemma upd_None_restrict: "m(k := None) = m |` (- {k})"
  by (auto simp: restrict_map_def)

lemma restrict_restrict_compl: "m |` (- A) |` (- B) = m |` (- (A \<union> B))"
  by (auto simp: restrict_map_def)

lemma evicted_trans:
  assumes "evicted vs a b" "evicted ws b c"
  shows "evicted (vs @ ws) a c"
proof -
  note ab = assms(1) [unfolded evicted_def] and bc = assms(2) [unfolded evicted_def]
  have "objects (sa_store c) = objects (sa_store a) |` (- set (map entry_ref vs)) |` (- set (map entry_ref ws))"
    using ab bc by metis
  also have "\<dots> = objects (sa_store a) |` (- set (map entry_ref (vs @ ws)))"
    by (simp only: restrict_restrict_compl map_append set_append)
  finally have o: "objects (sa_store c) = objects (sa_store a) |` (- set (map entry_ref (vs @ ws)))" .
  obtain st st' where "sa_ev b = (sa_ev a)\<lparr>ev_stats := st\<rparr>" "sa_ev c = (sa_ev b)\<lparr>ev_stats := st'\<rparr>"
    using ab bc by blast
  then have "\<exists>st. sa_ev c = (sa_ev a)\<lparr>ev_stats := st\<rparr>" by auto
  with ab bc o show ?thesis unfolding evicted_def by simp
qed

lemma evicted_refl: "evicted [] a a"
  unfolding evicted_def by (auto intro: exI [of _ "ev_stats (sa_ev a)"])

lemma evicted_failed:
  assumes "DeleteFile ns key se re (sa_store a) = (Inl err, s')"
  shows "evicted [] a (evict_failed s' a)"
  using DeleteFile_objects(5) [OF assms] by (auto simp: evicted_def evict_failed_def ev_bump_def)

lemma evicted_one:
  assumes "DeleteFile (e_ns e) (e_key e) se re (sa_store a) = (Inr n, s')"
  shows "evicted [e] a (evict_one e s' a)"
  using DeleteFile_objects(1,2) [OF assms] DeleteFile_objects(4) [OF assms refl]
  by (auto simp: evicted_def evict_one_def upd_None_restrict entry_ref_def intro: exI [of _ "ev_stats (sa_ev a)"])

lemma evict_loop_stop: "h = [] \<or> \<not> sa_freed a < m \<Longrightarrow> evict_loop env k m h a = a"
  by (subst evict_loop.simps) auto

lemma evict_loop_step:
  assumes "h \<noteq> []" "sa_freed a < m" "heap_Pop h = (c, h')"
    "DeleteFile (e_ns (c_entry c)) (e_key (c_entry c)) (sw_stat env k (entry_ref (c_entry c)))
       (sw_rm env k (entry_ref (c_entry c))) (sa_store a) = (r, s')"
  shows "evict_loop env k m h a = evict_loop env k m h'
    (case r of Inl err \<Rightarrow> evict_failed s' a | Inr n \<Rightarrow> evict_one (c_entry c) s' a)"
  using assms by (subst evict_loop.simps) (simp split: sum.split)

lemma evict_loop_evicts:
  "heap_from 0 (length h) h \<Longrightarrow>
     \<exists>vs. mset vs \<subseteq># image_mset c_entry (mset h) \<and> evicted vs a (evict_loop env k m h a)"
proof (induction h arbitrary: a rule: length_induct)
  case (1 h)
  show ?case
  proof (cases "h = [] \<or> \<not> sa_freed a < m")
    case True
    then show ?thesis by (intro exI [of _ "[]"]) (simp add: evict_loop_stop evicted_refl)
  next
    case False
    obtain c h' where p: "heap_Pop h = (c, h')" by fastforce
    note pop = heap_Pop_law [OF "1.prems" _ p]
    let ?e = "c_entry c"
    obtain r s' where d: "DeleteFile (e_ns ?e) (e_key ?e) (sw_stat env k (entry_ref ?e))
        (sw_rm env k (entry_ref ?e)) (sa_store a) = (r, s')" by fastforce
    define b where "b = (case r of Inl err \<Rightarrow> evict_failed s' a | Inr n \<Rightarrow> evict_one ?e s' a)"
    have "\<exists>ws. mset ws \<subseteq># {#?e#} \<and> evicted ws a b"
    proof (cases r)
      case (Inl err)
      then have "evicted [] a b" using evicted_failed d by (simp add: b_def)
      then show ?thesis by (intro exI [of _ "[]"]) simp
    next
      case (Inr n)
      then have "evicted [?e] a b" using evicted_one d by (simp add: b_def)
      then show ?thesis by (intro exI [of _ "[?e]"]) simp
    qed
    then obtain ws where ws: "mset ws \<subseteq># {#?e#}" "evicted ws a b" by blast
    have "length h' < length h" "heap_from 0 (length h') h'" using pop False by auto
    with "1.IH" obtain vs where vs: "mset vs \<subseteq># image_mset c_entry (mset h')" "evicted vs b (evict_loop env k m h' b)"
      by blast
    have "mset (ws @ vs) \<subseteq># image_mset c_entry (mset h)"
      using subset_mset.add_mono [OF ws(1) vs(1)] pop(2) False by simp
    moreover have "evict_loop env k m h a = evict_loop env k m h' b"
      using evict_loop_step [OF _ _ p d] False by (simp add: b_def)
    ultimately show ?thesis using evicted_trans [OF ws(2) vs(2)] by metis
  qed
qed

text \<open>When nothing fails, the victims are those that come first out of the queue, and the loop stops
  only when enough is freed or the queue is empty.\<close>

definition unlinkable :: "sweep_env \<Rightarrow> nat \<Rightarrow> Entry \<Rightarrow> bool" where
  "unlinkable env k e \<longleftrightarrow> sw_rm env k (entry_ref e) = None \<and> ns_Valid (e_ns e) \<and> valid_key (e_key e)"

lemma DeleteFile_unlinkable:
  "unlinkable env k e \<Longrightarrow> \<exists>n s'. DeleteFile (e_ns e) (e_key e) se (sw_rm env k (entry_ref e)) s = (Inr n, s')"
  by (auto simp: unlinkable_def DeleteFile_def Let_def split: option.split)

lemma evict_loop_first:
  "heap_from 0 (length h) h \<Longrightarrow> \<forall>c \<in> set h. unlinkable env k (c_entry c) \<Longrightarrow>
     \<exists>n \<le> length h. evicted (map c_entry (hq.drain n h)) a (evict_loop env k m h a) \<and>
       sa_ev (evict_loop env k m h a) = sa_ev a \<and>
       (n = length h \<or> m \<le> sa_freed (evict_loop env k m h a)) \<and> (n = 0 \<longrightarrow> h = [] \<or> \<not> sa_freed a < m)"
proof (induction h arbitrary: a rule: length_induct)
  case (1 h)
  show ?case
  proof (cases "h = [] \<or> \<not> sa_freed a < m")
    case True
    then show ?thesis by (intro exI [of _ 0]) (auto simp: evict_loop_stop evicted_refl)
  next
    case False
    obtain c h' where p: "heap_Pop h = (c, h')" by fastforce
    note pop = heap_Pop_law [OF "1.prems"(1) _ p]
    let ?e = "c_entry c"
    have sub: "set h = insert c (set h')" using pop(2) False by (metis set_mset_add_mset_insert set_mset_mset)
    then obtain x s' where d: "DeleteFile (e_ns ?e) (e_key ?e) (sw_stat env k (entry_ref ?e))
        (sw_rm env k (entry_ref ?e)) (sa_store a) = (Inr x, s')"
      using "1.prems"(2) DeleteFile_unlinkable [of env k ?e] by blast
    define b where "b = evict_one ?e s' a"
    have step: "evict_loop env k m h a = evict_loop env k m h' b" "evicted [?e] a b" "sa_ev b = sa_ev a"
      using evict_loop_step [OF _ _ p d] evicted_one [OF d] False by (simp_all add: b_def evict_one_def)
    have "length h' < length h" "heap_from 0 (length h') h'" "\<forall>c \<in> set h'. unlinkable env k (c_entry c)"
      using pop False "1.prems"(2) sub by auto
    with "1.IH" obtain n where n: "n \<le> length h'" "evicted (map c_entry (hq.drain n h')) b (evict_loop env k m h' b)"
        "sa_ev (evict_loop env k m h' b) = sa_ev b" "n = length h' \<or> m \<le> sa_freed (evict_loop env k m h' b)" by blast
    have "evicted (map c_entry (hq.drain (Suc n) h)) a (evict_loop env k m h a)"
      using evicted_trans [OF step(2) n(2)] step(1) p by simp
    with n step pop(4) False show ?thesis by (intro exI [of _ "Suc n"]) auto
  qed
qed

lemma rank_batch:
  "heap_from 0 (length (rank_batch fe ev b)) (rank_batch fe ev b)" "image_mset c_entry (mset (rank_batch fe ev b)) = mset b"
  "c \<in> set (rank_batch fe ev b) \<Longrightarrow> c_score c = Score fe (ev_policy ev) (c_entry c) \<and> c_entry c \<in> set b"
proof -
  let ?l = "map (\<lambda>e. \<lparr>c_entry = e, c_score = Score fe (ev_policy ev) e\<rparr>) b"
  note h = heap_Init_heap [of ?l]
  show "heap_from 0 (length (rank_batch fe ev b)) (rank_batch fe ev b)" using h(1,3) by (simp add: rank_batch_def)
  show "image_mset c_entry (mset (rank_batch fe ev b)) = mset b" using h(2) by (simp add: rank_batch_def image_mset.compositionality comp_def)
  have "set (rank_batch fe ev b) = set ?l" using h(2) unfolding rank_batch_def by (metis set_mset_mset)
  then show "c \<in> set (rank_batch fe ev b) \<Longrightarrow> c_score c = Score fe (ev_policy ev) (c_entry c) \<and> c_entry c \<in> set b" by auto
qed

lemma clear_rows_sel:
  assumes "clear_rows tf refs (ev, s) = (ev', s')" "s_index s = Some i"
  shows "s_index s' = Some (snd (RemoveBatch refs tf i))" "s_root s' = s_root s" "s_fs s' = s_fs s"
    "\<exists>st. ev' = ev\<lparr>ev_stats := st\<rparr>" "fst (RemoveBatch refs tf i) = None \<Longrightarrow> ev' = ev"
proof -
  have "snd (RemoveBatch [] tf i) = i" by (simp add: RemoveBatch_def)
  moreover have "\<exists>st. ev = ev\<lparr>ev_stats := st\<rparr>" by (intro exI [of _ "ev_stats ev"]) simp
  ultimately show "s_index s' = Some (snd (RemoveBatch refs tf i))" "s_root s' = s_root s" "s_fs s' = s_fs s"
    "\<exists>st. ev' = ev\<lparr>ev_stats := st\<rparr>" "fst (RemoveBatch refs tf i) = None \<Longrightarrow> ev' = ev"
    using assms by (auto simp: clear_rows_def ev_bump_def split: if_splits option.splits prod.splits)
qed

lemma sweep_round_spec:
  assumes "sweep_round fe env k m batch ev s n f = (pr, ev', s', n', f')" "s_index s = Some i"
  obtains vs where "mset vs \<subseteq># mset batch" "n' = n + int (length vs)" "f' = f + sum_list (map e_size vs)"
    "pr \<longleftrightarrow> vs \<noteq> []" "objects s' = objects s |` (- set (map entry_ref vs))" "s_root s' = s_root s"
    "s_index s' = Some (snd (RemoveBatch (map entry_ref vs) (sw_remove env k) i))" "\<exists>st. ev' = ev\<lparr>ev_stats := st\<rparr>"
proof -
  let ?a = "\<lparr>sa_store = s, sa_ev = ev, sa_refs = [], sa_evicted = n, sa_freed = f, sa_progressed = False\<rparr>"
  define b where "b = evict_loop env k m (rank_batch fe ev batch) ?a"
  obtain vs where vs: "mset vs \<subseteq># mset batch" "evicted vs ?a b"
    using evict_loop_evicts [OF rank_batch(1), of fe ev batch ?a env k m] rank_batch(2) [of fe ev batch]
    by (auto simp: b_def)
  have c: "clear_rows (sw_remove env k) (sa_refs b) (sa_ev b, sa_store b) = (ev', s')" "pr = sa_progressed b"
    "n' = sa_evicted b" "f' = sa_freed b"
    using assms(1) by (auto simp: sweep_round_def Let_def b_def [symmetric] split: prod.splits)
  note e = vs(2) [unfolded evicted_def, simplified]
  have "s_index (sa_store b) = Some i" using e assms(2) by simp
  note r = clear_rows_sel [OF c(1) this]
  have o: "objects s' = objects s |` (- set (map entry_ref vs))" using r(2,3) e by auto
  obtain st where "ev' = (sa_ev b)\<lparr>ev_stats := st\<rparr>" using r(4) by blast
  moreover obtain st' where "sa_ev b = ev\<lparr>ev_stats := st'\<rparr>" using e by blast
  ultimately have "\<exists>st. ev' = ev\<lparr>ev_stats := st\<rparr>" by (intro exI [of _ st]) simp
  then show ?thesis by (rule that [OF vs(1) _ _ _ o, rotated -1]) (use c e r in simp_all)
qed

section \<open>Lemmas: sweeps in which nothing fails\<close>

definition quiet_sweep :: "sweep_env \<Rightarrow> bool" where
  "quiet_sweep env \<longleftrightarrow> sw_flush env = None \<and> sw_totals env = None \<and>
     (\<forall>k. sw_ctx env k = None \<and> sw_coldest env k = None \<and> sw_remove env k = None \<and> (\<forall>r. sw_rm env k r = None))"

lemma synced_entry:
  assumes "idx_live i" "idx.synced (disk_sizes s) i" "e \<in> set (entries i)"
  shows "ns_Valid (e_ns e)" "valid_key (e_key e)" "disk_sizes s (entry_ref e) = Some (e_size e)"
proof -
  obtain x where x: "mget (i_objects i) (entry_ref e) = Some x" "e = entry_of (entry_ref e) x"
    using assms(1,3) entries_mget [of i e] by (auto simp: idx_live_def)
  have "idx_size i (entry_ref e) = Some (x_size x)" using x(1) by (simp add: idx_size_def)
  then have d: "disk_sizes s (entry_ref e) = Some (x_size x)" using assms(2) by (simp add: idx.synced_def)
  moreover have "x_size x = e_size e" using x(2) by (metis entry_ref_of(2))
  ultimately show "disk_sizes s (entry_ref e) = Some (e_size e)" by simp
  from d show "ns_Valid (e_ns e)" "valid_key (e_key e)"
    by (auto simp: disk_sizes_def visible_def entry_ref_def split: if_splits)
qed

lemma idx_size_remove_rows:
  "idx_alive i \<Longrightarrow> idx_size (remove_rows_of refs i) = idx_size i |` (- set refs)"
  by (auto simp: idx_size_def remove_rows_objects mget_mdel_fold restrict_map_def)

lemma disk_sizes_restrict:
  "objects s' = objects s |` A \<Longrightarrow> disk_sizes s' = disk_sizes s |` A"
  by (auto simp: disk_sizes_def restrict_map_def fun_eq_iff)

lemma sweep_round_quiet:
  assumes "quiet_sweep env" "sweep_round fe env k m batch ev s n f = (pr, ev', s', n', f')" "s_index s = Some i"
    "idx_live i" "idx.synced (disk_sizes s) i" "batch = coldest_batch b i" "batch \<noteq> []" "f < m"
  obtains vs where "vs \<noteq> []" "mset vs \<subseteq># mset batch" "n' = n + int (length vs)" "f' = f + sum_list (map e_size vs)"
    "pr" "ev' = ev" "objects s' = objects s |` (- set (map entry_ref vs))" "s_root s' = s_root s"
    "s_index s' = Some (remove_rows_of (map entry_ref vs) i)"
    "idx.synced (disk_sizes s') (remove_rows_of (map entry_ref vs) i)" "mset vs = mset batch \<or> m \<le> f'"
    "\<forall>v \<in> set vs. \<forall>w \<in> set batch - set vs. Score fe (ev_policy ev) v \<le> Score fe (ev_policy ev) w"
proof -
  let ?a = "\<lparr>sa_store = s, sa_ev = ev, sa_refs = [], sa_evicted = n, sa_freed = f, sa_progressed = False\<rparr>"
  let ?h = "rank_batch fe ev batch"
  define c where "c = evict_loop env k m ?h ?a"
  have ents: "set batch \<subseteq> set (entries i)"
    using assms(4,6) coldest_entries(1) [of batch b i] by (simp add: idx_live_def)
  have "unlinkable env k (c_entry x)" if "x \<in> set ?h" for x
    using rank_batch(3) [OF that] synced_entry(1,2) [OF assms(4,5)] ents assms(1)
    by (auto simp: unlinkable_def quiet_sweep_def entry_ref_def)
  then obtain nv where nv: "nv \<le> length ?h" "evicted (map c_entry (hq.drain nv ?h)) ?a c" "sa_ev c = ev"
      "nv = length ?h \<or> m \<le> sa_freed c" "nv = 0 \<longrightarrow> ?h = [] \<or> \<not> f < m"
    using evict_loop_first [OF rank_batch(1), of fe ev batch env k ?a m] by (auto simp: c_def)
  define vs where "vs = map c_entry (hq.drain nv ?h)"
  note ds = hq.drain_mset [OF rank_batch(1), of nv fe ev batch, simplified, OF nv(1)]
  note so = hq.drain_sorted [OF rank_batch(1), of nv fe ev batch, simplified, OF nv(1)]
  have len: "length ?h = length batch" using arg_cong [OF rank_batch(2) [of fe ev batch], of size] by simp
  have sub: "mset vs \<subseteq># mset batch"
    using image_mset_subseteq_mono [of "mset (hq.drain nv ?h)" "mset ?h" c_entry] ds rank_batch(2) [of fe ev batch]
    by (simp add: vs_def)
  have ne: "vs \<noteq> []" using nv(5) assms(7,8) len ds by (auto simp: vs_def)
  have full: "mset vs = mset batch" if "nv = length ?h"
  proof -
    have "size (mset vs) = size (mset batch)" using that ds len by (simp add: vs_def)
    with sub show ?thesis by (metis mset_subset_size subset_mset.le_imp_less_or_eq less_irrefl)
  qed
  have c': "clear_rows (sw_remove env k) (sa_refs c) (sa_ev c, sa_store c) = (ev', s')" "pr = sa_progressed c"
    "n' = sa_evicted c" "f' = sa_freed c"
    using assms(2) by (auto simp: sweep_round_def Let_def c_def [symmetric] split: prod.splits)
  note e = nv(2) [folded vs_def, unfolded evicted_def, simplified]
  have ic: "s_index (sa_store c) = Some i" using e assms(3) by simp
  note r = clear_rows_sel [OF c'(1) ic]
  have al: "idx_alive i" "sw_remove env k = None" using assms(1,4) by (simp_all add: idx_live_def quiet_sweep_def)
  have idx: "s_index s' = Some (remove_rows_of (map entry_ref vs) i)" using r(1) e al RemoveBatch_alive by simp
  have obj: "objects s' = objects s |` (- set (map entry_ref vs))" using r(2,3) e by auto
  have "idx.synced (disk_sizes s') (remove_rows_of (map entry_ref vs) i)"
    using assms(5) disk_sizes_restrict [OF obj] al idx_size_remove_rows [OF al(1)]
    by (simp add: idx.synced_def remove_rows_of_def)
  moreover have "Score fe (ev_policy ev) v \<le> Score fe (ev_policy ev) w" if v: "v \<in> set vs" and w: "w \<in> set batch - set vs" for v w
  proof -
    obtain cv where cv: "cv \<in> set (hq.drain nv ?h)" "v = c_entry cv" using v by (auto simp: vs_def)
    have "w \<in># image_mset c_entry (mset ?h)" using w rank_batch(2) [of fe ev batch] by simp
    then obtain cw where cw: "cw \<in> set ?h" "w = c_entry cw" by auto
    have "cw \<notin> set (hq.drain nv ?h)" using w cw(2) by (auto simp: vs_def)
    then have "cw \<in># mset ?h - mset (hq.drain nv ?h)" using cw(1)
      by (simp add: in_diff_count count_eq_zero_iff [THEN iffD2])
    with so cv(1) have "c_score cv \<le> c_score cw" by blast
    moreover have "cv \<in> set ?h" using cv(1) ds by (meson in_multiset_in_set mset_subset_eqD)
    ultimately show ?thesis using rank_batch(3) cv(2) cw by metis
  qed
  ultimately show ?thesis
    using that [of vs] ne sub c' e r(5) obj idx al full nv(3,4) RemoveBatch_alive [OF al(1)] r(2) by auto
qed

end
