(* ===== verification/StoreTheorems.thy ===== *)
theory StoreTheorems
  imports ObjectStore
begin

text \<open>
  What the store promises: publication is whole and atomic, a rejected upload leaves no trace, CAS
  content always hashes to its key, reads return what was written, the index follows the disk, and
  start-up reconciliation makes it do so. Four properties state behaviour that differs from the
  documentation: a verified read fails only after the bytes were sent, a corrupted object is never
  overwritten, a duplicate upload is always reported durable, and reconciliation adopts files that
  no read can find.
\<close>

section \<open>Lemmas\<close>

lemma Put_rejected_fs:
  assumes "Put sha ns key declared env s = (Inl e, s')" "pe_unlink env = None"
  shows "mget (s_fs s') p = mget (s_fs s) p"
  by (rule Put_cases [OF assms(1)]) (use assms(2) in \<open>auto simp: abandon_def\<close>)

lemma put_trace_visible:
  assumes "fs \<in> set (put_trace sha ns key declared env s)"
  shows "visible (s_root s) fs = objects s \<or> visible (s_root s) fs = objects (snd (Put sha ns key declared env s))"
proof -
  obtain r s' where P: "Put sha ns key declared env s = (r, s')" by fastforce
  then have root: "s_root s' = s_root s" using Put_frame by blast
  show ?thesis
  proof (cases "create_temp s env")
    case (Inl e)
    with assms P root show ?thesis by (auto simp: put_trace_def)
  next
    case (Inr tmp)
    then obtain n where "tmp = s_root s @ [''tmp'', n]" using create_temp_Inr by blast
    with Inr assms P root show ?thesis by (auto simp: put_trace_def Let_def visible_tmp simp del: upt_Suc)
  qed
qed

lemma Delete_synced:
  assumes "Delete ns key se re None s = (r, s')" "store_synced s"
  shows "store_synced s'"
proof (cases "r = None \<and> s' \<noteq> s")
  case True
  obtain i where i: "s_index s = Some i" "index_ok i" "idx.synced (disk_sizes s) i"
    using assms(2) by (auto simp: store_synced_def)
  have "s_index s' = Some (snd (Remove ns key None i))"
    using assms(1) True i(1) by (auto simp: Delete_def Let_def split: if_splits option.splits)
  moreover have "disk_sizes s' = (disk_sizes s)((ns, key) := None)"
    using Delete_objects(2) [OF assms(1)] True by (intro disk_sizes_upd) simp
  ultimately show ?thesis
    using idx.synced_delete [OF i(3), of "(ns, key)"] index_ok_ops(2) [OF i(2)] by (auto simp: store_synced_def)
next
  case False
  then have "s' = s" using Delete_objects(3) [OF assms(1)] by blast
  with assms(2) show ?thesis by simp
qed

lemma Put_quiet:
  assumes "\<not> s_closed s" "ns_Valid ns" "valid_key key"
    "s_maxObject s > 0 \<longrightarrow> int (length body) \<le> s_maxObject s" "declared < 0 \<or> declared = int (length body)"
    "ContentAddressed ns \<longrightarrow> hex_encode (sha body) = key"
    "mget (s_fs s) (s_root s @ [''tmp'', tmpPrefix @ suffix]) = None"
  shows "\<exists>res s'. Put sha ns key declared (quiet_env body suffix now) s = (Inr res, s')"
proof -
  let ?env = "quiet_env body suffix now"
  have ne: "\<not> put_early ns key declared ?env s"
    using assms(1-5) by (auto simp: put_early_def ensure_def quiet_env_def)
  obtain m s1 where e: "ensure (fst (ObjectPath (s_root s) ns key)) (pe_mkdir ?env) s = (m, s1)" by fastforce
  have t: "create_temp s1 ?env = Inr (s_root s @ [''tmp'', tmpPrefix @ suffix])"
    using assms(7) ensure_sel(1,2) [OF e] by (simp add: create_temp_def quiet_env_def tmpDir_def)
  have st: "stream (s_maxObject s) ?env = (body, None)"
    using assms(4) by (auto simp: stream_def quiet_env_def Let_def)
  have v: "put_verdict sha (s_maxObject s) ns key declared ?env (body, None) = None"
    using assms(4-6) by (auto simp: put_verdict_def quiet_env_def Let_def)
  show ?thesis
    using Put_body [OF ne e, of sha] by (auto simp: Let_def st t v split: option.splits prod.splits)
qed

section \<open>Properties: publication\<close>


text \<open>A rejected upload leaves nothing behind. Whatever the error, no object and no index row
  changes, and when the temporary file can be removed the file system is exactly as before.\<close>

theorem Put_rejected_invisible:
  assumes "Put sha ns key declared env s = (Inl e, s')"
  shows "objects s' = objects s \<and> s_index s' = s_index s \<and>
     (pe_unlink env = None \<longrightarrow> (\<forall>p. mget (s_fs s') p = mget (s_fs s) p))"
  using Put_objects [OF assms] Put_failed_index [OF assms] Put_rejected_fs [OF assms] by simp

text \<open>C16: Content addressing is an invariant: if every CAS object hashes to its key, it still does
  after any \<^verbatim>\<open>Put\<close>, \<^verbatim>\<open>Delete\<close>, \<^verbatim>\<open>DeleteFile\<close>, \<^verbatim>\<open>Stat\<close> or \<^verbatim>\<open>Get\<close>, in any environment.\<close>

theorem cas_invariant:
  assumes "cas_ok sha s"
  shows "cas_ok sha (snd (Put sha ns key declared env s)) \<and> cas_ok sha (snd (Delete ns key se re ie s)) \<and>
     cas_ok sha (snd (DeleteFile ns key se re s)) \<and> cas_ok sha (snd (store_Stat ns key oe now s)) \<and>
     cas_ok sha (snd (store_Get ns key oe ge now s))"
proof (intro conjI)
  show "cas_ok sha (snd (Put sha ns key declared env s))"
    using Put_cas_ok [of sha ns key declared env s] assms by (metis prod.collapse)
  obtain r s' where d: "Delete ns key se re ie s = (r, s')" by fastforce
  show "cas_ok sha (snd (Delete ns key se re ie s))"
    using assms Delete_objects [OF d] d by (cases r) (auto simp: cas_ok_def)
  obtain q s2 where f: "DeleteFile ns key se re s = (q, s2)" by fastforce
  show "cas_ok sha (snd (DeleteFile ns key se re s))"
    using assms DeleteFile_objects(1,4,5) [OF f] f by (cases q) (auto simp: cas_ok_def)
  show "cas_ok sha (snd (store_Stat ns key oe now s))"
    using assms by (auto simp: cas_ok_def store_Stat_def split: option.split)
  obtain g s3 where g: "store_Get ns key oe ge now s = (g, s3)" by fastforce
  show "cas_ok sha (snd (store_Get ns key oe ge now s))"
    using assms store_Get_objects [OF g] g by (simp add: cas_ok_def)
qed



section \<open>Properties: the index and the disk\<close>

text \<open>C19: As long as the database does not fail, the index follows the disk: if its rows are exactly the
  visible objects with their sizes, they are so after every \<^verbatim>\<open>Put\<close>, whether it succeeds or not,
  and after every \<^verbatim>\<open>Delete\<close>.\<close>

theorem index_follows_disk:
  assumes "store_synced s" "pe_upsert env = None"
  shows "store_synced (snd (Put sha ns key declared env s)) \<and> store_synced (snd (Delete ns key se re None s))"
  using Put_synced [of sha ns key declared env s] Delete_synced [of ns key se re s] assms
  by (metis prod.collapse)

text \<open>C20: Reconciliation makes the index describe the disk, whatever it held before: afterwards an
  object has a row exactly when the walk meets a file of that name, with that file's size. On a
  tree where every such file is a regular file in its own shard, the index then agrees exactly
  with the visible objects, so no row is about an object that is missing.\<close>

theorem Reconcile_matches_disk:
  assumes "Reconcile env s = (Inr res, s')" "s_index s = Some i" "index_ok i" "idx_alive i"
  shows "(\<exists>i'. s_index s' = Some i' \<and> index_ok i' \<and>
       (\<forall>ns key n. idx_size i' (ns, key) = Some n \<longleftrightarrow>
          (\<exists>p f. ns_Valid ns \<and> (p, f) \<in> set (walk_files s ns) \<and> last p = key \<and> n = int (length (f_data f))))) \<and>
     objects s' = objects s \<and> (canonical s \<longrightarrow> store_synced s')"
proof -
  obtain i' where i': "s_index s' = Some i'" "index_ok i'" "s_fs s' = s_fs s" "s_root s' = s_root s"
    by (rule Reconcile_Inr [OF assms(1-3)])
  moreover have "idx_size i' (ns, key) = Some n \<longleftrightarrow>
      (\<exists>p f. ns_Valid ns \<and> (p, f) \<in> set (walk_files s ns) \<and> last p = key \<and> n = int (length (f_data f)))" for ns key n
    using Reconcile_sizes [OF assms(1-3) i'(1)] by (simp add: disk_files_mem)
  ultimately show ?thesis using Reconcile_synced [OF assms] by auto
qed

section \<open>Properties: where the code and its documentation differ\<close>

text \<open>C22: A verified read detects corruption only after sending it. If a stored CAS object does not hash
  to its key and reads are verified, \<^verbatim>\<open>Get\<close> succeeds, the copy sends all the wrong bytes without an
  error, and the digest mismatch is reported by \<^verbatim>\<open>Verify\<close> afterwards.\<close>

theorem verified_read_sends_before_failing:
  assumes "objects s (NamespaceCAS, key) = Some data" "hex_encode (sha data) \<noteq> key"
    "s_verifyReads s" "\<not> s_closed s"
  shows "\<exists>ob s2 ob'. store_Get NamespaceCAS key None None now s = (Inr ob, s2) \<and>
     WriteTo None None ob = (data, None, ob') \<and>
     fst (Verify sha ob' s2) = Some (DigestMismatchError key (hex_encode (sha data)) (int (length data)))"
proof -
  obtain ob s2 where g: "store_Get NamespaceCAS key None None now s = (Inr ob, s2)" "o_data ob = data"
      "t_Key (o_stat ob) = key" "o_verify ob"
    using store_Get_found [OF assms(1,4), of now] assms(3) by auto
  then show ?thesis using assms(2) by (auto simp: WriteTo_all Verify_def Let_def)
qed

text \<open>A corrupted CAS object is never repaired by writing it again. While a regular file is at the
  path of a CAS key, a \<^verbatim>\<open>Put\<close> of that key whose first \<^verbatim>\<open>os.Stat\<close> works leaves its bytes as they are,
  whatever they are and whatever is uploaded.\<close>

theorem corrupt_object_not_replaced:
  assumes "objects s (NamespaceCAS, key) = Some bad" "pe_stat env = None"
  shows "objects (snd (Put sha NamespaceCAS key declared env s)) (NamespaceCAS, key) = Some bad"
proof -
  obtain r s' where P: "Put sha NamespaceCAS key declared env s = (r, s')" by fastforce
  show ?thesis
  proof (cases "put_early NamespaceCAS key declared env s")
    case True
    with Put_early [OF True, of sha] P Put_objects [OF P] assms(1) show ?thesis by auto
  next
    case False
    obtain m s1 where e: "ensure (fst (ObjectPath (s_root s) NamespaceCAS key)) (pe_mkdir env) s = (m, s1)" by fastforce
    obtain f where "regular_at (s_fs s) (object_path (s_root s) NamespaceCAS key) = Some f"
      using assms(1) by (auto simp: visible_def split: if_splits)
    with Put_body [OF False e, of sha] assms(2) P
    have "\<exists>res. r = Inr res \<and> pr_AlreadyStored res" by auto
    with Put_objects [OF P] assms(1) P show ?thesis by auto
  qed
qed

text \<open>A duplicate upload is always reported durable. Also after a first \<^verbatim>\<open>Put\<close> of a CAS object on a
  file system that cannot sync directories, reported as not durable, the second \<^verbatim>\<open>Put\<close> of the
  same object reports a durable write, while the store knows that directory syncs do not work.\<close>

theorem duplicate_put_claims_durable:
  assumes "Put sha NamespaceCAS key declared env s = (Inr res, s')" "\<not> pr_AlreadyStored res"
    "pe_dirsync env = Some ErrDirSyncUnsupported" "pe_stat env2 = None" "pe_mkdir env2 = None"
  shows "\<not> pr_Durable res \<and> \<not> DirSyncSupported s' \<and>
     (\<exists>res2 s2. Put sha NamespaceCAS key declared env2 s' = (Inr res2, s2) \<and> pr_Durable res2 \<and> \<not> DirSyncSupported s2)"
proof -
  note p = Put_published [OF assms(1,2)]
  have nd: "\<not> pr_Durable res" by (subst p(8)) (simp add: assms(3))
  have fr: "s_closed s' = s_closed s" "s_maxObject s' = s_maxObject s" "s_root s' = s_root s"
    using Put_frame [OF assms(1)] by simp_all
  have ne: "\<not> put_early NamespaceCAS key declared env s"
    using Put_early [of NamespaceCAS key declared env s sha] assms(1) by auto
  obtain m s1 where e: "ensure (fst (ObjectPath (s_root s) NamespaceCAS key)) (pe_mkdir env) s = (m, s1)" by fastforce
  have uns: "s_dirSyncUnsupported s'"
    using Put_body [OF ne e, of sha] assms(1-3)
    by (auto simp: Let_def finish_put_def noteDirSyncUnsupported_def bump_def on_index_def
        split: option.splits sum.splits if_splits)
  have ne': "\<not> put_early NamespaceCAS key declared env2 s'"
    using ne fr assms(5) by (auto simp: put_early_def ensure_def)
  obtain m' s3 where e': "ensure (fst (ObjectPath (s_root s') NamespaceCAS key)) (pe_mkdir env2) s' = (m', s3)" by fastforce
  have uns3: "s_dirSyncUnsupported s3" using e' uns assms(5) by (auto simp: ensure_def split: if_splits)
  have "objects s' (NamespaceCAS, key) \<noteq> None" using Put_objects [OF assms(1)] assms(2) by simp
  then obtain f where "regular_at (s_fs s') (object_path (s_root s') NamespaceCAS key) = Some f"
    by (auto simp: visible_def split: if_splits)
  with Put_body [OF ne' e', of sha] assms(4) uns3 nd uns show ?thesis
    by (auto simp: DirSyncSupported_def touch_store_def on_index_def bump_def)
qed

text \<open>Reconciliation adopts files that no read can find. A file named like a key but outside its
  shard gets a row although \<^verbatim>\<open>Get\<close> does not find the object; and if the same name is met at two
  places, the second insert violates the primary key, so the reconciliation, and with it \<^verbatim>\<open>Open\<close>,
  fails.\<close>

theorem Reconcile_adopts_misplaced:
  assumes "Reconcile env s = (r, s')" "s_index s = Some i" "index_ok i" "\<not> s_closed s" "ns_Valid ns"
    "(p, f) \<in> set (walk_files s ns)" "mget (s_fs s) (object_path (s_root s) ns (last p)) = None"
  shows "(\<forall>res. r = Inr res \<longrightarrow>
        (\<exists>i'. s_index s' = Some i' \<and> idx_size i' (ns, last p) = Some (int (length (f_data f)))) \<and>
        fst (store_Get ns (last p) None None now s') = Inl ErrNotFound) \<and>
     ((\<exists>q g. (q, g) \<in> set (walk_files s ns) \<and> q \<noteq> p \<and> last q = last p) \<longrightarrow> (\<exists>e. r = Inl e))"
proof (intro conjI allI impI)
  fix res
  assume r: "r = Inr res"
  obtain i' where i': "s_index s' = Some i'" "s_fs s' = s_fs s" "s_root s' = s_root s"
    by (rule Reconcile_Inr [OF assms(1) [unfolded r] assms(2,3)])
  have "idx_size i' (ns, last p) = Some (int (length (f_data f)))"
    using Reconcile_sizes [OF assms(1) [unfolded r] assms(2,3) i'(1)] assms(5,6) by (auto simp: disk_files_mem)
  with i'(1) show "\<exists>i'. s_index s' = Some i' \<and> idx_size i' (ns, last p) = Some (int (length (f_data f)))" by blast
  have "s_closed s' = s_closed s"
    using assms(1) r by (auto simp: Reconcile_def split: option.splits sum.splits prod.splits)
  moreover have "valid_key (last p)" using assms(6) by (simp add: walk_files_mem)
  moreover have "objects s' (ns, last p) = None"
    using assms(7) i' by (simp add: visible_def regular_at_def)
  ultimately show "fst (store_Get ns (last p) None None now s') = Inl ErrNotFound"
    using assms(4,5) by (intro store_Get_missing) simp_all
next
  assume "\<exists>q g. (q, g) \<in> set (walk_files s ns) \<and> q \<noteq> p \<and> last q = last p"
  then obtain q g where q: "(q, g) \<in> set (walk_files s ns)" "q \<noteq> p" "last q = last p" by blast
  show "\<exists>e. r = Inl e"
  proof (cases r)
    case (Inr res)
    then have d: "distinct (map (\<lambda>(ns, pf). file_ref ns pf) (disk_files s))"
      using Reconcile_Inr [OF assms(1) [unfolded Inr] assms(2,3)] by blast
    have "(ns, p, f) \<in> set (disk_files s)" "(ns, q, g) \<in> set (disk_files s)"
      using assms(5,6) q(1) by (simp_all add: disk_files_mem)
    moreover have "file_ref ns (p, f) = file_ref ns (q, g)" using q(3) by (simp add: file_ref_def)
    moreover have "inj_on (\<lambda>(ns, pf). file_ref ns pf) (set (disk_files s))" using d by (simp add: distinct_map)
    ultimately have "(ns, p, f) = (ns, q, g)"
      using inj_onD [of "\<lambda>(ns, pf). file_ref ns pf" "set (disk_files s)" "(ns, p, f)" "(ns, q, g)"] by simp
    with q(2) show ?thesis by simp
  qed simp
qed

text \<open>The counters of stored objects drift. Overwriting an action cache entry adds one to
  \<^verbatim>\<open>ObjectsStored\<close> and the body's length to \<^verbatim>\<open>BytesStored\<close>, although the number of objects is the
  same and the old bytes are gone.\<close>

theorem overwrite_counts_twice:
  assumes "Put sha NamespaceAC key declared env s = (Inr res, s')" "objects s (NamespaceAC, key) = Some old"
  shows "dom (objects s') = dom (objects s) \<and>
     st_ObjectsStored (s_stats s') = st_ObjectsStored (s_stats s) + 1 \<and>
     st_BytesStored (s_stats s') = st_BytesStored (s_stats s) + int (length (pe_body env))"
proof -
  have na: "\<not> pr_AlreadyStored res" using Put_stored [OF assms(1)] by auto
  note p = Put_published [OF assms(1) na]
  have ne: "\<not> put_early NamespaceAC key declared env s"
    using Put_early [of NamespaceAC key declared env s sha] assms(1) by auto
  obtain m s1 where e: "ensure (fst (ObjectPath (s_root s) NamespaceAC key)) (pe_mkdir env) s = (m, s1)" by fastforce
  have "s_stats s1 = s_stats s" using e by (auto simp: ensure_def split: if_splits option.splits)
  with Put_body [OF ne e, of sha] assms(1) p(3)
  have "st_ObjectsStored (s_stats s') = st_ObjectsStored (s_stats s) + 1 \<and>
      st_BytesStored (s_stats s') = st_BytesStored (s_stats s) + int (length (pe_body env))"
    by (auto simp: Let_def finish_put_def noteDirSyncUnsupported_def split: option.splits sum.splits if_splits)
  moreover have "dom (objects s') = dom (objects s)"
    using Put_objects [OF assms(1)] na assms(2) by auto
  ultimately show ?thesis by blast
qed

section \<open>Properties: progress\<close>


section \<open>Witnesses\<close>

definition ex_body :: bytes where
  "ex_body = ''hi''"

definition ex_cas_key :: key where
  "ex_cas_key = hex_encode (ex_sha ex_body)"

definition ex_empty_index :: Index where
  "ex_empty_index = \<lparr>i_objects = [], i_meta = [], i_pending = [], i_touchLimit = 4096, i_closed = False,
     i_dbopen = True, i_stats = zero_index_stats\<rparr>"

definition ex_store :: Store where
  "ex_store = \<lparr>s_root = [''data''], s_maxObject = 100, s_verifyReads = True, s_dirs = [],
     s_index = Some ex_empty_index, s_evictor = False, s_wake = False, s_closed = False,
     s_dirSyncUnsupported = False, s_fs = [], s_stats = zero_stats\<rparr>"

text \<open>The same store with a file of the given bytes at the path of the example key.\<close>

definition ex_store_with :: "namespace \<Rightarrow> bytes \<Rightarrow> Store" where
  "ex_store_with ns b = ex_store\<lparr>s_fs := [(object_path [''data''] ns ex_cas_key,
     \<lparr>f_data = b, f_mtime = 0, f_kind = Regular\<rparr>)]\<rparr>"

lemma ex_cas_key_valid: "valid_key ex_cas_key"
  unfolding ex_cas_key_def by (rule hex_encode_valid) (simp add: ex_sha_def ex_body_def)

lemma ex_objects: "objects ex_store = (\<lambda>_. None)"
  by (auto simp: visible_def regular_at_def ex_store_def)

lemma ex_objects_with: "ns_Valid ns \<Longrightarrow> objects (ex_store_with ns b) (ns, ex_cas_key) = Some b"
  by (simp add: visible_def regular_at_def ex_store_with_def ex_store_def ex_cas_key_valid)

lemma ex_cas_ok: "cas_ok ex_sha ex_store"
  by (simp add: cas_ok_def ex_objects)

lemma ex_put:
  "\<exists>res s'. Put ex_sha NamespaceCAS ex_cas_key 2 (quiet_env ex_body ''1'' 5) ex_store = (Inr res, s')"
  by (rule Put_quiet) (simp_all add: ex_cas_key_valid, simp_all add: ex_store_def ex_body_def ex_cas_key_def)

lemma ex_put_short:
  "\<exists>s'. Put ex_sha NamespaceCAS ex_cas_key 3 (quiet_env ex_body ''1'' 5) ex_store = (Inl (ErrShortWrite 3 2), s')"
proof -
  let ?env = "quiet_env ex_body ''1'' 5"
  have ne: "\<not> put_early NamespaceCAS ex_cas_key 3 ?env ex_store"
    using ex_cas_key_valid by (simp add: put_early_def ensure_def quiet_env_def ex_store_def)
  obtain m s1 where e: "ensure (fst (ObjectPath (s_root ex_store) NamespaceCAS ex_cas_key)) (pe_mkdir ?env) ex_store = (m, s1)"
    by fastforce
  have "create_temp s1 ?env = Inr ([''data'', ''tmp'', tmpPrefix @ ''1''])"
    using ensure_sel(1,2) [OF e] by (simp add: create_temp_def quiet_env_def tmpDir_def ex_store_def)
  with Put_body [OF ne e, of ex_sha] show ?thesis
    by (simp add: regular_at_def ex_store_def stream_def put_verdict_def quiet_env_def ex_body_def Let_def)
qed


theorem cas_invariant_witness:
  "cas_ok ex_sha (snd (Put ex_sha NamespaceCAS ex_cas_key 2 (quiet_env ex_body ''1'' 5) ex_store))"
  using cas_invariant [OF ex_cas_ok] by blast



theorem index_follows_disk_witness:
  "store_synced ex_store \<and>
   store_synced (snd (Put ex_sha NamespaceCAS ex_cas_key 2 (quiet_env ex_body ''1'' 5) ex_store))"
proof -
  have "store_synced ex_store"
    by (auto simp: store_synced_def idx.synced_def disk_sizes_def ex_objects idx_size_def fun_eq_iff)
      (simp add: ex_store_def ex_empty_index_def idx_alive_def index_ok_def)
  with index_follows_disk [OF this, of "quiet_env ex_body ''1'' 5"] show ?thesis by (simp add: quiet_env_def)
qed

text \<open>A reconciliation in which nothing fails, and what it finds in the example stores: the one file at
  the path of the key, or one outside the shards.\<close>

definition ex_renv :: reconcile_env where
  "ex_renv = \<lparr>re_totals = None, re_all = None, re_ctx = (\<lambda>_. None), re_visit = (\<lambda>_. None),
     re_replace = None, re_setmeta = None, re_stamp = ''now''\<rparr>"

definition ex_misplaced :: Store where
  "ex_misplaced = ex_store\<lparr>s_fs := [([''data'', NamespaceCAS, ex_cas_key],
     \<lparr>f_data = ex_body, f_mtime = 0, f_kind = Regular\<rparr>)]\<rparr>"

lemma ex_walk:
  "walk_files (ex_store_with NamespaceCAS b) NamespaceCAS =
     [(object_path [''data''] NamespaceCAS ex_cas_key, \<lparr>f_data = b, f_mtime = 0, f_kind = Regular\<rparr>)]"
  "walk_files (ex_store_with NamespaceCAS b) NamespaceAC = []"
  "walk_files ex_misplaced NamespaceCAS =
     [([''data'', NamespaceCAS, ex_cas_key], \<lparr>f_data = ex_body, f_mtime = 0, f_kind = Regular\<rparr>)]"
  "walk_files ex_misplaced NamespaceAC = []"
  by (simp_all add: walk_files_def below_def ex_store_with_def ex_store_def ObjectPath_eq ex_misplaced_def
      ex_cas_key_valid)

lemma ex_reconcile:
  assumes "s_index s = Some ex_empty_index" "walk_files s NamespaceCAS = [pf]" "walk_files s NamespaceAC = []"
  shows "\<exists>res s'. Reconcile ex_renv s = (Inr res, s')"
  using assms
  by (cases pf) (simp add: Reconcile_def reconcile_walk_def Walk_def reconcile_file_def ReplaceAll_def Totals_def
      All_def entries_def db_err_def tx_fault_of_def ex_renv_def ex_empty_index_def exec_fault_def Let_def)

lemma ex_empty_ok: "index_ok ex_empty_index" "idx_alive ex_empty_index"
  by (simp_all add: index_ok_def idx_alive_def ex_empty_index_def)

theorem Reconcile_matches_disk_witness:
  "\<exists>res s'. Reconcile ex_renv (ex_store_with NamespaceCAS ex_body) = (Inr res, s') \<and> store_synced s'"
proof -
  let ?s = "ex_store_with NamespaceCAS ex_body"
  have i: "s_index ?s = Some ex_empty_index" by (simp add: ex_store_with_def ex_store_def)
  obtain res s' where R: "Reconcile ex_renv ?s = (Inr res, s')"
    using ex_reconcile [OF i ex_walk(1,2)] by blast
  have "canonical ?s"
    by (simp add: canonical_def ex_walk) (simp add: ex_store_with_def ex_store_def ObjectPath_eq)
  with Reconcile_matches_disk [OF R i ex_empty_ok] R show ?thesis by blast
qed

lemma ex_corrupt: "hex_encode (ex_sha ''ho'') \<noteq> ex_cas_key"
  unfolding ex_cas_key_def ex_body_def by code_simp

lemma ex_store_flags [simp]:
  "s_verifyReads (ex_store_with ns b)" "\<not> s_closed (ex_store_with ns b)" "s_root (ex_store_with ns b) = [''data'']"
  by (simp_all add: ex_store_with_def ex_store_def)

theorem verified_read_sends_before_failing_witness:
  "\<exists>ob s2 ob'. store_Get NamespaceCAS ex_cas_key None None 5 (ex_store_with NamespaceCAS ''ho'') = (Inr ob, s2) \<and>
     WriteTo None None ob = (''ho'', None, ob') \<and> fst (Verify ex_sha ob' s2) \<noteq> None"
proof -
  have "objects (ex_store_with NamespaceCAS ''ho'') (NamespaceCAS, ex_cas_key) = Some ''ho''"
    by (rule ex_objects_with) simp
  from verified_read_sends_before_failing [of _ _ _ ex_sha 5, OF this ex_corrupt] show ?thesis by auto
qed

text \<open>An upload to a file system that cannot sync directories.\<close>

lemma ex_put_nodirsync:
  "\<exists>res s'. Put ex_sha NamespaceCAS ex_cas_key 2
       ((quiet_env ex_body ''1'' 5)\<lparr>pe_dirsync := Some ErrDirSyncUnsupported\<rparr>) ex_store = (Inr res, s') \<and>
     \<not> pr_AlreadyStored res"
proof -
  let ?env = "(quiet_env ex_body ''1'' 5)\<lparr>pe_dirsync := Some ErrDirSyncUnsupported\<rparr>"
  have ne: "\<not> put_early NamespaceCAS ex_cas_key 2 ?env ex_store"
    using ex_cas_key_valid by (simp add: put_early_def ensure_def quiet_env_def ex_store_def)
  obtain m s1 where e: "ensure (fst (ObjectPath (s_root ex_store) NamespaceCAS ex_cas_key)) (pe_mkdir ?env) ex_store = (m, s1)"
    by fastforce
  have "create_temp s1 ?env = Inr ([''data'', ''tmp'', tmpPrefix @ ''1''])"
    using ensure_sel(1,2) [OF e] by (simp add: create_temp_def quiet_env_def tmpDir_def ex_store_def)
  with Put_body [OF ne e, of ex_sha] show ?thesis
    by (simp add: regular_at_def ex_store_def stream_def put_verdict_def quiet_env_def ex_body_def ex_cas_key_def Let_def
        split: prod.splits)
qed

theorem duplicate_put_claims_durable_witness:
  "\<exists>res s' res2 s2. Put ex_sha NamespaceCAS ex_cas_key 2
       ((quiet_env ex_body ''1'' 5)\<lparr>pe_dirsync := Some ErrDirSyncUnsupported\<rparr>) ex_store = (Inr res, s') \<and>
     \<not> pr_Durable res \<and> Put ex_sha NamespaceCAS ex_cas_key 2 (quiet_env ex_body ''2'' 6) s' = (Inr res2, s2) \<and>
     pr_Durable res2"
proof -
  obtain res s' where P: "Put ex_sha NamespaceCAS ex_cas_key 2
       ((quiet_env ex_body ''1'' 5)\<lparr>pe_dirsync := Some ErrDirSyncUnsupported\<rparr>) ex_store = (Inr res, s')"
      "\<not> pr_AlreadyStored res" using ex_put_nodirsync by blast
  from duplicate_put_claims_durable [OF P, of "quiet_env ex_body ''2'' 6"] P(1) show ?thesis
    by (auto simp: quiet_env_def)
qed

theorem Reconcile_adopts_misplaced_witness:
  "\<exists>res s' i'. Reconcile ex_renv ex_misplaced = (Inr res, s') \<and> s_index s' = Some i' \<and>
     idx_size i' (NamespaceCAS, ex_cas_key) = Some 2 \<and>
     fst (store_Get NamespaceCAS ex_cas_key None None 5 s') = Inl ErrNotFound"
proof -
  have i: "s_index ex_misplaced = Some ex_empty_index" "\<not> s_closed ex_misplaced"
    by (simp_all add: ex_misplaced_def ex_store_def)
  obtain res s' where R: "Reconcile ex_renv ex_misplaced = (Inr res, s')"
    using ex_reconcile [OF i(1) ex_walk(3,4)] by blast
  have w: "([''data'', NamespaceCAS, ex_cas_key], \<lparr>f_data = ex_body, f_mtime = 0, f_kind = Regular\<rparr>)
      \<in> set (walk_files ex_misplaced NamespaceCAS)" by (simp add: ex_walk)
  have "mget (s_fs ex_misplaced) (object_path (s_root ex_misplaced) NamespaceCAS (last [''data'', NamespaceCAS, ex_cas_key])) = None"
    by (simp add: ex_misplaced_def ex_store_def ObjectPath_eq)
  from Reconcile_adopts_misplaced [OF R i(1) ex_empty_ok(1) i(2) _ w this, of 5] R show ?thesis
    by (auto simp: ex_body_def)
qed

theorem overwrite_counts_twice_witness:
  "\<exists>res s'. Put ex_sha NamespaceAC ex_cas_key 2 (quiet_env ex_body ''1'' 5) (ex_store_with NamespaceAC ''old'') = (Inr res, s') \<and>
     st_ObjectsStored (s_stats s') = 1 \<and> st_BytesStored (s_stats s') = 2"
proof -
  let ?s = "ex_store_with NamespaceAC ''old''"
  have o: "objects ?s (NamespaceAC, ex_cas_key) = Some ''old''" by (rule ex_objects_with) simp
  have "\<exists>res s'. Put ex_sha NamespaceAC ex_cas_key 2 (quiet_env ex_body ''1'' 5) ?s = (Inr res, s')"
    by (rule Put_quiet) (simp_all add: ex_cas_key_valid,
        simp_all add: ex_store_with_def ex_store_def ex_body_def ContentAddressed_def ObjectPath_eq)
  then obtain res s' where P: "Put ex_sha NamespaceAC ex_cas_key 2 (quiet_env ex_body ''1'' 5) ?s = (Inr res, s')" by blast
  from overwrite_counts_twice [OF P o] P show ?thesis
    by (simp add: ex_store_with_def ex_store_def zero_stats_def quiet_env_def ex_body_def)
qed


end
