(* ===== verification/EvictorTheorems.thy ===== *)
theory EvictorTheorems
  imports Evictor StoreTheorems
begin

text \<open>
  What a sweep guarantees: it ends, reaches the low water mark, accounts for every byte and removes the
  objects with the least scores; whatever fails, it only ever removes objects and never leaves an
  object uncounted. Two properties state behaviour that the code does not intend: a sweep can run
  for ever, and water marks that are not numbers switch the quota off.
\<close>

section \<open>Lemmas: the loop of a sweep\<close>

lemma sweep_loop_done: "\<not> f < m \<Longrightarrow> sweep_loop fe env m k ev s n f = Some (None, ev, s, n, f)"
  by (subst sweep_loop.simps) simp

lemma sweep_loop_round:
  assumes "quiet_sweep env" "f < m" "s_index s = Some i" "idx_alive i" "0 < ev_batchSize ev"
    "coldest_batch (nat (ev_batchSize ev)) i \<noteq> []"
    "sweep_round fe env k m (coldest_batch (nat (ev_batchSize ev)) i) ev s n f = (True, ev', s', n', f')"
  shows "sweep_loop fe env m k ev s n f = sweep_loop fe env m (Suc k) ev' s' n' f'"
  using assms by (subst sweep_loop.simps) (simp add: ColdestN_batch quiet_sweep_def)

lemma coldest_batch_all: "idx_rows i \<le> n \<Longrightarrow> set (coldest_batch n i) = set (entries i)"
proof -
  assume "idx_rows i \<le> n"
  then have "length (sort_key e_access (entries i)) \<le> n" by (simp add: idx_rows_def entries_def)
  then have "coldest_batch n i = sort_key e_access (entries i)" by (simp add: coldest_batch_def)
  then show ?thesis by simp
qed

lemma entries_remove_rows: "idx_alive i \<Longrightarrow> set (entries (remove_rows_of refs i)) \<subseteq> set (entries i)"
proof -
  have "set (foldl (\<lambda>m r. mdel r m) m refs) \<subseteq> set m" for m :: "(objRef, idx_row) gomap"
  proof (induction refs arbitrary: m)
    case (Cons r refs)
    have "set (mdel r m) \<subseteq> set m" by (auto simp: mdel_def)
    with Cons.IH [of "mdel r m"] show ?case by auto
  qed simp
  then show "idx_alive i \<Longrightarrow> ?thesis" by (auto simp: entries_def remove_rows_objects)
qed

text \<open>The loop ends with the usage at or below the target. What it evicts are rounds of removals from
  the index, and from an index that fits in one batch it takes the least scores.\<close>

lemma sweep_loop_quiet:
  assumes "quiet_sweep env" "0 < ev_batchSize ev" "0 \<le> target"
  shows "s_index s = Some i \<Longrightarrow> idx_live i \<Longrightarrow> idx.synced (disk_sizes s) i \<Longrightarrow> m - f = idx_total i - target \<Longrightarrow>
    \<exists>es i' s'. sweep_loop fe env m k ev s n f = Some (None, ev, s', n + int (length es), f + sum_list (map e_size es)) \<and>
      eix.evicts (nat (ev_batchSize ev)) i es i' \<and> s_index s' = Some i' \<and> idx.synced (disk_sizes s') i' \<and>
      idx_total i' \<le> target \<and> objects s' = objects s |` (- set (map entry_ref es)) \<and> s_root s' = s_root s \<and>
      set es \<subseteq> set (entries i) \<and>
      (idx_rows i \<le> nat (ev_batchSize ev) \<longrightarrow>
        (\<forall>v \<in> set es. \<forall>w \<in> set (entries i) - set es. Score fe (ev_policy ev) v \<le> Score fe (ev_policy ev) w))"
proof (induction "idx_rows i" arbitrary: i s k n f rule: less_induct)
  case less
  let ?b = "nat (ev_batchSize ev)"
  show ?case
  proof (cases "f < m")
    case False
    then have "idx_total i \<le> target" using less.prems(4) by simp
    with False less.prems show ?thesis
      by (intro exI [of _ "[]"] exI [of _ i] exI [of _ s]) (simp add: sweep_loop_done eix.evicts.evicts_none)
  next
    case True
    have b: "0 < ?b" "idx_alive i" using assms(2) less.prems(2) by (simp_all add: idx_live_def)
    have ne: "coldest_batch ?b i \<noteq> []"
      using eix.above_target_not_empty [OF less.prems(2) b(1) assms(3)] True less.prems(4) by simp
    obtain pr ev' s' n' f' where R: "sweep_round fe env k m (coldest_batch ?b i) ev s n f = (pr, ev', s', n', f')"
      by (cases "sweep_round fe env k m (coldest_batch ?b i) ev s n f") auto
    obtain vs where vs: "vs \<noteq> []" "mset vs \<subseteq># mset (coldest_batch ?b i)" "n' = n + int (length vs)"
      "f' = f + sum_list (map e_size vs)" "pr" "ev' = ev" "objects s' = objects s |` (- set (map entry_ref vs))"
      "s_root s' = s_root s" "s_index s' = Some (remove_rows_of (map entry_ref vs) i)"
      "idx.synced (disk_sizes s') (remove_rows_of (map entry_ref vs) i)" "mset vs = mset (coldest_batch ?b i) \<or> m \<le> f'"
      "\<forall>v \<in> set vs. \<forall>w \<in> set (coldest_batch ?b i) - set vs. Score fe (ev_policy ev) v \<le> Score fe (ev_policy ev) w"
      by (rule sweep_round_quiet [OF assms(1) R less.prems(1-3) refl ne True])
    let ?i = "remove_rows_of (map entry_ref vs) i"
    have L: "sweep_loop fe env m k ev s n f = sweep_loop fe env m (Suc k) ev s' n' f'"
      using sweep_loop_round [OF assms(1) True less.prems(1) b(2) assms(2) ne] R vs(5,6) by simp
    have "m - f' = idx_total ?i - target"
      using eix.remove_used [OF less.prems(2) vs(2)] vs(4) less.prems(4) by simp
    note ih = less.hyps [OF eix.round_shrinks [OF less.prems(2) vs(2,1)] vs(9) idx_live_remove [OF less.prems(2)] vs(10) this,
        of "Suc k" n']
    then obtain es i' s2 where es: "sweep_loop fe env m (Suc k) ev s' n' f' =
        Some (None, ev, s2, n' + int (length es), f' + sum_list (map e_size es))"
      "eix.evicts ?b ?i es i'" "s_index s2 = Some i'" "idx.synced (disk_sizes s2) i'" "idx_total i' \<le> target"
      "objects s2 = objects s' |` (- set (map entry_ref es))" "s_root s2 = s_root s'" "set es \<subseteq> set (entries ?i)" by blast
    have sub: "set (vs @ es) \<subseteq> set (entries i)"
      using es(8) entries_remove_rows [OF b(2)] coldest_entries(1) [OF vs(2)] less.prems(2) by (auto simp: idx_live_def)
    have fin: "es = []" if "m \<le> f'"
      using es(1) that sweep_loop_done [of f' m fe env "Suc k" ev s' n'] by simp
    have sc: "Score fe (ev_policy ev) v \<le> Score fe (ev_policy ev) w"
      if r: "idx_rows i \<le> ?b" and v: "v \<in> set (vs @ es)" and w: "w \<in> set (entries i) - set (vs @ es)" for v w
    proof -
      have "w \<in> set (coldest_batch ?b i) - set vs" using w coldest_batch_all [OF r] by simp
      moreover then have "\<not> mset vs = mset (coldest_batch ?b i)" by (metis DiffD1 DiffD2 set_mset_mset)
      ultimately show ?thesis using vs(11,12) fin v by auto
    qed
    have "objects s2 = objects s |` (- set (map entry_ref (vs @ es)))"
      using es(6) vs(7) restrict_restrict_compl [of "objects s" "set (map entry_ref vs)" "set (map entry_ref es)"] by simp
    with es vs L sc sub eix.evicts.evicts_round [OF vs(2) es(2)] show ?thesis
      by (intro exI [of _ "vs @ es"] exI [of _ i'] exI [of _ s2]) (simp add: algebra_simps)
  qed
qed


section \<open>Lemmas: quotas\<close>

lemma wrap64_id: "- (2 ^ 63) \<le> x \<Longrightarrow> x < 2 ^ 63 \<Longrightarrow> wrap64 x = x"
  by (simp add: wrap64_def)

lemma quota_Valid_marks:
  assumes "quota_Valid q = None" "q_HighWater q \<noteq> FNaN" "q_LowWater q \<noteq> FNaN"
  obtains hw lw where "q_HighWater q = Fin hw" "q_LowWater q = Fin lw" "0 < lw" "lw < hw" "hw \<le> 1" "0 < q_MaxBytes q"
proof -
  have m: "0 < q_MaxBytes q" "\<not> f64_le (q_HighWater q) (Fin 0)" "\<not> f64_lt (Fin 1) (q_HighWater q)"
    "\<not> f64_le (q_LowWater q) (Fin 0)" "\<not> f64_le (q_HighWater q) (q_LowWater q)"
    using assms(1) by (auto simp: quota_Valid_def split: if_splits)
  have above: "x = FInf True \<or> (\<exists>a. x = Fin a \<and> 0 < a)" if "x \<noteq> FNaN" "\<not> f64_le x (Fin 0)" for x
  proof (cases x)
    case (FInf b)
    with that(2) show ?thesis by (cases b) auto
  qed (use that in auto)
  obtain hw where hw: "q_HighWater q = Fin hw" "0 < hw" using above [OF assms(2) m(2)] m(3) by auto
  obtain lw where lw: "q_LowWater q = Fin lw" "0 < lw" using above [OF assms(3) m(4)] m(5) hw by auto
  with hw m that show ?thesis by simp
qed

text \<open>The product of a whole number of bytes with a fraction, truncated, stays in range.\<close>

lemma mark_bytes:
  assumes "0 < m" "m < 2 ^ 53" "0 < w" "w \<le> 1"
  shows "f64_to_int64 ovf (f64_mul (f64_of_int m) (Fin w)) = \<lfloor>rnd_pos (of_int m * w)\<rfloor>"
    "0 \<le> \<lfloor>rnd_pos (of_int m * w)\<rfloor>" "\<lfloor>rnd_pos (of_int m * w)\<rfloor> \<le> m"
proof -
  have le: "rnd_pos (of_int m * w) \<le> of_int m"
    using rnd_pos_mono [of "of_int m * w" "of_int m"] rnd_pos_of_int [of m] assms by (simp add: mult_left_le)
  have nn: "0 \<le> rnd_pos (of_int m * w)" by (rule rnd_pos_nonneg)
  show "0 \<le> \<lfloor>rnd_pos (of_int m * w)\<rfloor>" using nn by simp
  show le': "\<lfloor>rnd_pos (of_int m * w)\<rfloor> \<le> m" using le by linarith
  have m53: "rat_of_int m < 2 ^ 53"
    using assms(2) of_int_less_iff [of m "2 ^ 53", where 'a = rat] by simp
  then have "rat_of_int m < 2 ^ 1024" by simp
  then have "f64_of_rat (of_int m * w) = Fin (rnd_pos (of_int m * w))"
    using le nn assms by (simp add: f64_of_rat_def Let_def)
  then show "f64_to_int64 ovf (f64_mul (f64_of_int m) (Fin w)) = \<lfloor>rnd_pos (of_int m * w)\<rfloor>"
    using assms nn le' le m53 by (simp add: f64_of_int_exact trunc_rat_def)
qed

lemma marks_ordered:
  assumes "quota_Valid q = None" "q_HighWater q \<noteq> FNaN" "q_LowWater q \<noteq> FNaN" "q_MaxBytes q < 2 ^ 53"
  shows "0 \<le> LowBytes fe q" "LowBytes fe q \<le> HighBytes fe q" "HighBytes fe q \<le> q_MaxBytes q"
proof -
  obtain hw lw where w: "q_HighWater q = Fin hw" "q_LowWater q = Fin lw" "0 < lw" "lw < hw" "hw \<le> 1" "0 < q_MaxBytes q"
    by (rule quota_Valid_marks [OF assms(1-3)])
  have "of_int (q_MaxBytes q) * lw \<le> of_int (q_MaxBytes q) * hw" using w by simp
  then have "\<lfloor>rnd_pos (of_int (q_MaxBytes q) * lw)\<rfloor> \<le> \<lfloor>rnd_pos (of_int (q_MaxBytes q) * hw)\<rfloor>"
    by (intro floor_mono rnd_pos_mono)
  with w assms(4) show "0 \<le> LowBytes fe q" "LowBytes fe q \<le> HighBytes fe q" "HighBytes fe q \<le> q_MaxBytes q"
    using mark_bytes [of "q_MaxBytes q"] by (simp_all add: LowBytes_def HighBytes_def)
qed

section \<open>Lemmas: the flush before a sweep\<close>

lemma touch_row_row_sizes: "map (\<lambda>(r, x). x_size x) (touch_row rt objs) = map (\<lambda>(r, x). x_size x) objs"
proof -
  have "mget objs k = Some x \<Longrightarrow> map (\<lambda>(r, x). x_size x) (mput k (x\<lparr>x_access := t, x_count := c\<rparr>) objs) =
      map (\<lambda>(r, x). x_size x) objs" for k x t c
    by (induction objs) auto
  then show ?thesis by (auto simp: touch_row_def split: option.split)
qed

lemma touch_fold_row_sizes:
  "map (\<lambda>(r, x). x_size x) (foldl (\<lambda>m rt. touch_row rt m) objs b) = map (\<lambda>(r, x). x_size x) objs"
  by (induction b arbitrary: objs) (simp_all add: touch_row_row_sizes)

lemma FlushTouches_total: "idx_total (snd (FlushTouches tf i)) = idx_total i"
  by (auto simp: idx_total_def FlushTouches_def Let_def touch_fold_row_sizes split: option.split)

lemma FlushTouches_rows: "idx_rows (snd (FlushTouches tf i)) = idx_rows i"
  by (metis FlushTouches_keys idx_rows_def length_map)

lemma FlushTouches_alive: "idx_alive i \<Longrightarrow> fst (FlushTouches None i) = None"
  by (auto simp: FlushTouches_def Let_def tx_err_def tx_fault_of_def idx_alive_def)

lemma FlushTouches_live: "idx_live i \<Longrightarrow> idx_live (snd (FlushTouches tf i))"
  by (simp add: idx_live_def index_ok_Flush)

lemma disk_sizes_index [simp]: "disk_sizes (s\<lparr>s_index := x\<rparr>) = disk_sizes s"
  by (simp add: disk_sizes_def fun_eq_iff)

text \<open>A quiet sweep is its loop on the flushed index, or nothing below the high water mark.\<close>

lemma Sweep_quiet:
  assumes "quiet_sweep env" "\<not> ev_closed ev" "s_index s = Some i" "idx_alive i"
  shows "Sweep fe env ev s =
    (let s1 = s\<lparr>s_index := Some (snd (FlushTouches None i))\<rparr>;
         ev1 = ev_bump (\<lambda>st. st\<lparr>es_Sweeps := es_Sweeps st + 1\<rparr>) ev in
     if idx_total i \<le> HighBytes fe (ev_quota ev) then Some ((0, 0, None), ev, s1)
     else case sweep_loop fe env (wrap64 (idx_total i - LowBytes fe (ev_quota ev))) 0 ev1 s1 0 0 of
              None \<Rightarrow> None
            | Some (Some e, ev2, s2, n, freed) \<Rightarrow> Some ((n, freed, Some e), ev2, s2)
            | Some (None, ev2, s2, n, freed) \<Rightarrow>
                Some ((n, freed, None),
                      ev_bump (\<lambda>st. st\<lparr>es_Evicted := es_Evicted st + n,
                                       es_BytesReclaimed := es_BytesReclaimed st + freed\<rparr>) ev2, s2))"
proof -
  obtain i1 where f: "FlushTouches None i = (None, i1)"
    using FlushTouches_alive [OF assms(4)] by (metis prod.collapse)
  have "idx_alive i1" "idx_total i1 = idx_total i"
    using idx_alive_ops(4) [of None i] FlushTouches_total [of None i] f assms(4) by simp_all
  then have "Totals None i1 = Inr (int (length (i_objects i1)), idx_total i)"
    using Totals_ok [of i1] by (simp add: idx_alive_def)
  with assms f show ?thesis by (simp add: Sweep_def quiet_sweep_def Let_def)
qed
text \<open>What a quiet sweep does, in terms of the flushed index.\<close>

lemma Sweep_runs:
  assumes "quiet_sweep env" "\<not> ev_closed ev" "0 < ev_batchSize ev" "store_synced s" "s_index s = Some i"
    "0 \<le> LowBytes fe (ev_quota ev)" "LowBytes fe (ev_quota ev) \<le> HighBytes fe (ev_quota ev)" "idx_total i < 2 ^ 63"
  defines "i1 \<equiv> snd (FlushTouches None i)"
  obtains (idle) "idx_total i \<le> HighBytes fe (ev_quota ev)"
      "Sweep fe env ev s = Some ((0, 0, None), ev, s\<lparr>s_index := Some i1\<rparr>)"
    | (drained) es i' s' ev' where "\<not> idx_total i \<le> HighBytes fe (ev_quota ev)"
      "Sweep fe env ev s = Some ((int (length es), sum_list (map e_size es), None), ev', s')"
      "eix.evicts (nat (ev_batchSize ev)) i1 es i'" "s_index s' = Some i'" "idx.synced (disk_sizes s') i'"
      "idx_total i' \<le> LowBytes fe (ev_quota ev)" "objects s' = objects s |` (- set (map entry_ref es))"
      "set es \<subseteq> set (entries i1)"
      "idx_rows i \<le> nat (ev_batchSize ev) \<longrightarrow> (\<forall>v \<in> set es. \<forall>w \<in> set (entries i1) - set es.
         Score fe (ev_policy ev) v \<le> Score fe (ev_policy ev) w)"
proof -
  let ?low = "LowBytes fe (ev_quota ev)"
  let ?s1 = "s\<lparr>s_index := Some i1\<rparr>"
  let ?ev1 = "ev_bump (\<lambda>st. st\<lparr>es_Sweeps := es_Sweeps st + 1\<rparr>) ev"
  let ?m = "wrap64 (idx_total i - ?low)"
  have live: "idx_live i" and sy: "idx.synced (disk_sizes s) i"
    using assms(4,5) by (auto simp: store_synced_def idx_live_def idx.synced_def)
  then have al: "idx_alive i" by (simp add: idx_live_def)
  have live1: "idx_live i1" and sy1: "idx.synced (disk_sizes ?s1) i1"
    using FlushTouches_live [OF live] sy by (simp_all add: i1_def idx.synced_def FlushTouches_sizes)
  note S = Sweep_quiet [OF assms(1,2,5) al, of fe, folded i1_def, unfolded Let_def]
  show ?thesis
  proof (cases "idx_total i \<le> HighBytes fe (ev_quota ev)")
    case True
    with S idle show ?thesis by simp
  next
    case False
    have ev1: "ev_batchSize ?ev1 = ev_batchSize ev" "ev_policy ?ev1 = ev_policy ev" by (simp_all add: ev_bump_def)
    have b: "0 < ev_batchSize ?ev1" using assms(3) ev1 by simp
    have "?m - 0 = idx_total i1 - ?low"
      using False assms(6-8) by (simp add: wrap64_id FlushTouches_total i1_def)
    from sweep_loop_quiet [OF assms(1) b assms(6) _ live1 sy1 this, of fe 0 0, unfolded ev1]
    obtain es i' s' where L: "sweep_loop fe env ?m 0 ?ev1 ?s1 0 0 =
          Some (None, ?ev1, s', 0 + int (length es), 0 + sum_list (map e_size es))"
        "eix.evicts (nat (ev_batchSize ev)) i1 es i'" "s_index s' = Some i'" "idx.synced (disk_sizes s') i'"
        "idx_total i' \<le> ?low" "objects s' = objects ?s1 |` (- set (map entry_ref es))" "set es \<subseteq> set (entries i1)"
        "idx_rows i1 \<le> nat (ev_batchSize ev) \<longrightarrow> (\<forall>v \<in> set es. \<forall>w \<in> set (entries i1) - set es.
           Score fe (ev_policy ev) v \<le> Score fe (ev_policy ev) w)" by auto
    have "Sweep fe env ev s = Some ((int (length es), sum_list (map e_size es), None),
        ev_bump (\<lambda>st. st\<lparr>es_Evicted := es_Evicted st + int (length es),
           es_BytesReclaimed := es_BytesReclaimed st + sum_list (map e_size es)\<rparr>) ?ev1, s')"
      using S False L(1) by simp
    with False L(2-8) show ?thesis by (intro drained [OF False]) (simp_all add: FlushTouches_rows i1_def)
  qed
qed

section \<open>Lemmas: sweeps with faults\<close>

text \<open>What every round keeps, the loop keeps.\<close>

lemma sweep_loop_invariant:
  assumes "sweep_loop fe env m k ev s n f = Some r" "I s"
    and step: "\<And>k batch ev s n f pr ev' s' n' f'. I s \<Longrightarrow> s_index s \<noteq> None \<Longrightarrow>
      sweep_round fe env k m batch ev s n f = (pr, ev', s', n', f') \<Longrightarrow> I s'"
  shows "I (fst (snd (snd r)))"
proof -
  have "fe' = fe \<longrightarrow> env' = env \<longrightarrow> m' = m \<longrightarrow> I s \<longrightarrow> I (fst (snd (snd r)))"
    if "sweep_loop fe' env' m' k ev s n f = Some r" for fe' env' m' k ev s n f r
  proof (rule sweep_loop.raw_induct [OF _ that], goal_cases)
    case (1 loop fe' env' m' k ev s n f r)
    show ?case
    proof (intro impI)
      assume p: "fe' = fe" "env' = env" "m' = m" "I s"
      show "I (fst (snd (snd r)))"
      proof (cases "fst (snd (snd r)) = s")
        case True
        with p show ?thesis by simp
      next
        case False
        then obtain i batch pr ev' s' n' f' where q: "s_index s = Some i"
            "sweep_round fe env k m batch ev s n f = (pr, ev', s', n', f')"
            "r = (None, overshoot ev', s', n', f') \<or> loop fe env m (Suc k) ev' s' n' f' = Some r"
          using 1(2) p by (auto split: if_splits option.splits sum.splits prod.splits)
        have "I s'" using step [OF p(4) _ q(2)] q(1) by simp
        then have "I (fst (snd (snd r)))" if "loop fe env m (Suc k) ev' s' n' f' = Some r" using 1(1) [OF that] by simp
        with q(3) \<open>I s'\<close> show ?thesis by auto
      qed
    qed
  qed
  with assms(1,2) show ?thesis by blast
qed

text \<open>Every object of the disk has a row with its size: the index never under-counts.\<close>

definition covered :: "Store \<Rightarrow> bool" where
  "covered s \<longleftrightarrow> (\<exists>i. s_index s = Some i \<and> disk_sizes s \<subseteq>\<^sub>m idx_size i)"

lemma RemoveBatch_covers:
  "idx_size i |` (- set refs) \<subseteq>\<^sub>m idx_size (snd (RemoveBatch refs tf i))"
proof (cases "fst (RemoveBatch refs tf i)")
  case None
  then show ?thesis by (simp add: map_le_def idx_size_def RemoveBatch_objects restrict_map_def)
next
  case (Some e)
  then have "i_objects (snd (RemoveBatch refs tf i)) = i_objects i" using failed_ops_keep_objects(3) by simp
  then show ?thesis by (auto simp: map_le_def idx_size_def restrict_map_def)
qed

lemma sweep_round_safe:
  assumes "sweep_round fe env k m batch ev s n f = (pr, ev', s', n', f')" "s_index s \<noteq> None"
  shows "\<exists>refs. objects s' = objects s |` (- refs)" "s_index s' \<noteq> None" "covered s \<Longrightarrow> covered s'"
proof -
  obtain i where i: "s_index s = Some i" using assms(2) by blast
  obtain vs where vs: "objects s' = objects s |` (- set (map entry_ref vs))" "s_root s' = s_root s"
      "s_index s' = Some (snd (RemoveBatch (map entry_ref vs) (sw_remove env k) i))"
    by (rule sweep_round_spec [OF assms(1) i])
  then show "\<exists>refs. objects s' = objects s |` (- refs)" "s_index s' \<noteq> None" by auto
  assume "covered s"
  then have "disk_sizes s \<subseteq>\<^sub>m idx_size i" using i by (simp add: covered_def)
  then have "disk_sizes s |` (- set (map entry_ref vs)) \<subseteq>\<^sub>m idx_size i |` (- set (map entry_ref vs))"
    by (auto simp: map_le_def restrict_map_def)
  also note RemoveBatch_covers
  finally have "disk_sizes s' \<subseteq>\<^sub>m idx_size (snd (RemoveBatch (map entry_ref vs) (sw_remove env k) i))"
    using disk_sizes_restrict [OF vs(1)] by simp
  with vs(3) show "covered s'" by (simp add: covered_def)
qed

lemma covered_flush: "s_index s = Some i \<Longrightarrow> covered (s\<lparr>s_index := Some (snd (FlushTouches tf i))\<rparr>) = covered s"
  by (simp add: covered_def FlushTouches_sizes)

lemma Sweep_safe:
  assumes "Sweep fe env ev s = Some (r, ev', s')"
  shows "(\<exists>refs. objects s' = objects s |` (- refs)) \<and> (covered s \<longrightarrow> covered s')"
proof (cases "s_index s")
  case None
  with assms show ?thesis
    by (auto simp: Sweep_def covered_def split: if_splits) (metis Compl_empty_eq restrict_map_top)+
next
  case (Some i)
  define s1 where "s1 = s\<lparr>s_index := Some (snd (FlushTouches (sw_flush env) i))\<rparr>"
  have s1: "objects s1 = objects s" "covered s1 = covered s" "s_index s1 \<noteq> None"
    using covered_flush [OF Some] by (simp_all add: s1_def)
  let ?I = "\<lambda>t. (\<exists>refs. objects t = objects s |` (- refs)) \<and> (covered s \<longrightarrow> covered t) \<and> s_index t \<noteq> None"
  have st: "?I s1" using s1 by (metis Compl_empty_eq restrict_map_top)
  have loop: "?I (fst (snd (snd q)))" if "sweep_loop fe env m 0 ev1 s1 0 0 = Some q" for q m ev1
  proof (rule sweep_loop_invariant [where I = ?I, OF that st])
    fix k batch ev t n f pr ev' t' n' f'
    assume I: "?I t" and R: "sweep_round fe env k m batch ev t n f = (pr, ev', t', n', f')"
    note r = sweep_round_safe [OF R]
    obtain A B where "objects t = objects s |` (- A)" "objects t' = objects t |` (- B)" using I r(1) by blast
    then have "objects t' = objects s |` (- (A \<union> B))" by (metis restrict_restrict_compl)
    with I r show "?I t'" by blast
  qed
  have "s' = s \<or> s' = s1 \<or> (\<exists>q m ev1. sweep_loop fe env m 0 ev1 s1 0 0 = Some q \<and> s' = fst (snd (snd q)))"
    using assms Some by (auto simp: Sweep_def s1_def Let_def split: if_splits option.splits sum.splits prod.splits)
  moreover have "?I s" using Some by (metis Compl_empty_eq restrict_map_top option.distinct(1))
  ultimately show ?thesis using st loop by blast
qed

lemma evict_round_progresses:
  assumes "sweep_round fe env k m batch ev s n f = (pr, ev', s', n', f')" "s_index s = Some i" "batch \<noteq> []" "f < m"
    "\<forall>e \<in> set batch. unlinkable env k e"
  shows pr
proof -
  let ?a = "\<lparr>sa_store = s, sa_ev = ev, sa_refs = [], sa_evicted = n, sa_freed = f, sa_progressed = False\<rparr>"
  have "\<forall>c \<in> set (rank_batch fe ev batch). unlinkable env k (c_entry c)"
    using assms(5) rank_batch(3) by blast
  then obtain nv where nv: "evicted (map c_entry (hq.drain nv (rank_batch fe ev batch))) ?a
        (evict_loop env k m (rank_batch fe ev batch) ?a)" "nv = 0 \<longrightarrow> rank_batch fe ev batch = [] \<or> \<not> f < m"
    using evict_loop_first [OF rank_batch(1), of fe ev batch env k ?a m] by auto
  have "length (rank_batch fe ev batch) = length batch" using arg_cong [OF rank_batch(2) [of fe ev batch], of size] by simp
  then have "nv \<noteq> 0" using nv(2) assms(3,4) by auto
  then have "map c_entry (hq.drain nv (rank_batch fe ev batch)) \<noteq> []" by (cases nv) (auto split: prod.split)
  then show pr using assms(1) nv(1) by (auto simp: sweep_round_def Let_def evicted_def split: prod.splits)
qed

text \<open>A round whose batch has only empty objects and whose batch removal fails leaves everything as it
  was, and counts as progress.\<close>

definition stuck :: "int \<Rightarrow> (objRef, idx_row) gomap \<Rightarrow> Evictor \<Rightarrow> Store \<Rightarrow> bool" where
  "stuck b objs ev s \<longleftrightarrow> ev_batchSize ev = b \<and> (\<exists>i. s_index s = Some i \<and> i_objects i = objs \<and> idx_alive i)"

lemma stuck_round:
  assumes "stuck b objs ev s" "sweep_round fe env k m batch ev s n f = (pr, ev', s', n', f')" "batch \<noteq> []" "f < m"
    "\<forall>e \<in> set batch. unlinkable env k e \<and> e_size e = 0" "sw_remove env k = Some (TxBegin err)"
  shows "pr \<and> stuck b objs ev' s' \<and> f' = f"
proof -
  obtain i where i: "s_index s = Some i" "i_objects i = objs" "idx_alive i" "ev_batchSize ev = b"
    using assms(1) by (auto simp: stuck_def)
  obtain vs where vs: "mset vs \<subseteq># mset batch" "f' = f + sum_list (map e_size vs)" "pr \<longleftrightarrow> vs \<noteq> []"
      "s_index s' = Some (snd (RemoveBatch (map entry_ref vs) (sw_remove env k) i))" "\<exists>st. ev' = ev\<lparr>ev_stats := st\<rparr>"
    by (rule sweep_round_spec [OF assms(2) i(1)])
  have pr using evict_round_progresses [OF assms(2) i(1) assms(3,4)] assms(5) by blast
  then have "vs \<noteq> []" using vs(3) by simp
  then have "fst (RemoveBatch (map entry_ref vs) (sw_remove env k) i) \<noteq> None"
    using i(3) assms(6) by (simp add: RemoveBatch_def Let_def tx_err_def tx_fault_of_def drop_pending_def idx_alive_def)
  then have "i_objects (snd (RemoveBatch (map entry_ref vs) (sw_remove env k) i)) = objs"
    using failed_ops_keep_objects(3) i(2) by blast
  moreover have "\<forall>e \<in> set vs. e_size e = 0" using assms(5) vs(1) by (metis mset_subset_eqD set_mset_mset)
  then have "sum_list (map e_size vs) = 0" by (induction vs) auto
  ultimately show ?thesis using \<open>pr\<close> vs(2,4,5) i by (auto simp: stuck_def)
qed

lemma sweep_loop_stuck:
  assumes "sweep_loop fe env m k ev s n f = Some r" "stuck b objs ev s" "f < m" "0 < b"
    "\<And>k. sw_ctx env k = None \<and> sw_coldest env k = None \<and> (\<exists>err. sw_remove env k = Some (TxBegin err))"
    "\<And>i. i_objects i = objs \<Longrightarrow> coldest_batch (nat b) i \<noteq> [] \<and>
       (\<forall>k. \<forall>e \<in> set (coldest_batch (nat b) i). unlinkable env k e \<and> e_size e = 0)"
  shows False
proof -
  have "\<not> (env' = env \<and> stuck b objs ev s \<and> f < m)"
    if "sweep_loop fe env' m k ev s n f = Some r" for fe env' m k ev s n f r
  proof (rule sweep_loop.raw_induct [OF _ that], goal_cases)
    case (1 loop fe' env' m' k ev s n f r)
    show ?case
    proof
      assume p: "env' = env \<and> stuck b objs ev s \<and> f < m'"
      then obtain i where i: "s_index s = Some i" "i_objects i = objs" "idx_alive i" "ev_batchSize ev = b"
        by (auto simp: stuck_def)
      let ?batch = "coldest_batch (nat b) i"
      have c: "ColdestN b None i = Inr ?batch" using ColdestN_batch [OF i(3) assms(4)] by simp
      obtain pr ev' s' n' f' where R: "sweep_round fe' env k m' ?batch ev s n f = (pr, ev', s', n', f')"
        by (cases "sweep_round fe' env k m' ?batch ev s n f") auto
      obtain err where "sw_remove env k = Some (TxBegin err)" using assms(5) by blast
      then have s: "pr" "stuck b objs ev' s'" "f' = f"
        using stuck_round [OF _ R, of b objs err] assms(6) [OF i(2)] p by blast+
      have "loop fe' env m' (Suc k) ev' s' n' f' = Some r"
        using 1(2) p i c R s(1) assms(5) [of k] assms(6) [OF i(2)] by auto
      from 1(1) [OF this] s p show False by blast
    qed
  qed
  with assms(1-3) show False by blast
qed

section \<open>Properties\<close>

text \<open>C23: The victim queue is a priority queue: popping everything out of a heap that was initialised from
  a batch yields the batch in the order of the scores, least first. The \<^verbatim>\<open>container/heap\<close>
  algorithms on a slice refine sorting.\<close>

theorem heap_pops_in_order:
  "mset (hq.drain (length h) (heap_Init h)) = mset h \<and> sorted (map c_score (hq.drain (length h) (heap_Init h)))"
  by (rule hq.drain_all)

text \<open>A valid quota with marks that are numbers, below 2^53 bytes, has ordered byte counts, so that
  eviction starts at or below the ceiling and drains to at most where it started.\<close>

theorem quota_marks_ordered:
  assumes "quota_Valid q = None" "q_HighWater q \<noteq> FNaN" "q_LowWater q \<noteq> FNaN" "q_MaxBytes q < 2 ^ 53"
  shows "0 \<le> LowBytes fe q \<and> LowBytes fe q \<le> HighBytes fe q \<and> HighBytes fe q \<le> q_MaxBytes q"
  using marks_ordered [OF assms] by blast

text \<open>C24: A sweep in which nothing fails ends, and drains the node. If the index describes the disk and
  the usage is above the high water mark, the sweep brings it to at most the low water mark; below
  the high water mark it removes nothing. It reports exactly the objects and bytes it removed, every
  other object is still there, and the index still describes the disk.\<close>

theorem Sweep_reaches_low_water:
  assumes "quiet_sweep env" "\<not> ev_closed ev" "0 < ev_batchSize ev" "store_synced s" "s_index s = Some i"
    "quota_Valid (ev_quota ev) = None" "q_HighWater (ev_quota ev) \<noteq> FNaN" "q_LowWater (ev_quota ev) \<noteq> FNaN"
    "q_MaxBytes (ev_quota ev) < 2 ^ 53" "idx_total i < 2 ^ 63"
  shows "\<exists>n freed ev' s' i' refs. Sweep fe env ev s = Some ((int n, freed, None), ev', s') \<and>
     s_index s' = Some i' \<and> store_synced s' \<and> idx_total i' = idx_total i - freed \<and> idx_rows i' + n = idx_rows i \<and>
     objects s' = objects s |` (- refs) \<and>
     (if idx_total i \<le> HighBytes fe (ev_quota ev) then n = 0 \<and> objects s' = objects s
      else idx_total i' \<le> LowBytes fe (ev_quota ev))"
proof -
  let ?i1 = "snd (FlushTouches None i)"
  note low = marks_ordered [OF assms(6-9), of fe]
  have live: "idx_live i" and sy: "idx.synced (disk_sizes s) i"
    using assms(4,5) by (auto simp: store_synced_def idx_live_def idx.synced_def)
  note live1 = FlushTouches_live [OF live, of None]
  show ?thesis
  proof (rule Sweep_runs [OF assms(1-5) low(1,2) assms(10)])
    assume le: "idx_total i \<le> HighBytes fe (ev_quota ev)"
      and S: "Sweep fe env ev s = Some ((0, 0, None), ev, s\<lparr>s_index := Some ?i1\<rparr>)"
    have "store_synced (s\<lparr>s_index := Some ?i1\<rparr>)"
      using live1 sy by (simp add: store_synced_def idx_live_def idx.synced_def FlushTouches_sizes)
    with S le show ?thesis
      by (intro exI [of _ 0] exI [of _ "0 :: int"] exI [of _ ev] exI [of _ "s\<lparr>s_index := Some ?i1\<rparr>"]
          exI [of _ ?i1] exI [of _ "{}"]) (simp add: FlushTouches_total FlushTouches_rows)
  next
    fix es i' s' ev'
    assume S: "\<not> idx_total i \<le> HighBytes fe (ev_quota ev)"
      "Sweep fe env ev s = Some ((int (length es), sum_list (map e_size es), None), ev', s')"
      "eix.evicts (nat (ev_batchSize ev)) ?i1 es i'" "s_index s' = Some i'" "idx.synced (disk_sizes s') i'"
      "idx_total i' \<le> LowBytes fe (ev_quota ev)" "objects s' = objects s |` (- set (map entry_ref es))"
    note acc = eix.evicts_account [OF S(3) live1, unfolded FlushTouches_total FlushTouches_rows]
    have "store_synced s'" using acc S(4,5) by (simp add: store_synced_def idx_live_def)
    with S acc show ?thesis
      by (intro exI [of _ "length es"] exI [of _ "sum_list (map e_size es)"] exI [of _ ev'] exI [of _ s'] exI [of _ i']
          exI [of _ "set (map entry_ref es)"]) auto
  qed
qed


text \<open>C25: When all rows fit in one batch, a sweep in which nothing fails evicts by score: no evicted row has
  a greater score than one that is kept.\<close>

theorem Sweep_evicts_least_scores:
  assumes "quiet_sweep env" "\<not> ev_closed ev" "0 < ev_batchSize ev" "store_synced s" "s_index s = Some i"
    "0 \<le> LowBytes fe (ev_quota ev)" "LowBytes fe (ev_quota ev) \<le> HighBytes fe (ev_quota ev)" "idx_total i < 2 ^ 63"
    "idx_rows i \<le> nat (ev_batchSize ev)"
  shows "\<exists>es r ev' s'. Sweep fe env ev s = Some (r, ev', s') \<and> set es \<subseteq> set (entries (snd (FlushTouches None i))) \<and>
     objects s' = objects s |` (- set (map entry_ref es)) \<and>
     (\<forall>v \<in> set es. \<forall>w \<in> set (entries (snd (FlushTouches None i))) - set es.
        Score fe (ev_policy ev) v \<le> Score fe (ev_policy ev) w)"
proof (rule Sweep_runs [OF assms(1-8)])
  let ?i1 = "snd (FlushTouches None i)"
  assume "Sweep fe env ev s = Some ((0, 0, None), ev, s\<lparr>s_index := Some ?i1\<rparr>)"
  then show ?thesis by (intro exI [of _ "[]"]) simp
next
  let ?i1 = "snd (FlushTouches None i)"
  fix es i' s' ev'
  assume "Sweep fe env ev s = Some ((int (length es), sum_list (map e_size es), None), ev', s')"
    "objects s' = objects s |` (- set (map entry_ref es))" "set es \<subseteq> set (entries ?i1)"
    "idx_rows i \<le> nat (ev_batchSize ev) \<longrightarrow> (\<forall>v \<in> set es. \<forall>w \<in> set (entries ?i1) - set es.
       Score fe (ev_policy ev) v \<le> Score fe (ev_policy ev) w)"
  with assms(9) show ?thesis by blast
qed


text \<open>C27: A sweep can run for ever. If the coldest batch holds only empty objects, the files can be
  unlinked, and the transaction that clears the rows keeps failing, then every round counts as
  progress and frees nothing, so the sweep of a node above its high water mark never returns.\<close>

theorem Sweep_can_spin:
  assumes "\<not> ev_closed ev" "s_index s = Some i" "idx_alive i" "0 < ev_batchSize ev"
    "sw_flush env = None" "sw_totals env = None"
    "\<And>k. sw_ctx env k = None \<and> sw_coldest env k = None \<and> sw_remove env k = Some (TxBegin err) \<and> (\<forall>ref. sw_rm env k ref = None)"
    "HighBytes fe (ev_quota ev) < idx_total i" "LowBytes fe (ev_quota ev) < idx_total i"
    "idx_total i - LowBytes fe (ev_quota ev) < 2 ^ 63"
    "i_objects i \<noteq> []"
    "\<And>e. e \<in> set (coldest_batch (nat (ev_batchSize ev)) (snd (FlushTouches None i))) \<Longrightarrow>
       ns_Valid (e_ns e) \<and> valid_key (e_key e) \<and> e_size e = 0"
  shows "Sweep fe env ev s = None"
proof -
  let ?i1 = "snd (FlushTouches None i)"
  let ?s1 = "s\<lparr>s_index := Some ?i1\<rparr>"
  let ?ev1 = "ev_bump (\<lambda>st. st\<lparr>es_Sweeps := es_Sweeps st + 1\<rparr>) ev"
  let ?m = "wrap64 (idx_total i - LowBytes fe (ev_quota ev))"
  let ?b = "ev_batchSize ev"
  have m: "0 < ?m" using assms(9,10) by (simp add: wrap64_id)
  have st: "stuck ?b (i_objects ?i1) ?ev1 ?s1" using assms(3) by (simp add: stuck_def ev_bump_def)
  have same: "coldest_batch (nat ?b) j = coldest_batch (nat ?b) ?i1" if "i_objects j = i_objects ?i1" for j
    using that by (simp add: coldest_batch_def entries_def)
  have ne: "coldest_batch (nat ?b) ?i1 \<noteq> []"
  proof -
    have "length (entries ?i1) = length (i_objects i)"
      using FlushTouches_rows [of None i] by (simp add: entries_def idx_rows_def)
    then have "0 < length (sort_key e_access (entries ?i1))" using assms(11) by simp
    then have "sort_key e_access (entries ?i1) \<noteq> []" by (metis length_greater_0_conv)
    then show ?thesis using assms(4) by (simp add: coldest_batch_def)
  qed
  have "sweep_loop fe env ?m 0 ?ev1 ?s1 0 0 = None"
  proof (rule ccontr)
    assume "sweep_loop fe env ?m 0 ?ev1 ?s1 0 0 \<noteq> None"
    then obtain r where r: "sweep_loop fe env ?m 0 ?ev1 ?s1 0 0 = Some r" by blast
    have c5: "sw_ctx env k = None \<and> sw_coldest env k = None \<and> (\<exists>err. sw_remove env k = Some (TxBegin err))" for k
      using assms(7) [of k] by blast
    have "unlinkable env k e \<and> e_size e = 0" if "e \<in> set (coldest_batch (nat ?b) ?i1)" for e k
      using assms(12) [OF that] assms(7) [of k] by (simp add: unlinkable_def entry_ref_def)
    then have c6: "coldest_batch (nat ?b) j \<noteq> [] \<and> (\<forall>k. \<forall>e \<in> set (coldest_batch (nat ?b) j). unlinkable env k e \<and> e_size e = 0)"
      if "i_objects j = i_objects ?i1" for j
      using same [OF that] ne by simp
    show False by (rule sweep_loop_stuck [OF r st m assms(4) c5 c6])
  qed
  moreover obtain i1 where f: "FlushTouches None i = (None, i1)"
    using FlushTouches_alive [OF assms(3)] by (metis prod.collapse)
  moreover have "Totals None i1 = Inr (int (length (i_objects i1)), idx_total i)"
    using Totals_ok [of i1] idx_alive_ops(4) [of None i] FlushTouches_total [of None i] f assms(3)
    by (simp add: idx_alive_def)
  ultimately show ?thesis using assms(1,2,5,6,8) by (simp add: Sweep_def Let_def)
qed

text \<open>On a platform where the conversion of a NaN to \<^verbatim>\<open>int64\<close> gives the least integer, as on amd64, a
  quota whose water marks are NaN is valid and never enforced: the bytes to free wrap around to a
  negative number.\<close>

theorem nan_marks_disable_quota:
  assumes "0 < q_MaxBytes (ev_quota ev)" "q_HighWater (ev_quota ev) = FNaN" "q_LowWater (ev_quota ev) = FNaN"
    "fe_ovf fe FNaN = - (2 ^ 63)" "quiet_sweep env" "\<not> ev_closed ev" "s_index s = Some i" "idx_alive i"
    "0 \<le> idx_total i" "idx_total i < 2 ^ 63"
  shows "quota_Valid (ev_quota ev) = None \<and>
     (\<exists>ev' s'. Sweep fe env ev s = Some ((0, 0, None), ev', s') \<and> objects s' = objects s)"
proof -
  have v: "quota_Valid (ev_quota ev) = None" using assms(1-3) by (simp add: quota_Valid_def)
  have "f64_mul x FNaN = FNaN" for x by (cases x) simp_all
  then have l: "LowBytes fe (ev_quota ev) = - (2 ^ 63)" using assms(3,4) by (simp add: LowBytes_def)
  have "wrap64 (idx_total i - LowBytes fe (ev_quota ev)) = idx_total i - 2 ^ 63"
    using assms(9,10) by (simp add: l wrap64_def)
  then have "\<not> 0 < wrap64 (idx_total i - LowBytes fe (ev_quota ev))" using assms(10) by simp
  then show ?thesis using v Sweep_quiet [OF assms(5-8), of fe] by (simp add: sweep_loop_done Let_def)
qed

section \<open>Witnesses\<close>

definition ex_fe :: float_env where
  "ex_fe = \<lparr>fe_log2 = (\<lambda>x. x), fe_ovf = (\<lambda>x. - (2 ^ 63))\<rparr>"

text \<open>A quota of one byte, so that the two-byte object of the example store is above it.\<close>

definition ex_quota :: Quota where
  "ex_quota = \<lparr>q_MaxBytes = 1, q_HighWater = Fin 1, q_LowWater = Fin (1 / 2)\<rparr>"

definition ex_evictor :: "int \<Rightarrow> Evictor" where
  "ex_evictor b = \<lparr>ev_quota = ex_quota, ev_policy = DefaultEvictionPolicy, ev_batchSize = b, ev_closed = False,
     ev_done = False, ev_stats = \<lparr>es_Sweeps = 0, es_Evicted = 0, es_BytesReclaimed = 0, es_Failures = 0, es_Overshoot = 0\<rparr>\<rparr>"

definition ex_sweep :: "tx_fault option \<Rightarrow> sweep_env" where
  "ex_sweep tf = \<lparr>sw_flush = None, sw_totals = None, sw_ctx = (\<lambda>k. None), sw_coldest = (\<lambda>k. None),
     sw_stat = (\<lambda>k r. None), sw_rm = (\<lambda>k r. None), sw_remove = (\<lambda>k. tf)\<rparr>"

definition ex_row :: "int \<Rightarrow> time \<Rightarrow> idx_row" where
  "ex_row n t = \<lparr>x_size = n, x_created = 0, x_access = t, x_count = 1\<rparr>"

definition ex_full_index :: Index where
  "ex_full_index = ex_empty_index\<lparr>i_objects := [((NamespaceCAS, ex_cas_key), ex_row 2 1)]\<rparr>"

definition ex_full :: Store where
  "ex_full = (ex_store_with NamespaceCAS ex_body)\<lparr>s_index := Some ex_full_index\<rparr>"

text \<open>An index whose coldest row is an empty object.\<close>

definition ex_spin_index :: Index where
  "ex_spin_index = ex_empty_index\<lparr>i_objects :=
     [((NamespaceAC, ex_cas_key), ex_row 0 0), ((NamespaceCAS, ex_cas_key), ex_row 2 1)]\<rparr>"

definition ex_spin :: Store where
  "ex_spin = ex_store\<lparr>s_index := Some ex_spin_index\<rparr>"

lemma ex_quota_valid: "quota_Valid ex_quota = None"
  by (simp add: quota_Valid_def ex_quota_def)

lemma ex_marks: "0 \<le> LowBytes fe ex_quota" "LowBytes fe ex_quota \<le> HighBytes fe ex_quota" "HighBytes fe ex_quota \<le> 1"
  using marks_ordered [OF ex_quota_valid, of fe] by (simp_all add: ex_quota_def)

lemma ex_full_synced: "store_synced ex_full"
proof -
  have "s_fs ex_full = mput (object_path [''data''] NamespaceCAS ex_cas_key) \<lparr>f_data = ex_body, f_mtime = 0, f_kind = Regular\<rparr> []"
    "s_root ex_full = [''data'']"
    by (simp_all add: ex_full_def ex_store_with_def ex_store_def)
  then have "objects ex_full = (visible [''data''] [])((NamespaceCAS, ex_cas_key) \<mapsto> ex_body)"
    using visible_mput_object [of NamespaceCAS ex_cas_key _ "[''data'']" "[]"] ex_cas_key_valid by simp
  then have "disk_sizes ex_full = [(NamespaceCAS, ex_cas_key) \<mapsto> 2]"
    by (auto simp: disk_sizes_def fun_eq_iff ex_body_def visible_def regular_at_def)
  moreover have "idx_size ex_full_index = [(NamespaceCAS, ex_cas_key) \<mapsto> 2]"
    by (auto simp: idx_size_def ex_full_index_def ex_empty_index_def ex_row_def fun_eq_iff)
  ultimately show ?thesis
    by (simp add: store_synced_def idx.synced_def ex_full_def idx_alive_def index_ok_def ex_full_index_def ex_empty_index_def)
qed

lemma ex_full_facts:
  "s_index ex_full = Some ex_full_index" "idx_total ex_full_index = 2" "idx_rows ex_full_index = 1"
  "quiet_sweep (ex_sweep None)" "\<not> ev_closed (ex_evictor b)" "ev_batchSize (ex_evictor b) = b"
  "ev_quota (ex_evictor b) = ex_quota"
  by (simp_all add: ex_full_def ex_full_index_def ex_empty_index_def idx_total_def ex_row_def idx_rows_def
      quiet_sweep_def ex_sweep_def ex_evictor_def)

theorem Sweep_reaches_low_water_witness:
  "\<exists>n freed ev' s' i'. Sweep ex_fe (ex_sweep None) (ex_evictor 512) ex_full = Some ((int n, freed, None), ev', s') \<and>
     s_index s' = Some i' \<and> idx_total i' \<le> LowBytes ex_fe ex_quota"
proof -
  have "\<not> idx_total ex_full_index \<le> HighBytes ex_fe ex_quota" using ex_marks(3) [of ex_fe] by (simp add: ex_full_facts)
  with Sweep_reaches_low_water [OF ex_full_facts(4,5) _ ex_full_synced ex_full_facts(1), of 512 ex_fe]
  show ?thesis by (auto simp: ex_full_facts ex_quota_valid) (auto simp: ex_quota_def)
qed

theorem Sweep_evicts_least_scores_witness:
  "\<exists>es r ev' s'. Sweep ex_fe (ex_sweep None) (ex_evictor 512) ex_full = Some (r, ev', s') \<and>
     objects s' = objects ex_full |` (- set (map entry_ref es))"
  using Sweep_evicts_least_scores [OF ex_full_facts(4,5) _ ex_full_synced ex_full_facts(1), of 512 ex_fe] ex_marks [of ex_fe]
  by (auto simp: ex_full_facts)


theorem Sweep_can_spin_witness: "Sweep ex_fe (ex_sweep (Some (TxBegin (IoErr ''locked'')))) (ex_evictor 1) ex_spin = None"
proof (rule Sweep_can_spin [where i = ex_spin_index and err = "IoErr ''locked''"])
  have f: "snd (FlushTouches None ex_spin_index) = ex_spin_index"
    by (simp add: FlushTouches_def ex_spin_index_def ex_empty_index_def)
  have c: "coldest_batch (Suc 0) ex_spin_index = [entry_of (NamespaceAC, ex_cas_key) (ex_row 0 0)]"
    by (simp add: coldest_batch_def entries_def ex_spin_index_def ex_empty_index_def ex_row_def)
  fix e
  assume "e \<in> set (coldest_batch (nat (ev_batchSize (ex_evictor 1))) (snd (FlushTouches None ex_spin_index)))"
  then show "ns_Valid (e_ns e) \<and> valid_key (e_key e) \<and> e_size e = 0"
    using ex_cas_key_valid by (simp add: f c ex_evictor_def) (simp add: entry_of_def ex_row_def)
next
  have t: "idx_total ex_spin_index = 2" by (simp add: idx_total_def ex_spin_index_def ex_row_def)
  show "HighBytes ex_fe (ev_quota (ex_evictor 1)) < idx_total ex_spin_index"
    "LowBytes ex_fe (ev_quota (ex_evictor 1)) < idx_total ex_spin_index"
    "idx_total ex_spin_index - LowBytes ex_fe (ev_quota (ex_evictor 1)) < 2 ^ 63"
    using ex_marks [of ex_fe] by (simp_all add: t ex_full_facts)
qed (simp_all add: ex_evictor_def ex_spin_def ex_spin_index_def ex_empty_index_def ex_sweep_def idx_alive_def)
end
