(* ===== verification/Protocol.thy ===== *)
theory Protocol
  imports ObjectStore Rendezvous
begin

text \<open>
  \<^verbatim>\<open>internal/protocol/protocol.go\<close>: the hop roles that bound forwarding, the outcome of a write, and
  the readers a backend returns (\<^verbatim>\<open>localObject\<close> of \<^verbatim>\<open>coordinator.go\<close> and \<^verbatim>\<open>peerObject\<close> of
  \<^verbatim>\<open>client.go\<close>); and the HTTP messages that nodes exchange.
\<close>

section \<open>Hops\<close>

datatype Hop = HopClient | HopCoordinator | HopReplica | HopRepair | HopRead

text \<open>The constants of the type \<^verbatim>\<open>Hop\<close>, which are their header values.\<close>

fun hop_string :: "Hop \<Rightarrow> string" where
  "hop_string HopClient = ''''"
| "hop_string HopCoordinator = ''coordinator''"
| "hop_string HopReplica = ''replica''"
| "hop_string HopRepair = ''repair''"
| "hop_string HopRead = ''read''"

definition Terminal :: "Hop \<Rightarrow> bool" where
  "Terminal h = (h = HopReplica \<or> h = HopRead \<or> h = HopRepair)"

definition Forwarded :: "Hop \<Rightarrow> bool" where
  "Forwarded h = (h \<noteq> HopClient)"

definition ParseHop :: "string \<Rightarrow> Hop" where
  "ParseHop s =
     (if s = hop_string HopCoordinator then HopCoordinator
      else if s = hop_string HopReplica then HopReplica
      else if s = hop_string HopRepair then HopRepair
      else if s = hop_string HopRead then HopRead
      else if s = hop_string HopClient then HopClient
      else HopReplica)"

section \<open>Headers\<close>

definition HeaderNode :: string where
  "HeaderNode = ''X-Kilncache-Node''"

definition HeaderForwardedBy :: string where
  "HeaderForwardedBy = ''X-Kilncache-Forwarded-By''"

definition HeaderHop :: string where
  "HeaderHop = ''X-Kilncache-Hop''"

definition HeaderSource :: string where
  "HeaderSource = ''X-Kilncache-Source''"

definition HeaderHolders :: string where
  "HeaderHolders = ''X-Kilncache-Holders''"

definition HeaderCopies :: string where
  "HeaderCopies = ''X-Kilncache-Copies''"

definition HeaderCopiesWanted :: string where
  "HeaderCopiesWanted = ''X-Kilncache-Copies-Wanted''"

definition HeaderAlreadyStored :: string where
  "HeaderAlreadyStored = ''X-Kilncache-Already-Stored''"

text \<open>\<^verbatim>\<open>Header.Get\<close>: the empty string when the header is absent.\<close>

definition header_get :: "(string, string) gomap \<Rightarrow> string \<Rightarrow> string" where
  "header_get hs name = (case mget hs name of Some v \<Rightarrow> v | None \<Rightarrow> '''')"

section \<open>Messages\<close>

text \<open>
  A body is what its reader delivers: the bytes, and the error it ends with (\<open>None\<close> is EOF). The
  length of a request or response is its \<^verbatim>\<open>ContentLength\<close>, \<open>-1\<close> when it is unknown.
\<close>

type_synonym body = "bytes \<times> go_error option"

record http_req =
  rq_method :: string
  rq_host :: string
  rq_path :: string
  rq_headers :: "(string, string) gomap"
  rq_length :: int
  rq_body :: body

record http_resp =
  rs_status :: nat
  rs_headers :: "(string, string) gomap"
  rs_length :: int
  rs_body :: body

section \<open>Outcomes and readers\<close>

record PutOutcome =
  oc_Size :: int
  oc_AlreadyStored :: bool
  oc_Copies :: nat
  oc_Wanted :: nat
  oc_Holders :: "string list"
  oc_Durable :: bool

definition zero_outcome :: PutOutcome where
  "zero_outcome = \<lparr>oc_Size = 0, oc_AlreadyStored = False, oc_Copies = 0, oc_Wanted = 0, oc_Holders = [],
     oc_Durable = False\<rparr>"

record ObjectInfo =
  oi_Size :: int
  oi_Source :: string

record peerObject =
  po_body :: body
  po_size :: int
  po_source :: string
  po_read :: int

text \<open>An \<^verbatim>\<open>ObjectReader\<close> is a local file or a peer's response.\<close>

datatype ObjectReader = LocalObject Object | PeerObject peerObject

fun or_Size :: "ObjectReader \<Rightarrow> int" where
  "or_Size (LocalObject ob) = t_Size (o_stat ob)"
| "or_Size (PeerObject p) = po_size p"

fun or_Source :: "ObjectReader \<Rightarrow> string" where
  "or_Source (LocalObject ob) = ''local''"
| "or_Source (PeerObject p) = po_source p"

text \<open>\<^verbatim>\<open>peerObject.WriteTo\<close>: the loop of \<^verbatim>\<open>copyVerified\<close> without a hasher, over the response body. A
  write that fails does so at the offset \<open>wfail\<close>.\<close>

definition peerCopyBufSize :: nat where
  "peerCopyBufSize = 256 * 1024"

fun copyPeer :: "bytes list \<Rightarrow> go_error option \<Rightarrow> (nat \<times> go_error) option \<Rightarrow> bytes \<times> go_error option" where
  "copyPeer [] rerr wfail = ([], rerr)"
| "copyPeer (c # cs) rerr None = (case copyPeer cs rerr None of (w, e) \<Rightarrow> (c @ w, e))"
| "copyPeer (c # cs) rerr (Some (n, err)) =
     (if n < length c then (take n c, Some err)
      else case copyPeer cs rerr (Some (n - length c, err)) of (w, e) \<Rightarrow> (c @ w, e))"

definition peer_WriteTo :: "(nat \<times> go_error) option \<Rightarrow> peerObject \<Rightarrow> bytes \<times> go_error option \<times> peerObject" where
  "peer_WriteTo wfail p =
     (case copyPeer (chunk_list (peerCopyBufSize - 1) (fst (po_body p))) (snd (po_body p)) wfail of
        (w, e) \<Rightarrow> (w, e, p\<lparr>po_read := po_read p + int (length w)\<rparr>))"

text \<open>\<open>rfail\<close> is a failed read of the local file.\<close>

fun or_WriteTo ::
  "(nat \<times> go_error) option \<Rightarrow> (nat \<times> go_error) option \<Rightarrow> ObjectReader \<Rightarrow> bytes \<times> go_error option \<times> ObjectReader" where
  "or_WriteTo rfail wfail (LocalObject ob) =
     (case WriteTo rfail wfail ob of (w, e, ob') \<Rightarrow> (w, e, LocalObject ob'))"
| "or_WriteTo rfail wfail (PeerObject p) =
     (case peer_WriteTo wfail p of (w, e, p') \<Rightarrow> (w, e, PeerObject p'))"

text \<open>\<^verbatim>\<open>Verify\<close> is a no-op for a peer's bytes.\<close>

fun or_Verify :: "(bytes \<Rightarrow> bytes) \<Rightarrow> ObjectReader \<Rightarrow> Store \<Rightarrow> go_error option \<times> Store" where
  "or_Verify sha (LocalObject ob) s = Verify sha ob s"
| "or_Verify sha (PeerObject p) s = (None, s)"

fun or_Close :: "ObjectReader \<Rightarrow> Store \<Rightarrow> Store" where
  "or_Close (LocalObject ob) s = obj_Close ob s"
| "or_Close (PeerObject p) s = s"

section \<open>Lemmas\<close>

lemma ParseHop_string [simp]: "ParseHop (hop_string h) = h"
  by (cases h) (simp_all add: ParseHop_def)

lemma copyPeer_None: "copyPeer cs rerr None = (concat cs, rerr)"
  by (induction cs) auto

lemma peer_WriteTo_all:
  "peer_WriteTo None p = (fst (po_body p), snd (po_body p), p\<lparr>po_read := po_read p + int (length (fst (po_body p)))\<rparr>)"
  by (simp add: peer_WriteTo_def copyPeer_None split: prod.split)

lemma copyPeer_prefix: "copyPeer cs rerr wfl = (w, e) \<Longrightarrow> \<exists>rest. concat cs = w @ rest"
proof (induction cs rerr wfl arbitrary: w e rule: copyPeer.induct)
  case (2 c cs rerr)
  then show ?case by (fastforce split: prod.splits)
next
  case (3 c cs rerr n err)
  show ?case
  proof (cases "n < length c")
    case True
    with 3 have "w = take n c" by simp
    then show ?thesis by (metis append_take_drop_id append.assoc concat.simps(2))
  next
    case False
    with 3 show ?thesis by (fastforce split: prod.splits)
  qed
qed simp

lemma copyPeer_ok: "copyPeer cs rerr wfl = (w, None) \<Longrightarrow> w = concat cs \<and> rerr = None"
  by (induction cs rerr wfl arbitrary: w rule: copyPeer.induct) (auto split: if_splits prod.splits)

lemma header_get_mput [simp]: "header_get (mput k v hs) k' = (if k' = k then v else header_get hs k')"
  by (simp add: header_get_def)

section \<open>Properties\<close>

text \<open>The roles survive the wire, and only the five role names are more than a replica write: parsing
  what a node sends gives the role it meant, and a header value that is no role name parses as a
  terminal role.\<close>

theorem hop_roundtrip:
  "ParseHop (hop_string h) = h \<and> ((\<forall>g. s \<noteq> hop_string g) \<longrightarrow> Terminal (ParseHop s) \<and> ParseHop s = HopReplica)"
proof -
  have "ParseHop s = HopReplica" if "\<forall>g. s \<noteq> hop_string g"
    using that by (auto simp: ParseHop_def split: if_splits simp del: hop_string.simps)
  then show ?thesis by (simp add: Terminal_def)
qed

end
