(* ===== verification/PeerClient.thy ===== *)
theory PeerClient
  imports Protocol
begin

text \<open>
  \<^verbatim>\<open>internal/cluster/client.go\<close>: the client one node uses to reach another. Sending a request is an
  argument, a function \<open>tr\<close> from the request and the state of the cluster to a response (or a
  transport error, which includes a deadline that expired) and the new state; building the request
  fails when the peer's URL does not parse.
\<close>

type_synonym 'w transport = "http_req \<Rightarrow> 'w \<Rightarrow> http_resp result \<times> 'w"

record HTTPPeerClient =
  pc_self :: string
  pc_badURL :: "string \<Rightarrow> go_error option"

definition objectURL :: "Member \<Rightarrow> namespace \<Rightarrow> key \<Rightarrow> string" where
  "objectURL peer ns key = m_URL peer @ ''/'' @ ns @ ''/'' @ key"

text \<open>The request for \<^verbatim>\<open>objectURL\<close>, split into the peer's base URL and the path below it.\<close>

definition newRequest ::
  "HTTPPeerClient \<Rightarrow> string \<Rightarrow> Member \<Rightarrow> namespace \<Rightarrow> key \<Rightarrow> body \<Rightarrow> int \<Rightarrow> Hop \<Rightarrow> http_req result" where
  "newRequest c method peer ns key bd len hop =
     (case pc_badURL c (objectURL peer ns key) of
        Some e \<Rightarrow> Inl e
      | None \<Rightarrow> Inr \<lparr>rq_method = method, rq_host = m_URL peer, rq_path = ''/'' @ ns @ ''/'' @ key,
                     rq_headers = [(HeaderForwardedBy, pc_self c), (HeaderHop, hop_string hop)],
                     rq_length = len, rq_body = bd\<rparr>)"

text \<open>The first 4096 bytes of a response, which an error quotes.\<close>

definition quote_body :: "http_resp \<Rightarrow> string" where
  "quote_body resp = take 4096 (fst (rs_body resp))"

definition peer_Put ::
  "'w transport \<Rightarrow> HTTPPeerClient \<Rightarrow> Member \<Rightarrow> namespace \<Rightarrow> key \<Rightarrow> body \<Rightarrow> int \<Rightarrow> Hop \<Rightarrow> 'w \<Rightarrow> go_error option \<times> 'w" where
  "peer_Put tr c peer ns key bd sz hop w =
     (case newRequest c ''PUT'' peer ns key bd sz hop of
        Inl e \<Rightarrow> (Some (PeerError (m_Name peer) ''put'' 0 '''' (Some e)), w)
      | Inr req0 \<Rightarrow>
        let req = (if sz \<ge> 0 then req0\<lparr>rq_headers := mput ''Content-Type'' ''application/octet-stream'' (rq_headers req0)\<rparr>
                   else req0) in
        (case tr req w of
           (Inl e, w') \<Rightarrow> (Some (PeerError (m_Name peer) ''put'' 0 '''' (Some e)), w')
         | (Inr resp, w') \<Rightarrow>
             if rs_status resp \<ge> 200 \<and> rs_status resp < 300 then (None, w')
             else (Some (PeerError (m_Name peer) ''put'' (rs_status resp) (quote_body resp) None), w')))"

definition peer_Get ::
  "'w transport \<Rightarrow> HTTPPeerClient \<Rightarrow> Member \<Rightarrow> namespace \<Rightarrow> key \<Rightarrow> Hop \<Rightarrow> 'w \<Rightarrow> peerObject result \<times> 'w" where
  "peer_Get tr c peer ns key hop w =
     (case newRequest c ''GET'' peer ns key ([], None) 0 hop of
        Inl e \<Rightarrow> (Inl (PeerError (m_Name peer) ''get'' 0 '''' (Some e)), w)
      | Inr req \<Rightarrow>
        (case tr req w of
           (Inl e, w') \<Rightarrow> (Inl (PeerError (m_Name peer) ''get'' 0 '''' (Some e)), w')
         | (Inr resp, w') \<Rightarrow>
             if rs_status resp = 404 then (Inl ErrPeerNotFound, w')
             else if rs_status resp \<noteq> 200
             then (Inl (PeerError (m_Name peer) ''get'' (rs_status resp) (quote_body resp) None), w')
             else let src = header_get (rs_headers resp) HeaderNode in
               (Inr \<lparr>po_body = rs_body resp, po_size = rs_length resp,
                     po_source = (if src = '''' then m_Name peer else src), po_read = 0\<rparr>, w')))"

definition peer_Stat ::
  "'w transport \<Rightarrow> HTTPPeerClient \<Rightarrow> Member \<Rightarrow> namespace \<Rightarrow> key \<Rightarrow> Hop \<Rightarrow> 'w \<Rightarrow> ObjectInfo result \<times> 'w" where
  "peer_Stat tr c peer ns key hop w =
     (case newRequest c ''HEAD'' peer ns key ([], None) 0 hop of
        Inl e \<Rightarrow> (Inl (PeerError (m_Name peer) ''stat'' 0 '''' (Some e)), w)
      | Inr req \<Rightarrow>
        (case tr req w of
           (Inl e, w') \<Rightarrow> (Inl (PeerError (m_Name peer) ''stat'' 0 '''' (Some e)), w')
         | (Inr resp, w') \<Rightarrow>
             if rs_status resp = 200 then (Inr \<lparr>oi_Size = rs_length resp, oi_Source = m_Name peer\<rparr>, w')
             else if rs_status resp = 404 then (Inl ErrPeerNotFound, w')
             else (Inl (PeerError (m_Name peer) ''stat'' (rs_status resp) '''' None), w')))"

section \<open>Lemmas\<close>

lemma newRequest_Inr:
  assumes "newRequest c meth peer ns key bd len hop = Inr req"
  shows "rq_method req = meth" "rq_host req = m_URL peer" "rq_path req = ''/'' @ ns @ ''/'' @ key"
    "header_get (rq_headers req) HeaderHop = hop_string hop" "header_get (rq_headers req) HeaderForwardedBy = pc_self c"
    "rq_length req = len" "rq_body req = bd" "rq_host req @ rq_path req = objectURL peer ns key"
  using assms by (auto simp: newRequest_def header_get_def HeaderHop_def HeaderForwardedBy_def objectURL_def
      split: option.splits)

text \<open>An error of the client is a missing object exactly when the peer answered 404.\<close>

lemma peer_Get_errors:
  assumes "peer_Get tr c peer ns key hop w = (Inl e, w')"
  shows "errors_is e SPeerNotFound \<longrightarrow> e = ErrPeerNotFound \<or> (\<exists>e'. as_peer_error e = Some e')"
  using assms by (auto simp: peer_Get_def Let_def split: sum.splits prod.splits if_splits)

lemma peer_Put_ok:
  assumes "peer_Put tr c peer ns key bd sz hop w = (None, w')"
  obtains req resp where "tr req w = (Inr resp, w')" "rs_status resp \<ge> 200" "rs_status resp < 300"
    "rq_method req = ''PUT''" "rq_host req = m_URL peer" "rq_path req = ''/'' @ ns @ ''/'' @ key"
    "header_get (rq_headers req) HeaderHop = hop_string hop" "header_get (rq_headers req) HeaderForwardedBy = pc_self c"
    "rq_length req = sz" "rq_body req = bd"
proof -
  obtain req0 where r0: "newRequest c ''PUT'' peer ns key bd sz hop = Inr req0"
    using assms by (auto simp: peer_Put_def split: sum.splits)
  note n = newRequest_Inr [OF r0]
  define req where "req = (if sz \<ge> 0 then req0\<lparr>rq_headers := mput ''Content-Type'' ''application/octet-stream'' (rq_headers req0)\<rparr>
      else req0)"
  obtain resp where "tr req w = (Inr resp, w')" "rs_status resp \<ge> 200" "rs_status resp < 300"
    using assms r0 by (auto simp: peer_Put_def req_def [symmetric] Let_def split: sum.splits prod.splits if_splits)
  moreover have "rq_method req = ''PUT''" "rq_host req = m_URL peer" "rq_path req = ''/'' @ ns @ ''/'' @ key"
    "rq_length req = sz" "rq_body req = bd"
    using n by (simp_all add: req_def)
  moreover have "header_get (rq_headers req) HeaderHop = hop_string hop"
    "header_get (rq_headers req) HeaderForwardedBy = pc_self c"
    using n by (simp_all add: req_def HeaderHop_def HeaderForwardedBy_def)
  ultimately show ?thesis using that by blast
qed

end
