(* ===== verification/Coordinator.thy ===== *)
theory Coordinator
  imports PeerClient
begin

text \<open>
  \<^verbatim>\<open>internal/cluster/coordinator.go\<close>: placement, synchronous replication and read fallback on one node.
  The state is that of the whole cluster, a function from node names to their coordinators, because a
  peer call changes the peer's state. The peer client is the record \<open>peer_ops\<close>, and the faults
  of a request (its put environments, open and stat errors on each node) are the record \<open>coord_env\<close>.

  The replica writes of a fan-out run in the order of their targets; they go to distinct nodes and
  store one copy each, so their interleaving does not matter.
\<close>

section \<open>State\<close>

record CoordinatorStats =
  cs_LocalHits :: int
  cs_PeerHits :: int
  cs_Misses :: int
  cs_ForwardedPuts :: int
  cs_ReplicaWrites :: int
  cs_ReplicaFailures :: int
  cs_CoordinatedPuts :: int
  cs_InsufficientAcks :: int
  cs_ReadFallbacks :: int
  cs_RepairDeclined :: int

definition zero_coord_stats :: CoordinatorStats where
  "zero_coord_stats = \<lparr>cs_LocalHits = 0, cs_PeerHits = 0, cs_Misses = 0, cs_ForwardedPuts = 0, cs_ReplicaWrites = 0,
     cs_ReplicaFailures = 0, cs_CoordinatedPuts = 0, cs_InsufficientAcks = 0, cs_ReadFallbacks = 0, cs_RepairDeclined = 0\<rparr>"

text \<open>\<open>co_high\<close> is the high water mark the quota probe compares with, once the probe is installed.\<close>

record coord =
  co_ring :: Ring
  co_local :: Store
  co_peers :: bool
  co_replicaCount :: int
  co_high :: "int option"
  co_stats :: CoordinatorStats

type_synonym world = "string \<Rightarrow> coord"

definition NewCoordinator :: "Ring option \<Rightarrow> Store option \<Rightarrow> bool \<Rightarrow> int \<Rightarrow> coord result" where
  "NewCoordinator ring store peers replicaCount =
     (case ring of
        None \<Rightarrow> Inl (NewError ''cluster: ring is required'')
      | Some r \<Rightarrow>
     (case store of
        None \<Rightarrow> Inl (NewError ''cluster: local store is required'')
      | Some s \<Rightarrow>
          let rf1 = (if replicaCount < 1 then 1 else replicaCount);
              rf = (if rf1 > int (Size r) then int (Size r) else rf1)
          in Inr \<lparr>co_ring = r, co_local = s, co_peers = peers, co_replicaCount = rf, co_high = None,
                  co_stats = zero_coord_stats\<rparr>))"

definition SetQuotaProbe :: "int \<Rightarrow> coord \<Rightarrow> coord" where
  "SetQuotaProbe high c = c\<lparr>co_high := Some high\<rparr>"

definition cbump :: "(CoordinatorStats \<Rightarrow> CoordinatorStats) \<Rightarrow> string \<Rightarrow> world \<Rightarrow> world" where
  "cbump f me w = w(me := (w me)\<lparr>co_stats := f (co_stats (w me))\<rparr>)"

definition set_store :: "string \<Rightarrow> Store \<Rightarrow> world \<Rightarrow> world" where
  "set_store me s w = w(me := (w me)\<lparr>co_local := s\<rparr>)"

section \<open>Environment\<close>

record peer_ops =
  pp_Put :: "Member \<Rightarrow> namespace \<Rightarrow> key \<Rightarrow> body \<Rightarrow> int \<Rightarrow> Hop \<Rightarrow> world \<Rightarrow> go_error option \<times> world"
  pp_Get :: "Member \<Rightarrow> namespace \<Rightarrow> key \<Rightarrow> Hop \<Rightarrow> world \<Rightarrow> peerObject result \<times> world"
  pp_Stat :: "Member \<Rightarrow> namespace \<Rightarrow> key \<Rightarrow> Hop \<Rightarrow> world \<Rightarrow> ObjectInfo result \<times> world"

text \<open>\<open>ce_open n t\<close> are the errors of opening an object on node \<open>n\<close> for the target \<open>t\<close>, the empty name for a
  read that serves a request.\<close>

record coord_env =
  ce_put :: "string \<Rightarrow> put_env"
  ce_open :: "string \<Rightarrow> string \<Rightarrow> go_error option \<times> go_error option"
  ce_stat :: "string \<Rightarrow> go_error option"
  ce_totals :: "string \<Rightarrow> go_error option"
  ce_now :: time

definition local_Put ::
  "(bytes \<Rightarrow> bytes) \<Rightarrow> coord_env \<Rightarrow> string \<Rightarrow> namespace \<Rightarrow> key \<Rightarrow> body \<Rightarrow> int \<Rightarrow> world \<Rightarrow> PutResult result \<times> world" where
  "local_Put sha env me ns key bd declared w =
     (case Put sha ns key declared ((ce_put env me)\<lparr>pe_body := fst bd, pe_body_err := snd bd\<rparr>) (co_local (w me)) of
        (r, s') \<Rightarrow> (r, set_store me s' w))"

definition local_Get ::
  "coord_env \<Rightarrow> string \<Rightarrow> string \<Rightarrow> namespace \<Rightarrow> key \<Rightarrow> world \<Rightarrow> Object result \<times> world" where
  "local_Get env me target ns key w =
     (case store_Get ns key (fst (ce_open env me target)) (snd (ce_open env me target)) (ce_now env) (co_local (w me)) of
        (r, s') \<Rightarrow> (r, set_store me s' w))"

definition local_Stat ::
  "coord_env \<Rightarrow> string \<Rightarrow> namespace \<Rightarrow> key \<Rightarrow> world \<Rightarrow> Stat result \<times> world" where
  "local_Stat env me ns key w =
     (case store_Stat ns key (ce_stat env me) (ce_now env) (co_local (w me)) of (r, s') \<Rightarrow> (r, set_store me s' w))"

text \<open>The quota probe that \<^verbatim>\<open>node.New\<close> installs: unknown usage counts as room.\<close>

definition quota_probe :: "go_error option \<Rightarrow> int \<Rightarrow> Store \<Rightarrow> bool \<times> int \<times> int" where
  "quota_probe fault high s =
     (case s_index s of
        None \<Rightarrow> (False, 0, 0)
      | Some i \<Rightarrow> (case Totals fault i of
                     Inl e \<Rightarrow> (False, 0, 0)
                   | Inr (_, used) \<Rightarrow> (used > high, used, high)))"

definition overHighWater :: "coord_env \<Rightarrow> string \<Rightarrow> world \<Rightarrow> bool \<times> int \<times> int" where
  "overHighWater env me w =
     (case co_high (w me) of
        None \<Rightarrow> (False, 0, 0)
      | Some high \<Rightarrow> quota_probe (ce_totals env me) high (co_local (w me)))"

section \<open>Writing\<close>

type_synonym put_answer = "PutOutcome \<times> go_error option"

definition selfIn :: "Ring \<Rightarrow> Member list \<Rightarrow> bool" where
  "selfIn r ms = list_ex (\<lambda>m. m_Name m = r_self r) ms"

definition putLocalOnly ::
  "(bytes \<Rightarrow> bytes) \<Rightarrow> coord_env \<Rightarrow> string \<Rightarrow> namespace \<Rightarrow> key \<Rightarrow> body \<Rightarrow> int \<Rightarrow> world \<Rightarrow> put_answer \<times> world" where
  "putLocalOnly sha env me ns key bd sz w =
     (case local_Put sha env me ns key bd sz w of
        (Inl e, w') \<Rightarrow> ((zero_outcome, Some e), w')
      | (Inr res, w') \<Rightarrow>
          ((\<lparr>oc_Size = pr_Size res, oc_AlreadyStored = pr_AlreadyStored res, oc_Copies = 1, oc_Wanted = 1,
             oc_Holders = [r_self (co_ring (w me))], oc_Durable = pr_Durable res\<rparr>, None),
           cbump (\<lambda>st. st\<lparr>cs_ReplicaWrites := cs_ReplicaWrites st + 1\<rparr>) me w'))"

definition replicateOne ::
  "peer_ops \<Rightarrow> coord_env \<Rightarrow> string \<Rightarrow> namespace \<Rightarrow> key \<Rightarrow> int \<Rightarrow> Member \<Rightarrow> world \<Rightarrow> go_error option \<times> world" where
  "replicateOne pc env me ns key sz target w =
     (case local_Get env me (m_Name target) ns key w of
        (Inl e, w') \<Rightarrow> (Some (Wrapped (''reopen local copy of '' @ short key @ '' for replication'') e), w')
      | (Inr ob, w') \<Rightarrow>
         (case pp_Put pc target ns key (o_data ob, None) sz HopReplica w' of
            (r, w2) \<Rightarrow> (r, set_store me (obj_Close ob (co_local (w2 me))) w2)))"

fun fanOut ::
  "peer_ops \<Rightarrow> coord_env \<Rightarrow> string \<Rightarrow> namespace \<Rightarrow> key \<Rightarrow> int \<Rightarrow> Member list \<Rightarrow> world \<Rightarrow>
     (string \<times> go_error option) list \<times> world" where
  "fanOut pc env me ns key sz [] w = ([], w)"
| "fanOut pc env me ns key sz (t # ts) w =
     (case replicateOne pc env me ns key sz t w of
        (r, w1) \<Rightarrow> (case fanOut pc env me ns key sz ts w1 of (rs, w2) \<Rightarrow> ((m_Name t, r) # rs, w2)))"

definition acked :: "(string \<times> go_error option) list \<Rightarrow> string list" where
  "acked rs = map fst (filter (\<lambda>r. snd r = None) rs)"

definition causes_of :: "(string \<times> go_error option) list \<Rightarrow> go_error list" where
  "causes_of rs = List.map_filter snd rs"

definition coordinate ::
  "(bytes \<Rightarrow> bytes) \<Rightarrow> peer_ops \<Rightarrow> coord_env \<Rightarrow> string \<Rightarrow> namespace \<Rightarrow> key \<Rightarrow> body \<Rightarrow> int \<Rightarrow> world \<Rightarrow> put_answer \<times> world" where
  "coordinate sha pc env me ns key bd sz w =
     (let r = co_ring (w me); holders = Holders sha r key (co_replicaCount (w me)); wanted = length holders in
      case local_Put sha env me ns key bd sz w of
        (Inl e, w') \<Rightarrow> ((zero_outcome, Some e), w')
      | (Inr res, w1) \<Rightarrow>
        let w2 = cbump (\<lambda>st. st\<lparr>cs_CoordinatedPuts := cs_CoordinatedPuts st + 1\<rparr>) me w1;
            targets = filter (\<lambda>m. m_Name m \<noteq> r_self r) holders in
        case (if targets \<noteq> [] \<and> co_peers (w me) then fanOut pc env me ns key (pr_Size res) targets w2 else ([], w2)) of
          (rs, w3) \<Rightarrow>
            let got = 1 + length (acked rs);
                w4 = cbump (\<lambda>st. st\<lparr>cs_ReplicaFailures := cs_ReplicaFailures st + int (length (causes_of rs))\<rparr>) me w3;
                outcome = \<lparr>oc_Size = pr_Size res, oc_AlreadyStored = pr_AlreadyStored res, oc_Copies = got,
                           oc_Wanted = wanted, oc_Holders = r_self r # acked rs, oc_Durable = pr_Durable res\<rparr>
            in if got < wanted
               then ((outcome, Some (InsufficientReplicasError key wanted got (r_self r # acked rs) (causes_of rs))),
                     cbump (\<lambda>st. st\<lparr>cs_InsufficientAcks := cs_InsufficientAcks st + 1\<rparr>) me w4)
               else ((outcome, None), w4))"

text \<open>A ring always has an owner, so \<^verbatim>\<open>holders[0]\<close> is there; the branch without one is the index panic.\<close>

definition proxyPut ::
  "peer_ops \<Rightarrow> string \<Rightarrow> namespace \<Rightarrow> key \<Rightarrow> body \<Rightarrow> int \<Rightarrow> Member list \<Rightarrow> world \<Rightarrow> put_answer \<times> world" where
  "proxyPut pc me ns key bd sz holders w =
     (if \<not> co_peers (w me) then ((zero_outcome, Some (NewError ''cluster: no peer client configured'')), w)
      else let w1 = cbump (\<lambda>st. st\<lparr>cs_ForwardedPuts := cs_ForwardedPuts st + 1\<rparr>) me w in
        case holders of
          [] \<Rightarrow> ((zero_outcome, Some (NewError ''index out of range'')), w1)
        | target # _ \<Rightarrow>
           (case pp_Put pc target ns key bd sz HopCoordinator w1 of
              (None, w2) \<Rightarrow>
                ((\<lparr>oc_Size = sz, oc_AlreadyStored = False, oc_Copies = length holders, oc_Wanted = length holders,
                   oc_Holders = map m_Name holders, oc_Durable = True\<rparr>, None), w2)
            | (Some e, w2) \<Rightarrow>
                ((zero_outcome\<lparr>oc_Wanted := length holders\<rparr>,
                  Some (InsufficientReplicasError key (length holders) 0 [] [e])),
                 cbump (\<lambda>st. st\<lparr>cs_InsufficientAcks := cs_InsufficientAcks st + 1\<rparr>) me w2)))"

definition c_Put ::
  "(bytes \<Rightarrow> bytes) \<Rightarrow> peer_ops \<Rightarrow> coord_env \<Rightarrow> string \<Rightarrow> namespace \<Rightarrow> key \<Rightarrow> body \<Rightarrow> int \<Rightarrow> Hop \<Rightarrow> world \<Rightarrow> put_answer \<times> world" where
  "c_Put sha pc env me ns key bd declared hop w =
     (case hop of
        HopRepair \<Rightarrow>
          if fst (overHighWater env me w)
          then ((zero_outcome, Some ErrOverQuota),
                cbump (\<lambda>st. st\<lparr>cs_RepairDeclined := cs_RepairDeclined st + 1\<rparr>) me w)
          else putLocalOnly sha env me ns key bd declared w
      | HopReplica \<Rightarrow> putLocalOnly sha env me ns key bd declared w
      | HopCoordinator \<Rightarrow> coordinate sha pc env me ns key bd declared w
      | HopRead \<Rightarrow> putLocalOnly sha env me ns key bd declared w
      | HopClient \<Rightarrow>
          let holders = Holders sha (co_ring (w me)) key (co_replicaCount (w me)) in
          if selfIn (co_ring (w me)) holders then coordinate sha pc env me ns key bd declared w
          else proxyPut pc me ns key bd declared holders w)"

section \<open>Reading\<close>

definition readOrder :: "(bytes \<Rightarrow> bytes) \<Rightarrow> Ring \<Rightarrow> key \<Rightarrow> Member list" where
  "readOrder sha r key = filter (\<lambda>m. m_Name m \<noteq> r_self r) (Owners sha r key)"

text \<open>The loop over the candidates: the first answer, or the last error that was not a missing object.\<close>

fun try_peers ::
  "(Member \<Rightarrow> world \<Rightarrow> 'a result \<times> world) \<Rightarrow> Member list \<Rightarrow> go_error option \<Rightarrow> world \<Rightarrow> ('a + go_error option) \<times> world" where
  "try_peers ask [] lastErr w = (Inr lastErr, w)"
| "try_peers ask (m # ms) lastErr w =
     (case ask m w of
        (Inr x, w') \<Rightarrow> (Inl x, w')
      | (Inl e, w') \<Rightarrow> if errors_is e SPeerNotFound then try_peers ask ms lastErr w' else try_peers ask ms (Some e) w')"

definition miss_error :: "key \<Rightarrow> go_error option \<Rightarrow> go_error" where
  "miss_error key lastErr =
     (case lastErr of
        Some e \<Rightarrow> Wrapped (''all holders unreachable for '' @ short key) e
      | None \<Rightarrow> ErrNotFound)"

definition c_Open ::
  "(bytes \<Rightarrow> bytes) \<Rightarrow> peer_ops \<Rightarrow> coord_env \<Rightarrow> string \<Rightarrow> namespace \<Rightarrow> key \<Rightarrow> Hop \<Rightarrow> world \<Rightarrow> ObjectReader result \<times> world" where
  "c_Open sha pc env me ns key hop w =
     (let miss = cbump (\<lambda>st. st\<lparr>cs_Misses := cs_Misses st + 1\<rparr>) me in
      case local_Get env me '''' ns key w of
        (Inr ob, w1) \<Rightarrow> (Inr (LocalObject ob), cbump (\<lambda>st. st\<lparr>cs_LocalHits := cs_LocalHits st + 1\<rparr>) me w1)
      | (Inl e, w1) \<Rightarrow>
          if \<not> errors_is e SNotFound then (Inl e, w1)
          else if Terminal hop \<or> \<not> co_peers (w me) then (Inl ErrNotFound, miss w1)
          else case try_peers (\<lambda>m. pp_Get pc m ns key HopRead) (readOrder sha (co_ring (w me)) key) None w1 of
                 (Inl p, w2) \<Rightarrow>
                   (Inr (PeerObject p),
                    cbump (\<lambda>st. st\<lparr>cs_PeerHits := cs_PeerHits st + 1, cs_ReadFallbacks := cs_ReadFallbacks st + 1\<rparr>) me w2)
               | (Inr lastErr, w2) \<Rightarrow> (Inl (miss_error key lastErr), miss w2))"

definition c_Stat ::
  "(bytes \<Rightarrow> bytes) \<Rightarrow> peer_ops \<Rightarrow> coord_env \<Rightarrow> string \<Rightarrow> namespace \<Rightarrow> key \<Rightarrow> Hop \<Rightarrow> world \<Rightarrow> ObjectInfo result \<times> world" where
  "c_Stat sha pc env me ns key hop w =
     (let miss = cbump (\<lambda>st. st\<lparr>cs_Misses := cs_Misses st + 1\<rparr>) me in
      case local_Stat env me ns key w of
        (Inr st, w1) \<Rightarrow> (Inr \<lparr>oi_Size = t_Size st, oi_Source = ''local''\<rparr>,
                         cbump (\<lambda>st. st\<lparr>cs_LocalHits := cs_LocalHits st + 1\<rparr>) me w1)
      | (Inl e, w1) \<Rightarrow>
          if \<not> errors_is e SNotFound then (Inl e, w1)
          else if Terminal hop \<or> \<not> co_peers (w me) then (Inl ErrNotFound, miss w1)
          else case try_peers (\<lambda>m. pp_Stat pc m ns key HopRead) (readOrder sha (co_ring (w me)) key) None w1 of
                 (Inl info, w2) \<Rightarrow> (Inr info, cbump (\<lambda>st. st\<lparr>cs_PeerHits := cs_PeerHits st + 1\<rparr>) me w2)
               | (Inr lastErr, w2) \<Rightarrow> (Inl (miss_error key lastErr), miss w2))"

end
