(* ===== verification/Replication.thy ===== *)
theory Replication
  imports Coordinator
begin

text \<open>
  What the coordinator relies on when it replicates, as the locale \<open>replica_peers\<close>: a replica write
  changes only the node it is sent to, and one that is acknowledged has stored the object there. Over
  that contract the lemmas show what a coordinated write guarantees.
\<close>

section \<open>Copies\<close>

definition held :: "world \<Rightarrow> string \<Rightarrow> objRef \<Rightarrow> bytes option" where
  "held w n = objects (co_local (w n))"

text \<open>A node has a copy of an upload: for a CAS key bytes that hash to it, for an action cache entry the
  uploaded bytes.\<close>

definition has_copy :: "(bytes \<Rightarrow> bytes) \<Rightarrow> namespace \<Rightarrow> key \<Rightarrow> bytes \<Rightarrow> world \<Rightarrow> string \<Rightarrow> bool" where
  "has_copy sha ns key b w n \<longleftrightarrow>
     (\<exists>d. held w n (ns, key) = Some d \<and> (if ns = NamespaceCAS then hex_encode (sha d) = key else d = b))"

definition all_cas_ok :: "(bytes \<Rightarrow> bytes) \<Rightarrow> world \<Rightarrow> bool" where
  "all_cas_ok sha w \<longleftrightarrow> (\<forall>n. cas_ok sha (co_local (w n)))"

text \<open>What a request never changes of a node.\<close>

definition node_setup :: "coord \<Rightarrow> Ring \<times> bool \<times> int \<times> int option \<times> path \<times> bool" where
  "node_setup c = (co_ring c, co_peers c, co_replicaCount c, co_high c, s_root (co_local c), s_closed (co_local c))"

section \<open>Lemmas: effects of the local operations\<close>

lemma cbump_sel [simp]:
  "co_local (cbump f me w n) = co_local (w n)" "node_setup (cbump f me w n) = node_setup (w n)"
  "co_ring (cbump f me w n) = co_ring (w n)" "co_peers (cbump f me w n) = co_peers (w n)"
  "co_replicaCount (cbump f me w n) = co_replicaCount (w n)" "n \<noteq> me \<Longrightarrow> cbump f me w n = w n"
  by (simp_all add: cbump_def node_setup_def)

lemma set_store_sel [simp]:
  "co_local (set_store me s w n) = (if n = me then s else co_local (w n))" "n \<noteq> me \<Longrightarrow> set_store me s w n = w n"
  "co_ring (set_store me s w n) = co_ring (w n)" "co_peers (set_store me s w n) = co_peers (w n)"
  "co_replicaCount (set_store me s w n) = co_replicaCount (w n)"
  by (simp_all add: set_store_def)

lemma set_store_setup:
  "s_root s = s_root (co_local (w me)) \<Longrightarrow> s_closed s = s_closed (co_local (w me)) \<Longrightarrow>
     node_setup (set_store me s w n) = node_setup (w n)"
  by (simp add: set_store_def node_setup_def)

lemma held_cbump [simp]: "held (cbump f me w) = held w"
  by (simp add: held_def fun_eq_iff)

lemma held_set_store: "s_fs s = s_fs (co_local (w me)) \<Longrightarrow> s_root s = s_root (co_local (w me)) \<Longrightarrow> held (set_store me s w) = held w"
  by (simp add: held_def fun_eq_iff)

lemma has_copy_held: "held w' n = held w n \<Longrightarrow> has_copy sha ns key b w' n = has_copy sha ns key b w n"
  by (simp add: has_copy_def)

lemma all_cas_ok_held: "held w' = held w \<Longrightarrow> all_cas_ok sha w' = all_cas_ok sha w"
  by (simp add: all_cas_ok_def cas_ok_def held_def fun_eq_iff)

lemma obj_Close_sel [simp]:
  "s_fs (obj_Close ob s) = s_fs s" "s_root (obj_Close ob s) = s_root s" "s_closed (obj_Close ob s) = s_closed s"
  by (simp_all add: obj_Close_def bump_def)

lemma store_Get_closed: "store_Get ns key oe se now s = (r, s') \<Longrightarrow> s_closed s' = s_closed s"
  by (auto simp: store_Get_def touch_store_def on_index_def bump_def Let_def split: if_splits option.splits)

lemma store_Stat_frame: "store_Stat ns key oe now s = (r, s') \<Longrightarrow> s_fs s' = s_fs s \<and> s_root s' = s_root s \<and> s_closed s' = s_closed s"
  by (auto simp: store_Stat_def touch_store_def on_index_def Let_def split: if_splits option.splits)

lemma local_Get_frame:
  assumes "local_Get env me t ns key w = (r, w')"
  shows "held w' = held w" "node_setup (w' n) = node_setup (w n)" "n \<noteq> me \<Longrightarrow> w' n = w n"
proof -
  obtain r' s' where g: "store_Get ns key (fst (ce_open env me t)) (snd (ce_open env me t)) (ce_now env) (co_local (w me)) = (r', s')"
    by fastforce
  with assms have w': "w' = set_store me s' w" by (simp add: local_Get_def)
  from store_Get_objects [OF g] store_Get_closed [OF g]
  show "held w' = held w" "node_setup (w' n) = node_setup (w n)" "n \<noteq> me \<Longrightarrow> w' n = w n"
    by (simp_all add: w' held_set_store set_store_setup)
qed

lemma local_Get_data: "local_Get env me t ns key w = (Inr ob, w') \<Longrightarrow> held w me (ns, key) = Some (o_data ob)"
  using store_Get_Inr(1) by (auto simp: local_Get_def held_def split: prod.splits)

lemma local_Stat_frame:
  assumes "local_Stat env me ns key w = (r, w')"
  shows "held w' = held w" "node_setup (w' n) = node_setup (w n)" "n \<noteq> me \<Longrightarrow> w' n = w n"
proof -
  obtain r' s' where g: "store_Stat ns key (ce_stat env me) (ce_now env) (co_local (w me)) = (r', s')"
    by fastforce
  with assms have w': "w' = set_store me s' w" by (simp add: local_Stat_def)
  from store_Stat_frame [OF g]
  show "held w' = held w" "node_setup (w' n) = node_setup (w n)" "n \<noteq> me \<Longrightarrow> w' n = w n"
    by (simp_all add: w' held_set_store set_store_setup)
qed

lemma local_Put_frame:
  assumes "local_Put sha env me ns key bd sz w = (r, w')"
  shows "n \<noteq> me \<Longrightarrow> w' n = w n" "node_setup (w' n) = node_setup (w n)" "all_cas_ok sha w \<Longrightarrow> all_cas_ok sha w'"
proof -
  let ?env = "(ce_put env me)\<lparr>pe_body := fst bd, pe_body_err := snd bd\<rparr>"
  obtain r' s' where p: "Put sha ns key sz ?env (co_local (w me)) = (r', s')" by fastforce
  with assms have w': "w' = set_store me s' w" by (simp add: local_Put_def)
  show "n \<noteq> me \<Longrightarrow> w' n = w n" by (simp add: w')
  show "node_setup (w' n) = node_setup (w n)" using Put_frame [OF p] by (simp add: w' set_store_setup)
  show "all_cas_ok sha w'" if "all_cas_ok sha w"
    using that Put_cas_ok [OF p] by (simp add: w' all_cas_ok_def)
qed

lemma local_Put_copy:
  assumes "local_Put sha env me ns key bd sz w = (Inr res, w')" "all_cas_ok sha w"
  shows "has_copy sha ns key (fst bd) w' me"
proof -
  let ?env = "(ce_put env me)\<lparr>pe_body := fst bd, pe_body_err := snd bd\<rparr>"
  obtain s' where p: "Put sha ns key sz ?env (co_local (w me)) = (Inr res, s')" and w': "w' = set_store me s' w"
    using assms(1) by (auto simp: local_Put_def split: prod.splits)
  have c: "cas_ok sha s'" using Put_cas_ok [OF p] assms(2) by (simp add: all_cas_ok_def)
  obtain d where d: "objects s' (ns, key) = Some d" "ns \<noteq> NamespaceCAS \<longrightarrow> d = fst bd"
    using Put_objects [OF p] Put_stored [OF p] Put_published(3) [OF p] by (cases "pr_AlreadyStored res") auto
  with c show ?thesis by (auto simp: has_copy_def held_def w' cas_ok_def)
qed

section \<open>Peers that keep the invariants\<close>

text \<open>What every step of the cluster keeps: the setup of every node, and the content addressing of
  every store.\<close>

definition steps :: "(bytes \<Rightarrow> bytes) \<Rightarrow> world \<Rightarrow> world \<Rightarrow> bool" where
  "steps sha w w' \<longleftrightarrow> (\<forall>n. node_setup (w' n) = node_setup (w n)) \<and> (all_cas_ok sha w \<longrightarrow> all_cas_ok sha w')"

lemma steps_refl [simp]: "steps sha w w"
  by (simp add: steps_def)

lemma steps_trans: "steps sha w w1 \<Longrightarrow> steps sha w1 w2 \<Longrightarrow> steps sha w w2"
  by (simp add: steps_def)

lemma steps_cbump [simp]:
  "steps sha w (cbump f me w') = steps sha w w'" "steps sha (cbump f me w) w' = steps sha w w'"
  by (simp_all add: steps_def all_cas_ok_def)

lemma steps_held: "(\<And>n. node_setup (w' n) = node_setup (w n)) \<Longrightarrow> held w' = held w \<Longrightarrow> steps sha w w'"
  using all_cas_ok_held [of w' w sha] by (simp add: steps_def)

lemma local_steps:
  "local_Get env me t ns key w = (g, w') \<Longrightarrow> steps sha w w'"
  "local_Stat env me ns key w = (st, w') \<Longrightarrow> steps sha w w'"
  "local_Put sha env me ns key bd sz w = (p, w') \<Longrightarrow> steps sha w w'"
  using local_Get_frame(1,2) [of env me t ns key w g w'] local_Stat_frame(1,2) [of env me ns key w st w']
    local_Put_frame(2,3) [of sha env me ns key bd sz w p w'] steps_held [of w' w sha]
  by (simp_all add: steps_def)

lemma close_steps: "steps sha w w' \<Longrightarrow> steps sha w (set_store me (obj_Close ob (co_local (w' me))) w')"
  by (rule steps_trans, assumption) (simp add: steps_held held_set_store set_store_setup)

locale safe_peers =
  fixes sha :: "bytes \<Rightarrow> bytes" and pc :: peer_ops
  assumes put_steps: "pp_Put pc m ns key bd sz h w = (r, w') \<Longrightarrow> steps sha w w'"
    and get_steps: "pp_Get pc m ns key h w = (g, w') \<Longrightarrow> steps sha w w' \<and> held w' = held w"
    and stat_steps: "pp_Stat pc m ns key h w = (st, w') \<Longrightarrow> steps sha w w' \<and> held w' = held w"
begin

lemma replicateOne_steps: "replicateOne pc env me ns key sz t w = (r, w') \<Longrightarrow> steps sha w w'"
  by (auto simp: replicateOne_def split: prod.splits sum.splits
      intro: close_steps steps_trans [OF local_steps(1) put_steps] local_steps(1))

lemma fanOut_steps: "fanOut pc env me ns key sz ts w = (rs, w') \<Longrightarrow> steps sha w w'"
  by (induction ts arbitrary: w rs) (auto split: prod.splits dest: replicateOne_steps intro: steps_trans)

lemma coordinate_steps: "coordinate sha pc env me ns key bd sz w = (a, w') \<Longrightarrow> steps sha w w'"
  by (auto simp: coordinate_def Let_def split: prod.splits sum.splits if_splits
      dest!: local_steps(3) fanOut_steps intro: steps_trans)

lemma c_Put_steps:
  assumes "c_Put sha pc env me ns key bd sz hop w = (a, w')"
  shows "steps sha w w'"
proof -
  have "steps sha w v" if "putLocalOnly sha env me ns key bd sz w = (a, v)" for v
    using that by (auto simp: putLocalOnly_def split: prod.splits sum.splits dest!: local_steps(3))
  moreover have "steps sha w v" if "proxyPut pc me ns key bd sz hs w = (a, v)" for hs v
    using that by (auto simp: proxyPut_def Let_def split: prod.splits option.splits list.splits if_splits dest!: put_steps)
  ultimately show ?thesis
    using assms coordinate_steps by (cases hop) (auto simp: c_Put_def Let_def split: if_splits)
qed

lemma try_peers_keeps:
  assumes "\<And>m v g v'. ask m v = (g, v') \<Longrightarrow> steps sha v v' \<and> held v' = held v"
  shows "try_peers ask ms e w = (a, w') \<Longrightarrow> steps sha w w' \<and> held w' = held w"
proof (induction ms arbitrary: e w)
  case (Cons m ms)
  obtain g w1 where g: "ask m w = (g, w1)" by fastforce
  note s = assms [OF g]
  show ?case
  proof (cases g)
    case (Inl err)
    with Cons.prems g Cons.IH [of _ w1] have "steps sha w1 w' \<and> held w' = held w1" by (auto split: if_splits)
    with s show ?thesis using steps_trans by auto
  next
    case (Inr x)
    with Cons.prems g s show ?thesis by auto
  qed
qed simp

lemma c_Open_keeps:
  assumes "c_Open sha pc env me ns key hop w = (a, w')"
  shows "steps sha w w' \<and> held w' = held w"
proof -
  obtain g w1 where g: "local_Get env me '''' ns key w = (g, w1)" by fastforce
  have s1: "steps sha w w1" "held w1 = held w" using local_steps(1) [OF g] local_Get_frame(1) [OF g] by auto
  obtain b w2 where t: "try_peers (\<lambda>m. pp_Get pc m ns key HopRead) (readOrder sha (co_ring (w me)) key) None w1 = (b, w2)"
    by fastforce
  have "steps sha w1 w2 \<and> held w2 = held w1" by (rule try_peers_keeps [OF _ t]) (rule get_steps)
  with s1 have "steps sha w w2" "held w2 = held w" using steps_trans by auto
  with s1 assms g t show ?thesis
    by (auto simp: c_Open_def Let_def split: prod.splits sum.splits if_splits)
qed

lemma c_Stat_keeps:
  assumes "c_Stat sha pc env me ns key hop w = (a, w')"
  shows "steps sha w w' \<and> held w' = held w"
proof -
  obtain g w1 where g: "local_Stat env me ns key w = (g, w1)" by fastforce
  have s1: "steps sha w w1" "held w1 = held w" using local_steps(2) [OF g] local_Stat_frame(1) [OF g] by auto
  obtain b w2 where t: "try_peers (\<lambda>m. pp_Stat pc m ns key HopRead) (readOrder sha (co_ring (w me)) key) None w1 = (b, w2)"
    by fastforce
  have "steps sha w1 w2 \<and> held w2 = held w1" by (rule try_peers_keeps [OF _ t]) (rule stat_steps)
  with s1 have "steps sha w w2" "held w2 = held w" using steps_trans by auto
  with s1 assms g t show ?thesis
    by (auto simp: c_Stat_def Let_def split: prod.splits sum.splits if_splits)
qed

end

section \<open>Peers that store what they acknowledge\<close>

locale replica_peers = safe_peers +
  fixes dest :: "Member \<Rightarrow> string option"
  assumes put_frame: "pp_Put pc m ns key bd sz h w = (r, w') \<Longrightarrow> Terminal h \<Longrightarrow> dest m \<noteq> Some n \<Longrightarrow> w' n = w n"
    and put_copy: "pp_Put pc m ns key bd sz h w = (None, w') \<Longrightarrow> Terminal h \<Longrightarrow> ns_Valid ns \<Longrightarrow> valid_key key \<Longrightarrow>
       all_cas_ok sha w \<Longrightarrow> \<exists>n. dest m = Some n \<and> has_copy sha ns key (fst bd) w' n"
    and put_effect: "pp_Put pc m ns key bd sz h w = (r, w') \<Longrightarrow> Terminal h \<Longrightarrow> ns_Valid ns \<Longrightarrow> valid_key key \<Longrightarrow>
       sz = int (length (fst bd)) \<Longrightarrow> snd bd = None \<Longrightarrow> dest m = Some n \<Longrightarrow>
       held w' n = held w n \<or> held w' n = (held w n)((ns, key) \<mapsto> fst bd)"
begin

text \<open>Sending the local copy: open it, write it to the peer, close it.\<close>

lemma send_local_frame:
  assumes "local_Get env me x ns key w = (Inr ob, w1)" "pp_Put pc t ns key (o_data ob, None) sz h w1 = (r, w2)"
    "w' = set_store me (obj_Close ob (co_local (w2 me))) w2" "Terminal h" "dest t = Some (m_Name t)"
  shows "n \<noteq> me \<Longrightarrow> n \<noteq> m_Name t \<Longrightarrow> w' n = w n" "m_Name t \<noteq> me \<Longrightarrow> held w' me = held w me" "held w' = held w2"
proof -
  note f = local_Get_frame [OF assms(1)]
  show h: "held w' = held w2" by (simp add: assms(3) held_set_store)
  have "w2 n = w1 n" if "n \<noteq> m_Name t" using put_frame [OF assms(2,4)] assms(5) that by auto
  then show "n \<noteq> me \<Longrightarrow> n \<noteq> m_Name t \<Longrightarrow> w' n = w n" using f(3) by (simp add: assms(3))
  have "held w2 me = held w1 me" if "m_Name t \<noteq> me"
    using put_frame [OF assms(2,4), of me] assms(5) that by (simp add: held_def)
  then show "m_Name t \<noteq> me \<Longrightarrow> held w' me = held w me" using f(1) h by simp
qed

lemma send_local_copy:
  assumes "local_Get env me x ns key w = (Inr ob, w1)" "pp_Put pc t ns key (o_data ob, None) sz h w1 = (None, w2)"
    "w' = set_store me (obj_Close ob (co_local (w2 me))) w2" "Terminal h" "dest t = Some (m_Name t)"
    "ns_Valid ns" "valid_key key" "all_cas_ok sha w" "has_copy sha ns key b w me"
  shows "has_copy sha ns key b w' (m_Name t)"
proof -
  have "has_copy sha ns key (o_data ob) w2 (m_Name t)"
    using put_copy [OF assms(2,4,6,7)] assms(5,8) all_cas_ok_held [OF local_Get_frame(1) [OF assms(1)], of sha] by auto
  with send_local_frame(3) [OF assms(1-5)] local_Get_data [OF assms(1)] assms(9) show ?thesis
    by (auto simp: has_copy_def split: if_splits)
qed

lemma replicateOne_frame:
  assumes "replicateOne pc env me ns key sz t w = (r, w')" "dest t = Some (m_Name t)"
  shows "n \<noteq> me \<Longrightarrow> n \<noteq> m_Name t \<Longrightarrow> w' n = w n" "m_Name t \<noteq> me \<Longrightarrow> held w' me = held w me"
proof -
  obtain g w1 where g: "local_Get env me (m_Name t) ns key w = (g, w1)" by fastforce
  have "(n \<noteq> me \<longrightarrow> n \<noteq> m_Name t \<longrightarrow> w' n = w n) \<and> (m_Name t \<noteq> me \<longrightarrow> held w' me = held w me)"
  proof (cases g)
    case (Inl e)
    with assms(1) g local_Get_frame [OF g] show ?thesis by (simp add: replicateOne_def)
  next
    case (Inr ob)
    obtain q w2 where p: "pp_Put pc t ns key (o_data ob, None) sz HopReplica w1 = (q, w2)" by fastforce
    have "w' = set_store me (obj_Close ob (co_local (w2 me))) w2"
      using assms(1) g Inr p by (simp add: replicateOne_def)
    from send_local_frame [OF g [unfolded Inr] p this _ assms(2)] show ?thesis by (simp add: Terminal_def)
  qed
  then show "n \<noteq> me \<Longrightarrow> n \<noteq> m_Name t \<Longrightarrow> w' n = w n" "m_Name t \<noteq> me \<Longrightarrow> held w' me = held w me" by auto
qed

lemma replicateOne_copy:
  assumes "replicateOne pc env me ns key sz t w = (None, w')" "dest t = Some (m_Name t)"
    "ns_Valid ns" "valid_key key" "all_cas_ok sha w" "has_copy sha ns key b w me"
  shows "has_copy sha ns key b w' (m_Name t)"
proof -
  obtain ob w1 w2 where g: "local_Get env me (m_Name t) ns key w = (Inr ob, w1)"
    and p: "pp_Put pc t ns key (o_data ob, None) sz HopReplica w1 = (None, w2)"
    and w': "w' = set_store me (obj_Close ob (co_local (w2 me))) w2"
    using assms(1) by (auto simp: replicateOne_def split: prod.splits sum.splits)
  show ?thesis by (rule send_local_copy [OF g p w' _ assms(2-6)]) (simp add: Terminal_def)
qed

lemma fanOut_acked:
  assumes "fanOut pc env me ns key sz ts w = (rs, w')" "\<forall>t \<in> set ts. dest t = Some (m_Name t) \<and> m_Name t \<noteq> me"
    "distinct (map m_Name ts)" "ns_Valid ns" "valid_key key" "all_cas_ok sha w" "has_copy sha ns key b w me"
  shows "has_copy sha ns key b w' me \<and> all_cas_ok sha w' \<and> (\<forall>n \<in> set (acked rs). has_copy sha ns key b w' n) \<and>
     map fst rs = map m_Name ts \<and> (\<forall>n. n \<noteq> me \<longrightarrow> n \<notin> m_Name ` set ts \<longrightarrow> w' n = w n)"
  using assms
proof (induction ts arbitrary: w rs)
  case Nil
  then show ?case by (auto simp: acked_def)
next
  case (Cons t ts)
  obtain r w1 where o: "replicateOne pc env me ns key sz t w = (r, w1)" by fastforce
  obtain rs' where f: "fanOut pc env me ns key sz ts w1 = (rs', w')" and rs: "rs = (m_Name t, r) # rs'"
    using Cons.prems(1) o by (auto split: prod.splits)
  have t: "dest t = Some (m_Name t)" "m_Name t \<noteq> me" using Cons.prems(2) by auto
  note fr = replicateOne_frame [OF o t(1)]
  have c1: "has_copy sha ns key b w1 me" using Cons.prems(7) has_copy_held [OF fr(2) [OF t(2)]] by blast
  have k1: "all_cas_ok sha w1" using replicateOne_steps [OF o] Cons.prems(6) by (simp add: steps_def)
  have IH: "has_copy sha ns key b w' me \<and> all_cas_ok sha w' \<and> (\<forall>n \<in> set (acked rs'). has_copy sha ns key b w' n) \<and>
     map fst rs' = map m_Name ts \<and> (\<forall>n. n \<noteq> me \<longrightarrow> n \<notin> m_Name ` set ts \<longrightarrow> w' n = w1 n)"
    by (rule Cons.IH [OF f]) (use Cons.prems k1 c1 in auto)
  have "has_copy sha ns key b w' (m_Name t)" if "r = None"
  proof -
    have "has_copy sha ns key b w1 (m_Name t)"
      using replicateOne_copy [OF o [unfolded that] t(1) Cons.prems(4-7)] .
    moreover have "w' (m_Name t) = w1 (m_Name t)" using IH t(2) Cons.prems(3) by auto
    ultimately show ?thesis by (simp add: has_copy_def held_def)
  qed
  moreover have "w' n = w n" if "n \<noteq> me" "n \<notin> m_Name ` set (t # ts)" for n
    using that IH fr(1) [of n] by auto
  ultimately show ?case using IH by (auto simp: rs acked_def)
qed

text \<open>A coordinated write that is acknowledged: the outcome lists distinct nodes, at least as many as the
  key has holders, and each of them has a copy.\<close>

lemma coordinate_acked:
  assumes "coordinate sha pc env me ns key bd sz w = ((oc, None), w')" "ring_ok sha (co_ring (w me))"
    "r_self (co_ring (w me)) = me" "\<forall>m \<in> set (r_members (co_ring (w me))). dest m = Some (m_Name m)"
    "ns_Valid ns" "valid_key key" "all_cas_ok sha w" "me \<noteq> ''''"
  shows "distinct (oc_Holders oc) \<and> me \<in> set (oc_Holders oc) \<and>
     length (Holders sha (co_ring (w me)) key (co_replicaCount (w me))) \<le> length (oc_Holders oc) \<and>
     (\<forall>n \<in> set (oc_Holders oc). has_copy sha ns key (fst bd) w' n) \<and> oc_Copies oc = length (oc_Holders oc) \<and>
     set (oc_Holders oc) \<subseteq> m_Name ` set (r_members (co_ring (w me)))"
proof -
  let ?hs = "Holders sha (co_ring (w me)) key (co_replicaCount (w me))"
  let ?ts = "filter (\<lambda>m. m_Name m \<noteq> me) ?hs"
  obtain res w1 where p: "local_Put sha env me ns key bd sz w = (Inr res, w1)"
    using assms(1) by (auto simp: coordinate_def Let_def split: prod.splits sum.splits)
  let ?w2 = "cbump (\<lambda>st. st\<lparr>cs_CoordinatedPuts := cs_CoordinatedPuts st + 1\<rparr>) me w1"
  obtain rs w3 where f: "(if ?ts \<noteq> [] \<and> co_peers (w me) then fanOut pc env me ns key (pr_Size res) ?ts ?w2 else ([], ?w2)) = (rs, w3)"
    by fastforce
  have oc: "length ?hs \<le> 1 + length (acked rs)" "oc_Holders oc = me # acked rs" "oc_Copies oc = 1 + length (acked rs)"
    "held w' = held w3"
    using assms(1) p f assms(3) by (auto simp: coordinate_def Let_def split: prod.splits sum.splits if_splits)
  have sub: "set ?hs \<subseteq> set (r_members (co_ring (w me)))" and d: "distinct (map m_Name ?hs)"
  proof -
    show "set ?hs \<subseteq> set (r_members (co_ring (w me)))" using rdv.prefix_members by (simp add: Holders_take)
    have "distinct (map m_Name (Owners sha (co_ring (w me)) key))"
      using assms(2) Owners_perm [of sha "co_ring (w me)" key]
      by (metis distinct_map mset_eq_imp_distinct_iff mset_map ring_ok_def)
    then show "distinct (map m_Name ?hs)" by (simp add: Holders_take take_map [symmetric])
  qed
  have c1: "has_copy sha ns key (fst bd) w1 me" by (rule local_Put_copy [OF p assms(7)])
  have cas1: "all_cas_ok sha w1" by (rule local_Put_frame(3) [OF p assms(7)])
  have c2: "has_copy sha ns key (fst bd) ?w2 me" "all_cas_ok sha ?w2"
    using c1 cas1 by (simp_all add: has_copy_def all_cas_ok_def)
  have main: "has_copy sha ns key (fst bd) w3 me \<and> (\<forall>n \<in> set (acked rs). has_copy sha ns key (fst bd) w3 n) \<and>
      distinct (acked rs) \<and> set (acked rs) \<subseteq> m_Name ` set ?ts"
  proof (cases "?ts \<noteq> [] \<and> co_peers (w me)")
    case True
    with f have F: "fanOut pc env me ns key (pr_Size res) ?ts ?w2 = (rs, w3)" by simp
    have dt: "distinct (map m_Name ?ts)" using d by (rule distinct_map_filter)
    note a = fanOut_acked [OF F _ dt assms(5,6) c2(2,1)]
    have "\<forall>t \<in> set ?ts. dest t = Some (m_Name t) \<and> m_Name t \<noteq> me" using assms(4) sub by auto
    note a = a [OF this]
    have "distinct (map fst rs)" using a dt by simp
    then have "distinct (acked rs)" unfolding acked_def by (rule distinct_map_filter)
    moreover have "set (acked rs) \<subseteq> set (map fst rs)" by (auto simp: acked_def)
    then have "set (acked rs) \<subseteq> m_Name ` set ?ts" using a by simp
    ultimately show ?thesis using a by blast
  next
    case False
    with f have "rs = []" "w3 = ?w2" by auto
    with c2 show ?thesis by (simp add: acked_def)
  qed
  have "me \<in> m_Name ` set (r_members (co_ring (w me)))"
    using assms(2,3,8) by (auto simp: ring_ok_def)
  moreover have "set (acked rs) \<subseteq> m_Name ` set (r_members (co_ring (w me)))" using main sub by fastforce
  moreover have "me \<notin> set (acked rs)" using main by auto
  ultimately show ?thesis using main oc has_copy_held [of w' _ w3] by auto
qed

end

section \<open>Peers that serve what they hold\<close>

text \<open>A reader delivers \<open>d\<close>: it announces the length of \<open>d\<close>, a copy is always a prefix of \<open>d\<close>, and one that ends
  without an error is \<open>d\<close>.\<close>

definition delivers :: "bytes \<Rightarrow> ObjectReader \<Rightarrow> bool" where
  "delivers d rd \<longleftrightarrow> or_Size rd = int (length d) \<and> (\<forall>rf wf s rd'. or_WriteTo rf wf rd = (s, None, rd') \<longrightarrow> s = d) \<and>
     (\<forall>rf wf s e rd'. or_WriteTo rf wf rd = (s, e, rd') \<longrightarrow> (\<exists>rest. d = s @ rest))"

lemma delivers_local: "t_Size (o_stat ob) = int (length (o_data ob)) \<Longrightarrow> delivers (o_data ob) (LocalObject ob)"
  using WriteTo_ok(1) WriteTo_prefix by (fastforce simp: delivers_def split: prod.splits)

lemma delivers_peer:
  assumes "po_size p = int (length d)" "snd (po_body p) = None \<Longrightarrow> fst (po_body p) = d" "d = fst (po_body p) @ rest"
  shows "delivers d (PeerObject p)"
proof -
  have "s = d" if "peer_WriteTo wf p = (s, None, p')" for wf s p'
    using that copyPeer_ok [of "chunk_list (peerCopyBufSize - 1) (fst (po_body p))" "snd (po_body p)" wf s] assms(2)
    by (auto simp: peer_WriteTo_def split: prod.splits)
  moreover have "\<exists>rest. d = s @ rest" if "peer_WriteTo wf p = (s, e, p')" for wf s e p'
    using that copyPeer_prefix [of "chunk_list (peerCopyBufSize - 1) (fst (po_body p))" "snd (po_body p)" wf s e] assms(3)
    by (auto simp: peer_WriteTo_def split: prod.splits)
  ultimately show ?thesis using assms(1) by (fastforce simp: delivers_def split: prod.splits)
qed

text \<open>The errors that answer a read with a miss.\<close>

definition miss_like :: "go_error \<Rightarrow> bool" where
  "miss_like e \<longleftrightarrow> errors_is e SNotFound \<or> errors_is e SBadKey \<or> errors_is e SBadNamespace"

text \<open>What a read relies on: the bytes of a peer are those it holds, and, when the environment makes up no
  sentinel errors (\<open>plain\<close>), only a peer that does not hold the object answers that it is missing.\<close>

locale read_peers = safe_peers +
  fixes dest :: "Member \<Rightarrow> string option" and plain :: bool
  assumes get_data: "pp_Get pc m ns key HopRead w = (Inr p, w') \<Longrightarrow> ns_Valid ns \<Longrightarrow> valid_key key \<Longrightarrow>
       \<exists>n d. dest m = Some n \<and> held w n (ns, key) = Some d \<and> delivers d (PeerObject p)"
    and stat_data: "pp_Stat pc m ns key HopRead w = (Inr info, w') \<Longrightarrow> ns_Valid ns \<Longrightarrow> valid_key key \<Longrightarrow>
       \<exists>n. dest m = Some n \<and> held w n (ns, key) \<noteq> None"
    and stat_missing: "pp_Stat pc m ns key HopRead w = (Inl e, w') \<Longrightarrow> ns_Valid ns \<Longrightarrow> valid_key key \<Longrightarrow> plain \<Longrightarrow>
       errors_is e SPeerNotFound \<Longrightarrow> \<exists>n. dest m = Some n \<and> held w n (ns, key) = None \<and> co_local (w' n) = co_local (w n)"
    and stat_frame: "pp_Stat pc m ns key HopRead w = (st, w') \<Longrightarrow> dest m \<noteq> Some n \<Longrightarrow> w' n = w n"
    and get_missing: "pp_Get pc m ns key HopRead w = (Inl e, w') \<Longrightarrow> ns_Valid ns \<Longrightarrow> valid_key key \<Longrightarrow> plain \<Longrightarrow>
       \<not> miss_like e \<and> (errors_is e SPeerNotFound \<longrightarrow> (\<exists>n. dest m = Some n \<and> held w n (ns, key) = None))"
begin

lemma try_get_data:
  assumes "try_peers (\<lambda>m. pp_Get pc m ns key HopRead) ms e w = (Inl p, w')" "ns_Valid ns" "valid_key key"
  shows "\<exists>n d. held w n (ns, key) = Some d \<and> delivers d (PeerObject p)"
  using assms(1)
proof (induction ms arbitrary: e w)
  case (Cons m ms)
  obtain g w1 where g: "pp_Get pc m ns key HopRead w = (g, w1)" by fastforce
  show ?case
  proof (cases g)
    case (Inl err)
    with Cons.prems g Cons.IH [of _ w1] have "\<exists>n d. held w1 n (ns, key) = Some d \<and> delivers d (PeerObject p)"
      by (auto split: if_splits)
    with get_steps [OF g] show ?thesis by simp
  next
    case (Inr q)
    with Cons.prems g get_data [OF g [unfolded Inr] assms(2,3)] show ?thesis by auto
  qed
qed simp

lemma try_get_missing:
  assumes "try_peers (\<lambda>m. pp_Get pc m ns key HopRead) ms e w = (Inr le, w')" "ns_Valid ns" "valid_key key" plain
  shows "(le = None \<longrightarrow> (\<forall>m \<in> set ms. \<exists>n. dest m = Some n \<and> held w n (ns, key) = None)) \<and>
     (\<forall>err. le = Some err \<longrightarrow> e \<noteq> Some err \<longrightarrow> \<not> miss_like err) \<and> (e \<noteq> None \<longrightarrow> le \<noteq> None)"
  using assms(1)
proof (induction ms arbitrary: e w)
  case (Cons m ms)
  obtain g w1 where g: "pp_Get pc m ns key HopRead w = (g, w1)" by fastforce
  with Cons.prems obtain err where err: "g = Inl err" by (cases g) auto
  note gm = get_missing [OF g [unfolded err] assms(2-4)]
  have h: "held w1 = held w" using get_steps [OF g] by simp
  let ?e = "if errors_is err SPeerNotFound then e else Some err"
  have t: "try_peers (\<lambda>m. pp_Get pc m ns key HopRead) ms ?e w1 = (Inr le, w')"
    using Cons.prems g err by auto
  from Cons.IH [OF t] gm h show ?case by (cases "errors_is err SPeerNotFound") auto
qed simp

lemma c_Open_data:
  assumes "c_Open sha pc env me ns key hop w = (Inr rd, w')" "ns_Valid ns" "valid_key key"
  shows "\<exists>n d. held w n (ns, key) = Some d \<and> delivers d rd"
proof -
  obtain g w1 where g: "local_Get env me '''' ns key w = (g, w1)" by fastforce
  show ?thesis
  proof (cases g)
    case (Inr ob)
    have "t_Size (o_stat ob) = int (length (o_data ob))"
      using g Inr store_Get_Inr(3) by (auto simp: local_Get_def split: prod.splits)
    with assms(1) g Inr local_Get_data [OF g [unfolded Inr]] delivers_local [of ob] show ?thesis
      by (auto simp: c_Open_def Let_def)
  next
    case (Inl e)
    then obtain p w2 where "try_peers (\<lambda>m. pp_Get pc m ns key HopRead) (readOrder sha (co_ring (w me)) key) None w1 = (Inl p, w2)"
      "rd = PeerObject p"
      using assms(1) g by (auto simp: c_Open_def Let_def split: prod.splits sum.splits if_splits)
    with try_get_data [OF _ assms(2,3), of _ None w1 p w2] local_Get_frame(1) [OF g] show ?thesis by auto
  qed
qed

lemma c_Open_missing:
  assumes "c_Open sha pc env me ns key hop w = (Inl e, w')" "miss_like e" "ns_Valid ns" "valid_key key" plain
    "\<not> Terminal hop" "co_peers (w me)"
    "\<forall>x. fst (ce_open env me '''') = Some x \<or> snd (ce_open env me '''') = Some x \<longrightarrow> \<not> miss_like x"
  shows "held w me (ns, key) = None \<and> (\<forall>m \<in> set (readOrder sha (co_ring (w me)) key). \<exists>n. dest m = Some n \<and> held w n (ns, key) = None)"
proof -
  obtain g w1 where g: "local_Get env me '''' ns key w = (g, w1)" by fastforce
  obtain s' where s: "store_Get ns key (fst (ce_open env me '''')) (snd (ce_open env me '''')) (ce_now env) (co_local (w me)) = (g, s')"
    using g by (auto simp: local_Get_def split: prod.splits)
  obtain le where le: "g = Inl le" using assms(1) g by (cases g) (auto simp: c_Open_def Let_def)
  have nf: "errors_is le SNotFound"
  proof (rule ccontr)
    assume n: "\<not> errors_is le SNotFound"
    with assms(1) g le have "e = le" by (auto simp: c_Open_def Let_def)
    with n assms(2) s le assms(3,4,8) show False
      by (auto simp: store_Get_def miss_like_def Let_def split: if_splits option.splits)
  qed
  have here: "held w me (ns, key) = None"
    using s nf le assms(3,4,8)
    by (auto simp: store_Get_def held_def visible_def regular_at_def miss_like_def Let_def split: if_splits option.splits)
  obtain r w2 where t: "try_peers (\<lambda>m. pp_Get pc m ns key HopRead) (readOrder sha (co_ring (w me)) key) None w1 = (r, w2)"
    by fastforce
  obtain lo where lo: "r = Inr lo" "e = miss_error key lo"
    using assms(1,6,7) g le nf t by (cases r) (auto simp: c_Open_def Let_def)
  note m = try_get_missing [OF t [unfolded lo(1)] assms(3-5)]
  have "lo = None" using m assms(2) lo(2) by (cases lo) (auto simp: miss_error_def miss_like_def)
  with m here local_Get_frame(1) [OF g] show ?thesis by simp
qed

end

end
