(* ===== verification/RepairWorker.thy ===== *)
theory RepairWorker
  imports Replication
begin

text \<open>
  \<^verbatim>\<open>internal/repair/repair.go\<close>: the background worker that audits the local index page by page and
  recreates missing copies on the other holders.

  The queue between the auditor and the pool is a list with a capacity. The pool runs beside the
  auditor: \<open>ae_taken k\<close> says how many tasks it received before the auditor handled its \<open>k\<close>-th object.
  The index may change between two pages of a pass, so \<open>ae_index k\<close> is the index at the \<open>k\<close>-th page.
  The audit also returns the tasks the queue accepted, in order.
\<close>

section \<open>State\<close>

record Task =
  tk_ns :: namespace
  tk_key :: key
  tk_size :: int

record RepairStats =
  rc_AuditRuns :: int
  rc_ObjectsAudited :: int
  rc_Enqueued :: int
  rc_DroppedFullQueue :: int
  rc_Repaired :: int
  rc_AlreadyPresent :: int
  rc_Failed :: int
  rc_BytesRepaired :: int
  rc_NotOurs :: int
  rc_DeclinedOverQuota :: int

definition zero_repair_stats :: RepairStats where
  "zero_repair_stats = \<lparr>rc_AuditRuns = 0, rc_ObjectsAudited = 0, rc_Enqueued = 0, rc_DroppedFullQueue = 0, rc_Repaired = 0,
     rc_AlreadyPresent = 0, rc_Failed = 0, rc_BytesRepaired = 0, rc_NotOurs = 0, rc_DeclinedOverQuota = 0\<rparr>"

text \<open>\<open>rw_qclosed\<close> and \<open>rw_done\<close> say that the channels \<^verbatim>\<open>queue\<close> and \<^verbatim>\<open>done\<close> are closed, \<open>rw_once\<close> that \<^verbatim>\<open>once\<close>
  has fired.\<close>

record Worker =
  rw_queue :: "Task list"
  rw_cap :: nat
  rw_nWorkers :: int
  rw_auditBudget :: int
  rw_cursorNS :: namespace
  rw_cursorKey :: key
  rw_stats :: RepairStats
  rw_started :: bool
  rw_qclosed :: bool
  rw_done :: bool
  rw_once :: bool

definition defaultWorkers :: int where
  "defaultWorkers = 4"

definition defaultQueueSize :: int where
  "defaultQueueSize = 1024"

definition defaultAuditBudget :: int where
  "defaultAuditBudget = 5000"

definition auditPageSize :: int where
  "auditPageSize = 512"

definition NewWorker :: "coord option \<Rightarrow> int \<Rightarrow> int \<Rightarrow> int \<Rightarrow> Worker result" where
  "NewWorker c workers queueSize budget =
     (if c = None then Inl (NewError ''repair: coordinator is required'')
      else Inr \<lparr>rw_queue = [], rw_cap = nat (if queueSize \<le> 0 then defaultQueueSize else queueSize),
        rw_nWorkers = (if workers \<le> 0 then defaultWorkers else workers),
        rw_auditBudget = (if budget \<le> 0 then defaultAuditBudget else budget),
        rw_cursorNS = '''', rw_cursorKey = '''', rw_stats = zero_repair_stats, rw_started = False, rw_qclosed = False,
        rw_done = False, rw_once = False\<rparr>)"

definition rbump :: "(RepairStats \<Rightarrow> RepairStats) \<Rightarrow> Worker \<Rightarrow> Worker" where
  "rbump f rw = rw\<lparr>rw_stats := f (rw_stats rw)\<rparr>"

definition isOverQuota :: "go_error \<Rightarrow> bool" where
  "isOverQuota err =
     (case as_peer_error err of
        Some pe \<Rightarrow> pe_status pe = 507
      | None \<Rightarrow> errors_is err SOverQuota)"

section \<open>The queue\<close>

definition enqueue :: "Task \<Rightarrow> Worker \<Rightarrow> bool \<times> Worker" where
  "enqueue task rw =
     (if length (rw_queue rw) < rw_cap rw
      then (True, rbump (\<lambda>st. st\<lparr>rc_Enqueued := rc_Enqueued st + 1\<rparr>) (rw\<lparr>rw_queue := rw_queue rw @ [task]\<rparr>))
      else (False, rbump (\<lambda>st. st\<lparr>rc_DroppedFullQueue := rc_DroppedFullQueue st + 1\<rparr>) rw))"

text \<open>\<^verbatim>\<open>Enqueue\<close>, for callers outside the audit: \<open>None\<close> is the panic of a send on a closed channel.\<close>

definition Enqueue :: "Task \<Rightarrow> Worker \<Rightarrow> (bool \<times> Worker) option" where
  "Enqueue task rw = (if rw_qclosed rw then None else Some (enqueue task rw))"

text \<open>The pool receives \<open>n\<close> tasks.\<close>

definition receive :: "nat \<Rightarrow> Worker \<Rightarrow> Worker" where
  "receive n rw = rw\<lparr>rw_queue := drop n (rw_queue rw)\<rparr>"

definition setCursor :: "namespace \<Rightarrow> key \<Rightarrow> Worker \<Rightarrow> Worker" where
  "setCursor ns key rw = rw\<lparr>rw_cursorNS := ns, rw_cursorKey := key\<rparr>"

definition pendingAfterFullSweep :: "Worker \<Rightarrow> bool" where
  "pendingAfterFullSweep rw = (length (rw_queue rw) > 0)"

section \<open>The audit\<close>

record audit_env =
  ae_ctx :: "nat \<Rightarrow> go_error option"
  ae_page :: "nat \<Rightarrow> go_error option"
  ae_index :: "nat \<Rightarrow> Index"
  ae_taken :: "nat \<Rightarrow> nat"

definition task_of :: "Entry \<Rightarrow> Task" where
  "task_of e = \<lparr>tk_ns = e_ns e, tk_key = e_key e, tk_size = e_size e\<rparr>"

text \<open>The loop over a page: whether the queue refused a task, the number of objects examined so far, the
  cursor, the worker and the tasks accepted.\<close>

fun audit_entries ::
  "(key \<Rightarrow> bool) \<Rightarrow> audit_env \<Rightarrow> nat \<Rightarrow> namespace \<times> key \<Rightarrow> Entry list \<Rightarrow> Worker \<Rightarrow>
     bool \<times> nat \<times> (namespace \<times> key) \<times> Worker \<times> Task list" where
  "audit_entries ours env examined cur [] rw = (False, examined, cur, rw, [])"
| "audit_entries ours env examined cur (e # es) rw =
     (let rw1 = rbump (\<lambda>st. st\<lparr>rc_ObjectsAudited := rc_ObjectsAudited st + 1\<rparr>) rw in
      if \<not> ours (e_key e)
      then audit_entries ours env (examined + 1) (e_ns e, e_key e) es
             (rbump (\<lambda>st. st\<lparr>rc_NotOurs := rc_NotOurs st + 1\<rparr>) rw1)
      else case enqueue (task_of e) (receive (ae_taken env examined) rw1) of
             (False, rw2) \<Rightarrow> (True, examined + 1, cur, rw2, [])
           | (True, rw2) \<Rightarrow>
              (case audit_entries ours env (examined + 1) (e_ns e, e_key e) es rw2 of
                 (stop, ex', cur', rw3, acc) \<Rightarrow> (stop, ex', cur', rw3, task_of e # acc)))"

lemma audit_entries_examined:
  "audit_entries ours env examined cur es rw = (False, ex', cur', rw', acc) \<Longrightarrow> ex' = examined + length es"
proof (induction es arbitrary: examined cur rw ex' cur' rw' acc)
  case (Cons e es)
  show ?case
  proof (cases "ours (e_key e)")
    case False
    with Cons show ?thesis by (fastforce simp: Let_def)
  next
    case True
    with Cons.prems Cons.IH show ?thesis
      by (fastforce simp: Let_def split: prod.splits bool.splits)
  qed
qed simp

text \<open>The loop over the pages: the answer of the pass, the worker, the tasks accepted and the number of
  objects examined.\<close>

function audit_loop ::
  "(key \<Rightarrow> bool) \<Rightarrow> audit_env \<Rightarrow> int \<Rightarrow> nat \<Rightarrow> nat \<Rightarrow> namespace \<times> key \<Rightarrow> Worker \<Rightarrow>
     (bool \<times> go_error option) \<times> Worker \<times> Task list \<times> nat" where
  "audit_loop ours env budget k examined cur rw =
     (if int examined \<ge> budget then ((True, None), setCursor (fst cur) (snd cur) rw, [], examined)
      else case ae_ctx env k of
        Some e \<Rightarrow> ((False, Some e), rw, [], examined)
      | None \<Rightarrow>
       (case PageAfter (fst cur) (snd cur) auditPageSize (ae_page env k) (ae_index env k) of
          Inl e \<Rightarrow> ((False, Some e), rw, [], examined)
        | Inr [] \<Rightarrow>
            let rw1 = setCursor '''' '''' (receive (ae_taken env examined) rw)
            in ((pendingAfterFullSweep rw1, None), rw1, [], examined)
        | Inr (e # es) \<Rightarrow>
           (case audit_entries ours env examined cur (e # es) rw of
              (True, ex', cur', rw', acc) \<Rightarrow> ((True, None), setCursor (fst cur') (snd cur') rw', acc, ex')
            | (False, ex', cur', rw', acc) \<Rightarrow>
               (case audit_loop ours env budget (Suc k) ex' cur' rw' of
                  (a, rw2, acc2, n) \<Rightarrow> (a, rw2, acc @ acc2, n)))))"
  by pat_completeness auto
termination
proof (relation "measure (\<lambda>(ours, env, budget, k, examined, cur, rw). nat budget - examined)", goal_cases)
  case (2 ours env budget k examined cur rw page e es st t1 ex' t2 cur' t3 rw' acc)
  then have "audit_entries ours env examined cur (e # es) rw = (False, ex', cur', rw', acc)" by simp
  from audit_entries_examined [OF this] 2(1) show ?case by simp
qed simp

declare audit_loop.simps [simp del]

text \<open>\<open>ours\<close> is \<^verbatim>\<open>SelfHolds\<close> of the node's ring.\<close>

definition auditPass ::
  "(bytes \<Rightarrow> bytes) \<Rightarrow> audit_env \<Rightarrow> coord \<Rightarrow> Worker \<Rightarrow> (bool \<times> go_error option) \<times> Worker \<times> Task list \<times> nat" where
  "auditPass sha env c rw =
     (if s_index (co_local c) = None then ((False, None), rw, [], 0)
      else if Size (co_ring c) < 2 \<or> co_replicaCount c < 2 then ((False, None), rw, [], 0)
      else audit_loop (\<lambda>key. SelfHolds sha (co_ring c) key (co_replicaCount c)) env (rw_auditBudget rw) 0 0
             (rw_cursorNS rw, rw_cursorKey rw)
             (rbump (\<lambda>st. st\<lparr>rc_AuditRuns := rc_AuditRuns st + 1\<rparr>) rw))"

definition Audit :: "(bytes \<Rightarrow> bytes) \<Rightarrow> audit_env \<Rightarrow> coord \<Rightarrow> Worker \<Rightarrow> go_error option \<times> Worker" where
  "Audit sha env c rw = (case auditPass sha env c rw of ((_, e), rw', _) \<Rightarrow> (e, rw'))"

section \<open>Repair\<close>

definition sendCopy ::
  "peer_ops \<Rightarrow> coord_env \<Rightarrow> string \<Rightarrow> Member \<Rightarrow> Task \<Rightarrow> int \<Rightarrow> world \<Rightarrow> go_error option \<times> world" where
  "sendCopy pc env me target task sz w =
     (case local_Get env me (m_Name target) (tk_ns task) (tk_key task) w of
        (Inl e, w') \<Rightarrow> (Some (Wrapped ''reopen local copy'' e), w')
      | (Inr ob, w') \<Rightarrow>
         (case pp_Put pc target (tk_ns task) (tk_key task) (o_data ob, None) sz HopRepair w' of
            (r, w2) \<Rightarrow> (r, set_store me (obj_Close ob (co_local (w2 me))) w2)))"

text \<open>The loop over the other holders. \<open>ctx m\<close> is the context's error when the loop reaches \<open>m\<close>.\<close>

fun repair_holders ::
  "peer_ops \<Rightarrow> coord_env \<Rightarrow> (Member \<Rightarrow> go_error option) \<Rightarrow> string \<Rightarrow> string \<Rightarrow> Task \<Rightarrow> int \<Rightarrow> Member list \<Rightarrow> Worker \<times> world \<Rightarrow>
     Worker \<times> world" where
  "repair_holders pc env ctx me self task sz [] s = s"
| "repair_holders pc env ctx me self task sz (m # ms) (rw, w) =
     (if m_Name m = self then repair_holders pc env ctx me self task sz ms (rw, w)
      else if ctx m \<noteq> None then (rw, w)
      else case pp_Stat pc m (tk_ns task) (tk_key task) HopRead w of
        (Inr _, w1) \<Rightarrow>
          repair_holders pc env ctx me self task sz ms (rbump (\<lambda>st. st\<lparr>rc_AlreadyPresent := rc_AlreadyPresent st + 1\<rparr>) rw, w1)
      | (Inl e, w1) \<Rightarrow>
          if \<not> errors_is e SPeerNotFound then repair_holders pc env ctx me self task sz ms (rw, w1)
          else case sendCopy pc env me m task sz w1 of
            (Some e, w2) \<Rightarrow>
              repair_holders pc env ctx me self task sz ms
                (if isOverQuota e then rbump (\<lambda>st. st\<lparr>rc_DeclinedOverQuota := rc_DeclinedOverQuota st + 1\<rparr>) rw
                 else rbump (\<lambda>st. st\<lparr>rc_Failed := rc_Failed st + 1\<rparr>) rw, w2)
          | (None, w2) \<Rightarrow>
              repair_holders pc env ctx me self task sz ms
                (rbump (\<lambda>st. st\<lparr>rc_Repaired := rc_Repaired st + 1, rc_BytesRepaired := rc_BytesRepaired st + sz\<rparr>) rw, w2))"

definition repair ::
  "(bytes \<Rightarrow> bytes) \<Rightarrow> peer_ops \<Rightarrow> coord_env \<Rightarrow> (Member \<Rightarrow> go_error option) \<Rightarrow> string \<Rightarrow> Task \<Rightarrow> Worker \<times> world \<Rightarrow> Worker \<times> world" where
  "repair sha pc env ctx me task s =
     (case s of (rw, w) \<Rightarrow>
        (case local_Stat env me (tk_ns task) (tk_key task) w of
           (Inl e, w1) \<Rightarrow> (rw, w1)
         | (Inr st, w1) \<Rightarrow>
             repair_holders pc env ctx me (r_self (co_ring (w me))) task (t_Size st)
               (Holders sha (co_ring (w me)) (tk_key task) (co_replicaCount (w me))) (rw, w1)))"

section \<open>Running\<close>

text \<open>
  \<^verbatim>\<open>Run\<close> and its pool as a sequence of turns: the timer fires and a pass runs, a pool goroutine receives
  a task, or \<^verbatim>\<open>Run\<close> sees the cancelled context and closes the queue. The flag of \<open>Receive\<close> says that the
  pool sees a context that is cancelled already; after that, and once the queue is closed, the pool
  drains it without working.
\<close>

datatype repair_event =
    Tick audit_env
  | Receive coord_env "Member \<Rightarrow> go_error option" bool
  | Cancel

definition backlogInterval :: time where
  "backlogInterval = 250 * 1000000"

definition default_interval :: "time \<Rightarrow> time" where
  "default_interval interval = (if interval \<le> 0 then 60 * 1000000000 else interval)"

text \<open>The wait before the next pass.\<close>

definition next_wait :: "time \<Rightarrow> bool \<Rightarrow> time" where
  "next_wait interval pending = (if pending then backlogInterval else default_interval interval)"

definition start_Run :: "Worker \<Rightarrow> Worker option" where
  "start_Run rw = (if rw_started rw then None else Some (rw\<lparr>rw_started := True\<rparr>))"

text \<open>The received task: the pool works on it unless the context has been cancelled.\<close>

definition workerLoop_turn ::
  "(bytes \<Rightarrow> bytes) \<Rightarrow> peer_ops \<Rightarrow> coord_env \<Rightarrow> (Member \<Rightarrow> go_error option) \<Rightarrow> string \<Rightarrow> bool \<Rightarrow> Worker \<times> world \<Rightarrow> Worker \<times> world" where
  "workerLoop_turn sha pc env ctx me cancelled s =
     (case s of (rw, w) \<Rightarrow>
        (case rw_queue rw of
           [] \<Rightarrow> (rw, w)
         | task # rest \<Rightarrow>
             if cancelled then (rw\<lparr>rw_queue := rest\<rparr>, w)
             else repair sha pc env ctx me task (rw\<lparr>rw_queue := rest\<rparr>, w)))"

definition repair_turn ::
  "(bytes \<Rightarrow> bytes) \<Rightarrow> peer_ops \<Rightarrow> string \<Rightarrow> repair_event \<Rightarrow> Worker \<times> world \<Rightarrow> Worker \<times> world" where
  "repair_turn sha pc me ev s =
     (case s of (rw, w) \<Rightarrow>
        (case ev of
           Tick env \<Rightarrow> if rw_qclosed rw then (rw, w) else (fst (snd (auditPass sha env (w me) rw)), w)
         | Receive env ctx cancelled \<Rightarrow> workerLoop_turn sha pc env ctx me (cancelled \<or> rw_qclosed rw) (rw, w)
         | Cancel \<Rightarrow> (rw\<lparr>rw_qclosed := True\<rparr>, w)))"

text \<open>\<^verbatim>\<open>Run\<close> returns when the queue is closed and drained.\<close>

definition finish_Run :: "Worker \<Rightarrow> Worker" where
  "finish_Run rw = (if rw_qclosed rw \<and> rw_queue rw = [] then rw\<lparr>rw_done := True\<rparr> else rw)"

definition rw_Close :: "Worker \<Rightarrow> Worker" where
  "rw_Close rw =
     (if rw_once rw then rw
      else if \<not> rw_started rw then rw\<lparr>rw_once := True, rw_done := True\<rparr> else rw\<lparr>rw_once := True\<rparr>)"

section \<open>Lemmas: the audit\<close>

abbreviation cursor :: "Worker \<Rightarrow> namespace \<times> key" where
  "cursor rw \<equiv> (rw_cursorNS rw, rw_cursorKey rw)"

text \<open>The rows after a cursor, in the order of the pages.\<close>

definition after :: "namespace \<times> key \<Rightarrow> Index \<Rightarrow> Entry list" where
  "after cur i = filter (\<lambda>e. cur < entry_ref e) (sorted_entries i)"

lemma rbump_sel [simp]:
  "rw_queue (rbump f rw) = rw_queue rw" "rw_cap (rbump f rw) = rw_cap rw" "rw_auditBudget (rbump f rw) = rw_auditBudget rw"
  "rw_cursorNS (rbump f rw) = rw_cursorNS rw" "rw_cursorKey (rbump f rw) = rw_cursorKey rw" "rw_qclosed (rbump f rw) = rw_qclosed rw"
  by (simp_all add: rbump_def)

lemma setCursor_sel [simp]:
  "rw_cursorNS (setCursor ns key rw) = ns" "rw_cursorKey (setCursor ns key rw) = key" "rw_queue (setCursor ns key rw) = rw_queue rw"
  "rw_cap (setCursor ns key rw) = rw_cap rw" "rw_auditBudget (setCursor ns key rw) = rw_auditBudget rw"
  by (simp_all add: setCursor_def)

lemma audit_entries_spec:
  assumes "audit_entries ours env ex cur es rw = (stop, ex', cur', rw', acc)"
  shows "\<exists>m \<le> length es. acc = map task_of (filter (\<lambda>e. ours (e_key e)) (take m es)) \<and>
     cur' = (if m = 0 then cur else entry_ref (es ! (m - 1))) \<and>
     (if stop then m < length es \<and> ex' = ex + m + 1 else m = length es \<and> ex' = ex + m) \<and>
     (rw_queue rw = [] \<and> 0 < rw_cap rw \<and> es \<noteq> [] \<longrightarrow> 0 < m)"
  using assms
proof (induction es arbitrary: ex cur rw acc)
  case (Cons e es)
  let ?P = "\<lambda>c acc m. acc = map task_of (filter (\<lambda>e. ours (e_key e)) (take m es)) \<and>
     cur' = (if m = 0 then c else entry_ref (es ! (m - 1))) \<and>
     (if stop then m < length es \<and> ex' = ex + 1 + m + 1 else m = length es \<and> ex' = ex + 1 + m)"
  have step: "\<exists>m \<le> length (e # es). acc = map task_of (filter (\<lambda>e. ours (e_key e)) (take m (e # es))) \<and>
     cur' = (if m = 0 then cur else entry_ref ((e # es) ! (m - 1))) \<and>
     (if stop then m < length (e # es) \<and> ex' = ex + m + 1 else m = length (e # es) \<and> ex' = ex + m) \<and>
     (rw_queue rw = [] \<and> 0 < rw_cap rw \<and> e # es \<noteq> [] \<longrightarrow> 0 < m)"
    if "m \<le> length es" "?P (entry_ref e) acc' m" "acc = (if ours (e_key e) then task_of e # acc' else acc')" for m acc'
    by (rule exI [of _ "Suc m"]) (use that in \<open>auto simp: nth_Cons'\<close>)
  show ?case
  proof (cases "ours (e_key e)")
    case False
    then have "audit_entries ours env (ex + 1) (entry_ref e) es
        (rbump (\<lambda>st. st\<lparr>rc_NotOurs := rc_NotOurs st + 1\<rparr>) (rbump (\<lambda>st. st\<lparr>rc_ObjectsAudited := rc_ObjectsAudited st + 1\<rparr>) rw)) =
        (stop, ex', cur', rw', acc)"
      using Cons.prems by (simp add: Let_def entry_ref_def)
    from Cons.IH [OF this] obtain m where "m \<le> length es" "?P (entry_ref e) acc m" by blast
    with step False show ?thesis by simp
  next
    case True
    let ?rw = "receive (ae_taken env ex) (rbump (\<lambda>st. st\<lparr>rc_ObjectsAudited := rc_ObjectsAudited st + 1\<rparr>) rw)"
    obtain ok rw2 where q: "enqueue (task_of e) ?rw = (ok, rw2)" by fastforce
    show ?thesis
    proof (cases ok)
      case False
      then have "\<not> (rw_queue rw = [] \<and> 0 < rw_cap rw)"
        using q by (auto simp: enqueue_def receive_def split: if_splits)
      with False True Cons.prems q show ?thesis by (intro exI [of _ 0]) (auto simp: Let_def)
    next
      case ok: True
      then obtain acc' where "audit_entries ours env (ex + 1) (entry_ref e) es rw2 = (stop, ex', cur', rw', acc')"
        "acc = task_of e # acc'"
        using True Cons.prems q by (auto simp: Let_def entry_ref_def split: prod.splits)
      with Cons.IH obtain m where "m \<le> length es" "?P (entry_ref e) acc' m" by blast
      with step True \<open>acc = task_of e # acc'\<close> show ?thesis by simp
    qed
  qed
qed simp

lemma PageAfter_Inr:
  assumes "PageAfter ns key limit fault i = Inr page" "0 < limit"
  shows "page = take (nat limit) (after (ns, key) i)"
proof -
  have "db_err i fault = None" using assms by (auto simp: PageAfter_def split: option.splits)
  then have "i_dbopen i" "fault = None" by (auto simp: db_err_def split: if_splits)
  with PageAfter_ok [of i ns key limit] assms(1) show ?thesis by (simp add: after_def)
qed

text \<open>A pass that ends without an error handled an initial part of the rows after the cursor, and left the
  cursor at the end of that part, or reset it at the end of the index.\<close>

lemma audit_loop_spec:
  assumes "\<And>k. ae_index env k = i" "index_ok i"
    "audit_loop ours env budget k ex cur rw = ((p, None), rw', acc, n)"
  shows "\<exists>m \<le> length (after cur i). acc = map task_of (filter (\<lambda>e. ours (e_key e)) (take m (after cur i))) \<and>
     (m = length (after cur i) \<and> cursor rw' = ('''', '''') \<or>
      p \<and> cursor rw' = (if m = 0 then cur else entry_ref (after cur i ! (m - 1)))) \<and>
     (int ex < budget \<and> rw_queue rw = [] \<and> 0 < rw_cap rw \<and> after cur i \<noteq> [] \<longrightarrow> 0 < m)"
  using assms
proof (induction ours env budget k ex cur rw arbitrary: acc rule: audit_loop.induct)
  case (1 ours env budget k ex cur rw)
  note IH = "1.IH" and ix = "1.prems"(1) and ok = "1.prems"(2) and loop = "1.prems"(3)
  let ?rest = "after cur i"
  show ?case
  proof (cases "int ex \<ge> budget")
    case True
    then show ?thesis using loop by (intro exI [of _ 0]) (auto simp: audit_loop.simps)
  next
    case False
    note c = this
    then have ctx: "ae_ctx env k = None" using loop by (auto simp: audit_loop.simps split: option.splits)
    obtain page where P: "PageAfter (fst cur) (snd cur) auditPageSize (ae_page env k) (ae_index env k) = Inr page"
      using loop c ctx by (subst (asm) audit_loop.simps) (auto split: sum.splits)
    have page: "page = take 512 ?rest" using PageAfter_Inr [OF P] ix by (simp add: auditPageSize_def)
    show ?thesis
    proof (cases page)
      case Nil
      then have "?rest = []" using page by simp
      with Nil loop c ctx P show ?thesis by (subst (asm) audit_loop.simps) (auto simp: Let_def)
    next
      case (Cons e es)
      obtain stop ex' cur' rw1 acc1 where a: "audit_entries ours env ex cur (e # es) rw = (stop, ex', cur', rw1, acc1)"
        by (metis prod_cases5)
      from audit_entries_spec [OF this] obtain m1 where m1: "m1 \<le> length page"
        "acc1 = map task_of (filter (\<lambda>e. ours (e_key e)) (take m1 page))"
        "cur' = (if m1 = 0 then cur else entry_ref (page ! (m1 - 1)))"
        "if stop then m1 < length page \<and> ex' = ex + m1 + 1 else m1 = length page \<and> ex' = ex + m1"
        "rw_queue rw = [] \<and> 0 < rw_cap rw \<and> page \<noteq> [] \<longrightarrow> 0 < m1"
        unfolding Cons [symmetric] by blast
      have le: "length page \<le> length ?rest" using page by simp
      have tk: "take m1 page = take m1 ?rest" "m1 \<noteq> 0 \<Longrightarrow> page ! (m1 - 1) = ?rest ! (m1 - 1)"
        using m1(1) by (auto simp: page min_def split: if_splits)
      show ?thesis
      proof (cases stop)
        case True
        then have "acc = acc1" "p" "cursor rw' = cur'"
          using loop c ctx P Cons a by (subst (asm) audit_loop.simps; auto)+
        then show ?thesis using m1 tk le Cons by (intro exI [of _ m1]) auto
      next
        case False
        obtain acc2 where l: "audit_loop ours env budget (Suc k) ex' cur' rw1 = ((p, None), rw', acc2, n)" "acc = acc1 @ acc2"
          using loop c ctx P Cons a False by (subst (asm) audit_loop.simps) (auto split: prod.splits)
        have m1l: "m1 = length page" using m1(4) False by simp
        have "cur' = entry_ref (last page)" using m1(3) m1l Cons by (simp add: last_conv_nth)
        then have "after cur' i = drop 512 ?rest"
          using page_rest [OF sorted_entries_strict [OF ok] page [unfolded after_def]] Cons by (simp add: after_def)
        moreover have "drop 512 ?rest = drop (length page) ?rest"
          by (cases "length ?rest \<le> 512") (simp_all add: page)
        ultimately have rest': "after cur' i = drop (length page) ?rest" by simp
        obtain m2 where m2: "m2 \<le> length (after cur' i)" "acc2 = map task_of (filter (\<lambda>e. ours (e_key e)) (take m2 (after cur' i)))"
          "m2 = length (after cur' i) \<and> cursor rw' = ('''', '''') \<or> p \<and> cursor rw' = (if m2 = 0 then cur' else entry_ref (after cur' i ! (m2 - 1)))"
          using IH [OF c ctx P Cons a [symmetric] _ refl refl refl ix ok l(1)] False by blast
        let ?m = "length page + m2"
        have len: "length (after cur' i) = length ?rest - length page" using rest' by simp
        have "take ?m ?rest = page @ take m2 (after cur' i)"
          unfolding rest' take_add using tk(1) m1l by simp
        then have A: "acc = map task_of (filter (\<lambda>e. ours (e_key e)) (take ?m ?rest))" using l(2) m1(2) m1l m2(2) by simp
        have B: "?m \<le> length ?rest" using m2(1) len le by simp
        have "entry_ref (?rest ! (?m - 1)) = (if m2 = 0 then cur' else entry_ref (after cur' i ! (m2 - 1)))"
          using m1(3) m1l tk(2) Cons rest' le m2(1) by (auto simp: nth_append)
        with m2(3) len le Cons
        have C: "?m = length ?rest \<and> cursor rw' = ('''', '''') \<or> p \<and> cursor rw' = (if ?m = 0 then cur else entry_ref (?rest ! (?m - 1)))"
          by auto
        have D: "0 < ?m" using Cons by simp
        show ?thesis using A B C D by blast
      qed
    qed
  qed
qed

lemma audit_entries_frame:
  "audit_entries ours env ex cur es rw = (stop, ex', cur', rw', acc) \<Longrightarrow>
     rw_cap rw' = rw_cap rw \<and> rw_auditBudget rw' = rw_auditBudget rw \<and>
     (length (rw_queue rw) \<le> rw_cap rw \<longrightarrow> length (rw_queue rw') \<le> rw_cap rw')"
proof (induction es arbitrary: ex cur rw acc)
  case (Cons e es)
  show ?case
  proof (cases "ours (e_key e)")
    case False
    with Cons show ?thesis by (fastforce simp: Let_def)
  next
    case True
    let ?rw = "receive (ae_taken env ex) (rbump (\<lambda>st. st\<lparr>rc_ObjectsAudited := rc_ObjectsAudited st + 1\<rparr>) rw)"
    obtain ok rw2 where q: "enqueue (task_of e) ?rw = (ok, rw2)" by fastforce
    then have f: "rw_cap rw2 = rw_cap rw \<and> rw_auditBudget rw2 = rw_auditBudget rw \<and>
        (length (rw_queue rw) \<le> rw_cap rw \<longrightarrow> length (rw_queue rw2) \<le> rw_cap rw2)"
      by (auto simp: enqueue_def receive_def split: if_splits)
    show ?thesis
    proof (cases ok)
      case False
      with True Cons.prems q f show ?thesis by (auto simp: Let_def)
    next
      case ok: True
      then obtain acc' where "audit_entries ours env (ex + 1) (e_ns e, e_key e) es rw2 = (stop, ex', cur', rw', acc')"
        using True Cons.prems q by (auto simp: Let_def split: prod.splits)
      from Cons.IH [OF this] f show ?thesis by auto
    qed
  qed
qed simp

lemma receive_sel [simp]:
  "rw_cap (receive n rw) = rw_cap rw" "rw_auditBudget (receive n rw) = rw_auditBudget rw" "rw_queue (receive n rw) = drop n (rw_queue rw)"
  by (simp_all add: receive_def)

text \<open>What holds of every pass: the queue keeps its bound and its capacity, and the budget is overrun by
  less than a page.\<close>

lemma audit_loop_bounds:
  "audit_loop ours env budget k ex cur rw = (a, rw', acc, n) \<Longrightarrow>
     rw_cap rw' = rw_cap rw \<and> rw_auditBudget rw' = rw_auditBudget rw \<and>
     (length (rw_queue rw) \<le> rw_cap rw \<longrightarrow> length (rw_queue rw') \<le> rw_cap rw') \<and> (int ex < budget + 512 \<longrightarrow> int n < budget + 512)"
proof (induction ours env budget k ex cur rw arbitrary: acc rule: audit_loop.induct)
  case (1 ours env budget k ex cur rw)
  note IH = "1.IH" and loop = "1.prems"
  show ?case
  proof (cases "\<exists>e es. int ex < budget \<and> ae_ctx env k = None \<and>
      PageAfter (fst cur) (snd cur) auditPageSize (ae_page env k) (ae_index env k) = Inr (e # es)")
    case False
    then show ?thesis using loop
      by (subst (asm) audit_loop.simps) (auto simp: Let_def split: if_splits option.splits sum.splits list.splits)
  next
    case True
    then obtain e es where c: "int ex < budget" and ctx: "ae_ctx env k = None"
      and P: "PageAfter (fst cur) (snd cur) auditPageSize (ae_page env k) (ae_index env k) = Inr (e # es)" by blast
    have len: "length (e # es) \<le> 512" using PageAfter_Inr [OF P] by (simp add: auditPageSize_def)
    obtain stop ex' cur' rw1 acc1 where a: "audit_entries ours env ex cur (e # es) rw = (stop, ex', cur', rw1, acc1)"
      by (metis prod_cases5)
    note f = audit_entries_frame [OF a]
    have ex': "int ex' < budget + 512"
      using audit_entries_spec [OF a] c len by (auto split: if_splits)
    show ?thesis
    proof (cases stop)
      case True
      with loop c ctx P a f ex' show ?thesis by (subst (asm) audit_loop.simps) auto
    next
      case False
      then obtain acc2 where "audit_loop ours env budget (Suc k) ex' cur' rw1 = (a, rw', acc2, n)"
        using loop c ctx P a by (subst (asm) audit_loop.simps) (auto split: prod.splits)
      from IH [OF _ ctx P refl a [symmetric] _ refl refl refl this] c False f ex' show ?thesis by auto
    qed
  qed
qed

lemma audit_loop_quiet:
  assumes "\<And>k. ae_ctx env k = None \<and> ae_page env k = None \<and> i_dbopen (ae_index env k)"
  shows "\<exists>p rw' acc n. audit_loop ours env budget k ex cur rw = ((p, None), rw', acc, n)"
  using assms
proof (induction ours env budget k ex cur rw rule: audit_loop.induct)
  case (1 ours env budget k ex cur rw)
  note IH = "1.IH" and quiet = "1.prems"
  show ?case
  proof (cases "int ex \<ge> budget")
    case True
    then show ?thesis by (subst audit_loop.simps) auto
  next
    case False
    obtain page where P: "PageAfter (fst cur) (snd cur) auditPageSize (ae_page env k) (ae_index env k) = Inr page"
      using PageAfter_ok quiet by metis
    show ?thesis
    proof (cases page)
      case Nil
      with False P quiet show ?thesis by (subst audit_loop.simps) (simp add: Let_def)
    next
      case (Cons e es)
      obtain stop ex' cur' rw1 acc1 where a: "audit_entries ours env ex cur (e # es) rw = (stop, ex', cur', rw1, acc1)"
        by (metis prod_cases5)
      show ?thesis
      proof (cases stop)
        case True
        with False P quiet a Cons show ?thesis by (subst audit_loop.simps) (auto simp del: audit_entries.simps)
      next
        case f: False
        from IH [OF False _ P Cons a [symmetric] _ refl refl refl quiet] f quiet
        obtain p rw' acc n where "audit_loop ours env budget (Suc k) ex' cur' rw1 = ((p, None), rw', acc, n)" by auto
        with False P quiet a Cons f show ?thesis by (subst audit_loop.simps) (auto simp del: audit_entries.simps)
      qed
    qed
  qed
qed

section \<open>Lemmas: successive passes\<close>

text \<open>Passes with the given environments, the pool emptying the queue before each; the tasks accepted.\<close>

fun audit_passes :: "(bytes \<Rightarrow> bytes) \<Rightarrow> audit_env list \<Rightarrow> coord \<Rightarrow> Worker \<Rightarrow> Worker \<times> Task list" where
  "audit_passes sha [] c rw = (rw, [])"
| "audit_passes sha (env # envs) c rw =
     (case auditPass sha env c (rw\<lparr>rw_queue := []\<rparr>) of
        (_, rw1, acc, _) \<Rightarrow> (case audit_passes sha envs c rw1 of (rw2, acc2) \<Rightarrow> (rw2, acc @ acc2)))"

text \<open>A pass over an index that does not change, in which nothing fails.\<close>

definition quiet_audit :: "Index \<Rightarrow> audit_env \<Rightarrow> bool" where
  "quiet_audit i env \<longleftrightarrow> (\<forall>k. ae_ctx env k = None \<and> ae_page env k = None \<and> ae_index env k = i)"

definition audits :: "coord \<Rightarrow> bool" where
  "audits c \<longleftrightarrow> s_index (co_local c) \<noteq> None \<and> 2 \<le> Size (co_ring c) \<and> 2 \<le> co_replicaCount c"

abbreviation ours_of :: "(bytes \<Rightarrow> bytes) \<Rightarrow> coord \<Rightarrow> Entry \<Rightarrow> bool" where
  "ours_of sha c e \<equiv> SelfHolds sha (co_ring c) (e_key e) (co_replicaCount c)"

lemma auditPass_quiet:
  assumes "quiet_audit i env" "i_dbopen i" "index_ok i" "audits c" "0 < rw_cap rw" "0 < rw_auditBudget rw" "rw_queue rw = []"
  obtains p rw' acc n m where "auditPass sha env c rw = ((p, None), rw', acc, n)" "rw_cap rw' = rw_cap rw"
    "rw_auditBudget rw' = rw_auditBudget rw" "m \<le> length (after (cursor rw) i)"
    "acc = map task_of (filter (ours_of sha c) (take m (after (cursor rw) i)))"
    "m = length (after (cursor rw) i) \<and> cursor rw' = ('''', '''') \<or>
     0 < m \<and> cursor rw' = entry_ref (after (cursor rw) i ! (m - 1))"
proof -
  let ?ours = "\<lambda>key. SelfHolds sha (co_ring c) key (co_replicaCount c)"
  let ?rw = "rbump (\<lambda>st. st\<lparr>rc_AuditRuns := rc_AuditRuns st + 1\<rparr>) rw"
  have q: "\<And>k. ae_ctx env k = None \<and> ae_page env k = None \<and> i_dbopen (ae_index env k)" "\<And>k. ae_index env k = i"
    using assms(1,2) by (auto simp: quiet_audit_def)
  obtain p rw' acc n where l: "audit_loop ?ours env (rw_auditBudget rw) 0 0 (cursor rw) ?rw = ((p, None), rw', acc, n)"
    using audit_loop_quiet [OF q(1)] by blast
  obtain m where m: "m \<le> length (after (cursor rw) i)" "acc = map task_of (filter (ours_of sha c) (take m (after (cursor rw) i)))"
    "m = length (after (cursor rw) i) \<and> cursor rw' = ('''', '''') \<or>
     p \<and> cursor rw' = (if m = 0 then cursor rw else entry_ref (after (cursor rw) i ! (m - 1)))"
    "int 0 < rw_auditBudget rw \<and> rw_queue ?rw = [] \<and> 0 < rw_cap ?rw \<and> after (cursor rw) i \<noteq> [] \<longrightarrow> 0 < m"
    using audit_loop_spec [OF q(2) assms(3) l] by blast
  have "auditPass sha env c rw = ((p, None), rw', acc, n)" using l assms(4) by (auto simp: auditPass_def audits_def)
  moreover have "rw_cap rw' = rw_cap rw" "rw_auditBudget rw' = rw_auditBudget rw" using audit_loop_bounds [OF l] by simp_all
  moreover have "m = length (after (cursor rw) i) \<and> cursor rw' = ('''', '''') \<or>
     0 < m \<and> cursor rw' = entry_ref (after (cursor rw) i ! (m - 1))"
  proof (cases "after (cursor rw) i = []")
    case True
    have "PageAfter (rw_cursorNS rw) (rw_cursorKey rw) auditPageSize (ae_page env 0) (ae_index env 0) = Inr []"
      using PageAfter_ok [OF assms(2)] q True by (simp add: after_def)
    then have "cursor rw' = ([], [])"
      using l q(1) assms(6) by (subst (asm) audit_loop.simps) (auto simp: Let_def)
    with True m(1) show ?thesis by simp
  next
    case False
    with m(3,4) assms(5-7) show ?thesis by auto
  qed
  ultimately show ?thesis using that m(1,2) by blast
qed

lemma after_after:
  assumes "index_ok i" "0 < m" "m \<le> length (after cur i)"
  shows "after (entry_ref (after cur i ! (m - 1))) i = drop m (after cur i)"
proof -
  let ?page = "take m (after cur i)"
  have ne: "?page \<noteq> []" using assms(2,3) by auto
  have "last ?page = after cur i ! (m - 1)" using assms(2,3) by (simp add: last_conv_nth [OF ne])
  then show ?thesis using page_rest [OF sorted_entries_strict [OF assms(1)], of ?page m cur] ne by (simp add: after_def)
qed

lemma audit_passes_append:
  "audit_passes sha (xs @ ys) c rw =
     (case audit_passes sha xs c rw of (rw1, a1) \<Rightarrow> (case audit_passes sha ys c rw1 of (rw2, a2) \<Rightarrow> (rw2, a1 @ a2)))"
  by (induction xs arbitrary: rw) (simp_all split: prod.splits)

text \<open>A sweep from a cursor to the end of the index takes at most one pass per row and one more.\<close>

lemma passes_sweep:
  assumes "i_dbopen i" "index_ok i" "audits c" "0 < rw_cap rw" "0 < rw_auditBudget rw"
    "\<forall>env \<in> set envs. quiet_audit i env" "length (after (cursor rw) i) < length envs"
  shows "\<exists>k \<le> Suc (length (after (cursor rw) i)). \<exists>rw' acc. audit_passes sha (take k envs) c rw = (rw', acc) \<and>
     cursor rw' = ([], []) \<and> rw_cap rw' = rw_cap rw \<and> rw_auditBudget rw' = rw_auditBudget rw \<and>
     task_of ` set (filter (ours_of sha c) (after (cursor rw) i)) \<subseteq> set acc"
  using assms(4-7)
proof (induction "length (after (cursor rw) i)" arbitrary: rw envs rule: less_induct)
  case less
  then obtain env envs' where envs: "envs = env # envs'" by (cases envs) auto
  let ?rw = "rw\<lparr>rw_queue := []\<rparr>" and ?rest = "after (cursor rw) i"
  have q: "quiet_audit i env" using less.prems(3) envs by simp
  have c0: "0 < rw_cap ?rw" "0 < rw_auditBudget ?rw" "rw_queue ?rw = []" "cursor ?rw = cursor rw" using less.prems by simp_all
  obtain p rw1 acc n m where a: "auditPass sha env c ?rw = ((p, None), rw1, acc, n)" and f: "rw_cap rw1 = rw_cap ?rw"
    "rw_auditBudget rw1 = rw_auditBudget ?rw" and m: "m \<le> length ?rest" "acc = map task_of (filter (ours_of sha c) (take m ?rest))"
    "m = length ?rest \<and> cursor rw1 = ([], []) \<or> 0 < m \<and> cursor rw1 = entry_ref (?rest ! (m - 1))"
    by (rule auditPass_quiet [OF q assms(1-3) c0(1-3)]) (unfold c0(4), blast)
  show ?case
  proof (cases "m = length ?rest \<and> cursor rw1 = ([], [])")
    case True
    then show ?thesis using a f m envs by (intro exI [of _ 1]) auto
  next
    case False
    with m(3) have m0: "0 < m" "cursor rw1 = entry_ref (?rest ! (m - 1))" by auto
    have rest1: "after (cursor rw1) i = drop m ?rest" unfolding m0(2) by (rule after_after [OF assms(2) m0(1) m(1)])
    then have lt: "length (after (cursor rw1) i) < length ?rest" using m0(1) m(1) by simp
    have "\<exists>k \<le> Suc (length (after (cursor rw1) i)). \<exists>rw' acc. audit_passes sha (take k envs') c rw1 = (rw', acc) \<and>
       cursor rw' = ([], []) \<and> rw_cap rw' = rw_cap rw1 \<and> rw_auditBudget rw' = rw_auditBudget rw1 \<and>
       task_of ` set (filter (ours_of sha c) (after (cursor rw1) i)) \<subseteq> set acc"
      by (rule less.hyps [OF lt]) (use less.prems envs lt f in auto)
    then obtain k rw2 acc2 where k: "k \<le> Suc (length (after (cursor rw1) i))" "audit_passes sha (take k envs') c rw1 = (rw2, acc2)"
      "cursor rw2 = ([], [])" "rw_cap rw2 = rw_cap rw1" "rw_auditBudget rw2 = rw_auditBudget rw1"
      "task_of ` set (filter (ours_of sha c) (after (cursor rw1) i)) \<subseteq> set acc2" by blast
    have "set ?rest = set (take m ?rest) \<union> set (drop m ?rest)" by (metis append_take_drop_id set_append)
    then have "task_of ` set (filter (ours_of sha c) ?rest) \<subseteq> set (acc @ acc2)"
      using k(6) m(2) unfolding rest1 by auto
    then show ?thesis using a k f envs lt by (intro exI [of _ "Suc k"]) auto
  qed
qed

lemma audit_passes_mono:
  assumes "audit_passes sha (take k envs) c rw = (rw', acc)"
  shows "set acc \<subseteq> set (snd (audit_passes sha envs c rw))"
  using audit_passes_append [of sha "take k envs" "drop k envs" c rw] assms by (auto split: prod.splits)

section \<open>Lemmas: repair over the contract of the peers\<close>

text \<open>Some nodes of \<open>hs\<close> that lacked an object got it; nothing else changed.\<close>

definition fills :: "string set \<Rightarrow> objRef \<Rightarrow> bytes \<Rightarrow> world \<Rightarrow> world \<Rightarrow> bool" where
  "fills hs ref d w w' \<longleftrightarrow>
     (\<forall>n. held w' n = held w n \<or> n \<in> hs \<and> held w n ref = None \<and> held w' n = (held w n)(ref \<mapsto> d))"

lemma fills_held: "held w' = held w \<Longrightarrow> fills hs ref d w w'"
  by (simp add: fills_def)

lemma fills_trans:
  assumes "fills A ref d w w1" "fills B ref d w1 w2" "A \<inter> B = {}"
  shows "fills (A \<union> B) ref d w w2"
  unfolding fills_def
proof
  fix n
  from assms show "held w2 n = held w n \<or> n \<in> A \<union> B \<and> held w n ref = None \<and> held w2 n = (held w n)(ref \<mapsto> d)"
    unfolding fills_def by (metis UnCI disjoint_iff)
qed

locale repair_peers = replica_peers sha pc dest + read_peers sha pc dest plain for sha pc dest plain
begin

lemma sendCopy_fills:
  assumes "sendCopy pc env me m task sz w = (r, w')" "ns_Valid (tk_ns task)" "valid_key (tk_key task)"
    "dest m = Some (m_Name m)" "m_Name m \<noteq> me" "held w me (tk_ns task, tk_key task) = Some d" "sz = int (length d)"
    "held w (m_Name m) (tk_ns task, tk_key task) = None"
  shows "fills {m_Name m} (tk_ns task, tk_key task) d w w'"
proof -
  obtain g w1 where g: "local_Get env me (m_Name m) (tk_ns task) (tk_key task) w = (g, w1)" by fastforce
  note h1 = local_Get_frame(1) [OF g]
  show ?thesis
  proof (cases g)
    case (Inl e)
    with assms(1) g h1 show ?thesis by (auto simp: sendCopy_def intro: fills_held)
  next
    case (Inr ob)
    note g = g [unfolded Inr]
    have d: "o_data ob = d" using local_Get_data [OF g] assms(6) by simp
    obtain q w2 where p: "pp_Put pc m (tk_ns task) (tk_key task) (o_data ob, None) sz HopRepair w1 = (q, w2)" by fastforce
    have w': "w' = set_store me (obj_Close ob (co_local (w2 me))) w2" using assms(1) g p by (simp add: sendCopy_def)
    have T: "Terminal HopRepair" by (simp add: Terminal_def)
    note fr = send_local_frame [OF g p w' T assms(4)]
    have "held w2 (m_Name m) = held w1 (m_Name m) \<or> held w2 (m_Name m) = (held w1 (m_Name m))((tk_ns task, tk_key task) \<mapsto> d)"
      using put_effect [OF p T assms(2,3) _ _ assms(4)] assms(7) d by simp
    moreover have "held w' n = held w n" if "n \<noteq> m_Name m" for n
      using fr(1) [of n] fr(2) assms(5) that by (cases "n = me") (auto simp: held_def)
    ultimately show ?thesis using fr(3) h1 assms(8) unfolding fills_def by (metis insertI1)
  qed
qed

lemma sendCopy_steps: "sendCopy pc env me m task sz w = (r, w') \<Longrightarrow> steps sha w w'"
  by (auto simp: sendCopy_def split: prod.splits sum.splits
      intro: close_steps steps_trans [OF local_steps(1) put_steps] local_steps(1))

lemma repair_holders_fills:
  assumes "repair_holders pc env ctx me me task sz ms (rw, w) = (rw', w')" "ns_Valid (tk_ns task)" "valid_key (tk_key task)" plain
    "\<forall>m \<in> set ms. dest m = Some (m_Name m)" "distinct (map m_Name ms)"
    "held w me (tk_ns task, tk_key task) = Some d" "sz = int (length d)"
  shows "fills (m_Name ` set ms - {me}) (tk_ns task, tk_key task) d w w'"
  using assms
proof (induction ms arbitrary: rw w)
  case Nil
  then show ?case by (auto intro: fills_held)
next
  case (Cons m ms)
  let ?ref = "(tk_ns task, tk_key task)" and ?rest = "m_Name ` set ms - {me}"
  have IH: "fills ?rest ?ref d v w'" if "repair_holders pc env ctx me me task sz ms (rw1, v) = (rw', w')" "held v me ?ref = Some d" for rw1 v
    by (rule Cons.IH [OF that(1)]) (use Cons.prems that(2) in auto)
  show ?case
  proof (cases "m_Name m = me \<or> ctx m \<noteq> None")
    case True
    then show ?thesis
    proof (cases "m_Name m = me")
      case True
      with Cons.prems(1) IH [of rw w] Cons.prems(7) have "fills ?rest ?ref d w w'" by simp
      with True show ?thesis by (simp add: insert_Diff_if)
    next
      case False
      with \<open>m_Name m = me \<or> ctx m \<noteq> None\<close> Cons.prems(1) show ?thesis by (auto intro: fills_held)
    qed
  next
    case False
    obtain st w1 where s: "pp_Stat pc m (tk_ns task) (tk_key task) HopRead w = (st, w1)" by fastforce
    have h1: "held w1 = held w" using stat_steps [OF s] by simp
    have set: "m_Name ` set (m # ms) - {me} = {m_Name m} \<union> ?rest" "{m_Name m} \<inter> ?rest = {}"
      using False Cons.prems(6) by auto
    have "fills ({m_Name m} \<union> ?rest) ?ref d w w'"
    proof (cases "\<exists>e. st = Inl e \<and> errors_is e SPeerNotFound")
      case True
      then obtain e where e: "st = Inl e" "errors_is e SPeerNotFound" by blast
      obtain r w2 where c: "sendCopy pc env me m task sz w1 = (r, w2)" by fastforce
      have gone: "held w1 (m_Name m) ?ref = None"
        using stat_missing [OF s [unfolded e(1)] Cons.prems(2-4) e(2)] Cons.prems(5) h1 by auto
      have f: "fills {m_Name m} ?ref d w1 w2"
        by (rule sendCopy_fills [OF c Cons.prems(2,3) _ _ _ Cons.prems(8) gone]) (use Cons.prems(5,7) False h1 in auto)
      then have "held w2 me = held w1 me" using False unfolding fills_def by (metis singletonD)
      then have "held w2 me ?ref = Some d" using Cons.prems(7) h1 by simp
      moreover obtain rw1 where "repair_holders pc env ctx me me task sz ms (rw1, w2) = (rw', w')"
        using Cons.prems(1) False s e c by (auto split: option.splits)
      ultimately have "fills ?rest ?ref d w2 w'" using IH by blast
      from fills_trans [OF f this set(2)] h1 show ?thesis by (simp add: fills_def)
    next
      case nf: False
      obtain rw1 where "repair_holders pc env ctx me me task sz ms (rw1, w1) = (rw', w')"
        using Cons.prems(1) False s nf by (auto split: sum.splits)
      from IH [OF this] Cons.prems(7) h1 have "fills ?rest ?ref d w1 w'" by simp
      then show ?thesis using h1 unfolding fills_def by auto
    qed
    then show ?thesis using set(1) by simp
  qed
qed

end

section \<open>Properties\<close>

text \<open>C9: An audit pass never skips an object. When a pass over an index ends without an error, the tasks
  it queued are exactly those for the objects this node holds among an initial part of the rows
  after the old cursor, in order; the new cursor is the last row of that part, or the start when
  the pass reached the end. A full queue, the budget and the speed of the pool only decide how long
  that part is. Over the whole pass the queue stays within its capacity, and the number of objects
  examined exceeds the budget by less than a page.\<close>

theorem audit_never_skips:
  assumes "auditPass sha env c rw = ((p, None), rw', acc, n)" "audits c" "\<And>k. ae_index env k = i" "index_ok i"
    "length (rw_queue rw) \<le> rw_cap rw" "0 < rw_auditBudget rw"
  shows "(\<exists>m \<le> length (after (cursor rw) i). acc = map task_of (filter (ours_of sha c) (take m (after (cursor rw) i))) \<and>
       (cursor rw' = (if m = 0 then cursor rw else entry_ref (after (cursor rw) i ! (m - 1))) \<or>
        m = length (after (cursor rw) i) \<and> cursor rw' = ([], []))) \<and>
     length (rw_queue rw') \<le> rw_cap rw' \<and> rw_cap rw' = rw_cap rw \<and> int n < rw_auditBudget rw + auditPageSize"
proof -
  have l: "audit_loop (\<lambda>key. SelfHolds sha (co_ring c) key (co_replicaCount c)) env (rw_auditBudget rw) 0 0 (cursor rw)
      (rbump (\<lambda>st. st\<lparr>rc_AuditRuns := rc_AuditRuns st + 1\<rparr>) rw) = ((p, None), rw', acc, n)"
    using assms(1,2) by (auto simp: auditPass_def audits_def split: if_splits)
  obtain m where "m \<le> length (after (cursor rw) i)" "acc = map task_of (filter (ours_of sha c) (take m (after (cursor rw) i)))"
    "m = length (after (cursor rw) i) \<and> cursor rw' = ([], []) \<or>
     p \<and> cursor rw' = (if m = 0 then cursor rw else entry_ref (after (cursor rw) i ! (m - 1)))"
    using audit_loop_spec [OF assms(3,4) l] by blast
  moreover have "length (rw_queue rw') \<le> rw_cap rw'" "rw_cap rw' = rw_cap rw" "int n < rw_auditBudget rw + auditPageSize"
    using audit_loop_bounds [OF l] assms(5,6) by (simp_all add: auditPageSize_def)
  ultimately show ?thesis by blast
qed

text \<open>C10: Successive passes cover the whole index. Over an index that does not change and with passes in
  which nothing fails, every object this node is a holder of is queued for repair within two passes
  per row and two more, wherever the cursor stands, however small the queue and the budget are, if
  the pool empties the queue between passes.\<close>

theorem audit_covers_index:
  assumes "i_dbopen i" "index_ok i" "audits c" "0 < rw_cap rw" "0 < rw_auditBudget rw" "\<forall>env \<in> set envs. quiet_audit i env"
    "2 * length (entries i) + 2 \<le> length envs" "e \<in> set (entries i)" "e_ns e \<noteq> ''''" "ours_of sha c e"
  shows "task_of e \<in> set (snd (audit_passes sha envs c rw))"
proof -
  have len: "length (after cur i) \<le> length (entries i)" for cur
    using length_filter_le [of "\<lambda>e. cur < entry_ref e" "sorted_entries i"] by (simp add: after_def sorted_entries_def)
  have lt: "length (after (cursor rw) i) < length envs" using len [of "cursor rw"] assms(7) by simp
  obtain k rw1 acc1 where k: "k \<le> Suc (length (after (cursor rw) i))" "audit_passes sha (take k envs) c rw = (rw1, acc1)"
    "cursor rw1 = ([], [])" "rw_cap rw1 = rw_cap rw" "rw_auditBudget rw1 = rw_auditBudget rw"
    using passes_sweep [OF assms(1-6) lt, of sha] by blast
  have lt2: "length (after (cursor rw1) i) < length (drop k envs)" using len [of "cursor rw"] len [of "cursor rw1"] assms(7) k(1) by simp
  have "\<forall>env \<in> set (drop k envs). quiet_audit i env" using assms(6) by (auto dest: in_set_dropD)
  from passes_sweep [OF assms(1-3) _ _ this lt2, of sha] k(4,5) assms(4,5)
  obtain j rw2 acc2 where j: "audit_passes sha (take j (drop k envs)) c rw1 = (rw2, acc2)"
    "task_of ` set (filter (ours_of sha c) (after (cursor rw1) i)) \<subseteq> set acc2" by auto
  have "([], []) < entry_ref e" using assms(9) by (cases "e_ns e") (auto simp: entry_ref_def less_prod_def)
  then have "e \<in> set (after (cursor rw1) i)" using assms(8) k(3) by (simp add: after_def)
  then have "task_of e \<in> set acc2" using j(2) assms(10) by auto
  then have "task_of e \<in> set (snd (audit_passes sha (drop k envs) c rw1))" using audit_passes_mono [OF j(1)] by blast
  with audit_passes_append [of sha "take k envs" "drop k envs" c rw] k(2) show ?thesis by (auto split: prod.splits)
qed

section \<open>Witnesses\<close>

definition ex_auditor :: coord where
  "ex_auditor = \<lparr>co_ring = ex_ring,
     co_local = \<lparr>s_root = [''data''], s_maxObject = 100, s_verifyReads = True, s_dirs = [], s_index = Some ex_index, s_evictor = False,
       s_wake = False, s_closed = False, s_dirSyncUnsupported = False, s_fs = [], s_stats = zero_stats\<rparr>,
     co_peers = True, co_replicaCount = 3, co_high = None, co_stats = zero_coord_stats\<rparr>"

definition ex_worker :: Worker where
  "ex_worker = \<lparr>rw_queue = [], rw_cap = 1, rw_nWorkers = 1, rw_auditBudget = 1, rw_cursorNS = '''', rw_cursorKey = '''',
     rw_stats = zero_repair_stats, rw_started = True, rw_qclosed = False, rw_done = False, rw_once = False\<rparr>"

definition ex_audit :: audit_env where
  "ex_audit = \<lparr>ae_ctx = (\<lambda>k. None), ae_page = (\<lambda>k. None), ae_index = (\<lambda>k. ex_index), ae_taken = (\<lambda>k. 0)\<rparr>"

lemma ex_audit_facts:
  "quiet_audit ex_index ex_audit" "audits ex_auditor" "0 < rw_cap ex_worker" "0 < rw_auditBudget ex_worker" "rw_queue ex_worker = []"
proof -
  have "Size ex_ring = 3" by (simp add: Size_def ex_ring_def ex_peers_def)
  then show "audits ex_auditor" by (simp add: audits_def ex_auditor_def)
  show "quiet_audit ex_index ex_audit" "0 < rw_cap ex_worker" "0 < rw_auditBudget ex_worker" "rw_queue ex_worker = []"
    by (simp_all add: quiet_audit_def ex_audit_def ex_worker_def)
qed

theorem audit_never_skips_witness:
  "\<exists>p rw' acc n. auditPass ex_sha ex_audit ex_auditor ex_worker = ((p, None), rw', acc, n) \<and>
     length (rw_queue rw') \<le> 1 \<and> int n < 1 + auditPageSize"
proof -
  obtain p rw' acc n m where a: "auditPass ex_sha ex_audit ex_auditor ex_worker = ((p, None), rw', acc, n)"
    by (rule auditPass_quiet [OF ex_audit_facts(1) ex_index_ok(3,1) ex_audit_facts(2-5)])
  have "ae_index ex_audit k = ex_index" for k by (simp add: ex_audit_def)
  from audit_never_skips [OF a ex_audit_facts(2) this ex_index_ok(1)] a show ?thesis by (auto simp: ex_worker_def)
qed

theorem audit_covers_index_witness:
  "task_of (entry_of (''cas'', ''b'') \<lparr>x_size = 10, x_created = 1, x_access = 5, x_count = 1\<rparr>) \<in>
     set (snd (audit_passes ex_sha (replicate 100 ex_audit) ex_auditor ex_worker))"
proof (rule audit_covers_index [OF ex_index_ok(3,1) ex_audit_facts(2-4)])
  let ?e = "entry_of (''cas'', ''b'') \<lparr>x_size = 10, x_created = 1, x_access = 5, x_count = 1\<rparr>"
  show "\<forall>env \<in> set (replicate 100 ex_audit). quiet_audit ex_index env" using ex_audit_facts(1) by simp
  show "2 * length (entries ex_index) + 2 \<le> length (replicate 100 ex_audit)" by (simp add: entries_def ex_index_def)
  show "?e \<in> set (entries ex_index)" by (simp add: ex_index_def entries_def)
  show "e_ns ?e \<noteq> ''''" by (simp add: entry_of_def)
  have "Holders ex_sha ex_ring (e_key ?e) 3 = Owners ex_sha ex_ring (e_key ?e)"
    using rdv.owners_length [of ex_sha ex_ring "e_key ?e"] by (simp add: Holders_take ex_ring_def ex_peers_def)
  moreover have "r_self ex_ring \<in> m_Name ` set (r_members ex_ring)"
    using New_ring_ok [OF ex_ring_New] by (auto simp: ring_ok_def ex_ring_def)
  ultimately show "ours_of ex_sha ex_auditor ?e"
    using rdv.owners_set [of ex_sha ex_ring "e_key ?e"] by (simp add: SelfHolds_def HoldsKey_iff ex_auditor_def)
qed

end
