(* ===== verification/HttpApi.thy ===== *)
theory HttpApi
  imports Coordinator
begin

text \<open>
  \<^verbatim>\<open>internal/httpapi/cache.go\<close> and the cache routing of \<^verbatim>\<open>router.go\<close>: Bazel's HTTP cache protocol on one
  node. The handler calls a backend (the record \<open>backend\<close>, the interface \<^verbatim>\<open>protocol.Backend\<close>) and
  maps its answers to responses. Logging and metrics are not modelled. The record \<open>serve_env\<close> says
  where reading a local file or writing to the client's connection fails.
\<close>

section \<open>Parsing requests\<close>

definition inboundHop :: "http_req \<Rightarrow> Hop" where
  "inboundHop r =
     (if header_get (rq_headers r) HeaderForwardedBy = '''' then HopClient
      else ParseHop (header_get (rq_headers r) HeaderHop))"

definition parsePath :: "string \<Rightarrow> (namespace \<times> key) option" where
  "parsePath p0 =
     (let p = trim_prefix (trim_suffix (trim_prefix p0 ''/'') ''/'') ''cache/'' in
      case cut p (CHR ''/'') of (nsPart, keyPart, found) \<Rightarrow>
        if \<not> found then None
        else if contains keyPart ''/'' then None
        else case ParseNamespace nsPart of
               Inl e \<Rightarrow> None
             | Inr ns \<Rightarrow> if ValidateKey keyPart \<noteq> None then None else Some (ns, keyPart))"

definition isCachePath :: "string \<Rightarrow> bool" where
  "isCachePath p =
     (let s = trim_prefix (trim_prefix p ''/'') ''cache/'' in
      s = ''cas'' \<or> s = ''ac'' \<or> has_prefix s ''cas/'' \<or> has_prefix s ''ac/'')"

definition opName :: "string \<Rightarrow> string" where
  "opName method =
     (if method = ''GET'' then ''get'' else if method = ''HEAD'' then ''head''
      else if method = ''PUT'' \<or> method = ''POST'' then ''put'' else ''other'')"

section \<open>Responses\<close>

definition StatusClientClosedRequest :: nat where
  "StatusClientClosedRequest = 499"

definition httpError :: "nat \<Rightarrow> string \<Rightarrow> (string, string) gomap \<Rightarrow> http_resp" where
  "httpError code msg headers =
     \<lparr>rs_status = code,
      rs_headers = mput ''X-Content-Type-Options'' ''nosniff'' (mput ''Content-Type'' ''text/plain; charset=utf-8'' headers),
      rs_length = int (length msg + 1), rs_body = (msg @ [CHR 0x0A], None)\<rparr>"

text \<open>\<^verbatim>\<open>http.NotFound\<close>.\<close>

definition notFound :: "(string, string) gomap \<Rightarrow> http_resp" where
  "notFound headers = httpError 404 ''404 page not found'' headers"

definition setObjectHeaders :: "int \<Rightarrow> (string, string) gomap \<Rightarrow> (string, string) gomap" where
  "setObjectHeaders sz hs =
     mput ''Cache-Control'' ''no-store'' (mput ''Content-Length'' (show_int sz)
       (mput ''Content-Type'' ''application/octet-stream'' hs))"

definition isBodyReadError :: "go_error \<Rightarrow> bool" where
  "isBodyReadError e =
     (contains (error_text e) ''stream body:'' \<or> contains (error_text e) ''unexpected EOF'' \<or>
      contains (error_text e) ''connection reset'')"

definition writeGetError :: "go_error \<Rightarrow> http_resp" where
  "writeGetError e =
     (if errors_is e SNotFound then notFound []
      else if errors_is e SBadKey \<or> errors_is e SBadNamespace then notFound []
      else if errors_is e SClosed then httpError 503 ''node is shutting down'' []
      else if errors_is e SCanceled then httpError StatusClientClosedRequest ''client closed the connection'' []
      else httpError 503 ''no holder could serve this object'' [])"

definition writePutError :: "PutOutcome \<Rightarrow> go_error \<Rightarrow> http_resp" where
  "writePutError res e =
     (if errors_is e SDigestMismatch then httpError 400 (error_text e) []
      else if errors_is e STooLarge then httpError 413 (error_text e) []
      else if errors_is e SOverQuota then httpError 507 (error_text e) []
      else if errors_is e SShortWrite then httpError 400 (error_text e) []
      else if errors_is e SBadKey \<or> errors_is e SBadNamespace then httpError 400 (error_text e) []
      else if errors_is e SClosed then httpError 503 ''node is shutting down'' []
      else if errors_is e SInsufficientReplicas
      then httpError 503 (error_text e)
             [(HeaderCopies, show_nat (oc_Copies res)), (HeaderCopiesWanted, show_nat (oc_Wanted res))]
      else if errors_is e SCanceled \<or> errors_is e SDeadlineExceeded
      then httpError StatusClientClosedRequest ''client closed the connection'' []
      else if isBodyReadError e then httpError 400 ''upload interrupted'' []
      else httpError 500 ''write failed'' [])"

section \<open>The cache handler\<close>

record backend =
  be_Put :: "namespace \<Rightarrow> key \<Rightarrow> body \<Rightarrow> int \<Rightarrow> Hop \<Rightarrow> world \<Rightarrow> put_answer \<times> world"
  be_Open :: "namespace \<Rightarrow> key \<Rightarrow> Hop \<Rightarrow> world \<Rightarrow> ObjectReader result \<times> world"
  be_Stat :: "namespace \<Rightarrow> key \<Rightarrow> Hop \<Rightarrow> world \<Rightarrow> ObjectInfo result \<times> world"

record serve_env =
  sv_read :: "string \<Rightarrow> (nat \<times> go_error) option"
  sv_write :: "string \<Rightarrow> (nat \<times> go_error) option"

text \<open>
  \<^verbatim>\<open>serveGet\<close>: the headers go out before the bytes, so a copy that fails or a digest that does not
  match cannot change the status. The reader is closed at the end.
\<close>

definition serveGet ::
  "(bytes \<Rightarrow> bytes) \<Rightarrow> serve_env \<Rightarrow> backend \<Rightarrow> string \<Rightarrow> namespace \<Rightarrow> key \<Rightarrow> Hop \<Rightarrow> bool \<Rightarrow> world \<Rightarrow> http_resp \<times> world" where
  "serveGet sha sv be me ns key hop withBody w =
     (if \<not> withBody
      then case be_Stat be ns key hop w of
             (Inl e, w') \<Rightarrow> (writeGetError e, w')
           | (Inr info, w') \<Rightarrow>
               (\<lparr>rs_status = 200, rs_headers = setObjectHeaders (oi_Size info) [(HeaderSource, oi_Source info)],
                 rs_length = oi_Size info, rs_body = ([], None)\<rparr>, w')
      else case be_Open be ns key hop w of
             (Inl e, w') \<Rightarrow> (writeGetError e, w')
           | (Inr rd, w1) \<Rightarrow>
              (case or_WriteTo (sv_read sv me) (sv_write sv me) rd of
                 (sent, copyErr, rd') \<Rightarrow>
                   let s1 = co_local (w1 me);
                       s2 = (if copyErr = None then snd (or_Verify sha rd' s1) else s1)
                   in (\<lparr>rs_status = 200, rs_headers = setObjectHeaders (or_Size rd) [(HeaderSource, or_Source rd)],
                        rs_length = or_Size rd, rs_body = (sent, copyErr)\<rparr>,
                       set_store me (or_Close rd' s2) w1)))"

text \<open>A server's request always has a body, so the nil test of \<^verbatim>\<open>servePut\<close> is not modelled.\<close>

definition servePut ::
  "int \<Rightarrow> backend \<Rightarrow> namespace \<Rightarrow> key \<Rightarrow> Hop \<Rightarrow> http_req \<Rightarrow> world \<Rightarrow> http_resp \<times> world" where
  "servePut maxObject be ns key hop r w =
     (if maxObject > 0 \<and> rq_length r > maxObject
      then (httpError 413 (''object exceeds the per-object limit of '' @ show_int maxObject @ '' bytes'') [], w)
      else case be_Put be ns key (rq_body r) (rq_length r) hop w of
             ((res, Some e), w') \<Rightarrow> (writePutError res e, w')
           | ((res, None), w') \<Rightarrow>
               let h1 = (if oc_Holders res \<noteq> [] then [(HeaderHolders, join '','' (oc_Holders res))] else []);
                   h2 = mput HeaderCopiesWanted (show_nat (oc_Wanted res)) (mput HeaderCopies (show_nat (oc_Copies res)) h1)
               in if oc_AlreadyStored res
                  then (\<lparr>rs_status = 200, rs_headers = mput HeaderAlreadyStored ''true'' h2, rs_length = 0, rs_body = ([], None)\<rparr>, w')
                  else (\<lparr>rs_status = 201, rs_headers = h2, rs_length = 0, rs_body = ([], None)\<rparr>, w'))"

definition ServeHTTP ::
  "(bytes \<Rightarrow> bytes) \<Rightarrow> serve_env \<Rightarrow> int \<Rightarrow> backend \<Rightarrow> string \<Rightarrow> http_req \<Rightarrow> world \<Rightarrow> http_resp \<times> world" where
  "ServeHTTP sha sv maxObject be me r w =
     (case parsePath (rq_path r) of
        None \<Rightarrow>
          if rq_method r = ''PUT'' \<or> rq_method r = ''POST'' then (httpError 400 ''malformed cache path'' [], w)
          else (notFound [], w)
      | Some (ns, key) \<Rightarrow>
          let hop = inboundHop r in
          if rq_method r = ''GET'' then serveGet sha sv be me ns key hop True w
          else if rq_method r = ''HEAD'' then serveGet sha sv be me ns key hop False w
          else if rq_method r = ''PUT'' \<or> rq_method r = ''POST'' then servePut maxObject be ns key hop r w
          else (httpError 405 ''method not allowed'' [(''Allow'', ''GET, HEAD, PUT'')], w))"

text \<open>\<^verbatim>\<open>routeCache\<close> and \<^verbatim>\<open>nodeHeader\<close>: cache paths go to the cache handler, everything else to the mux
  \<open>next\<close>, and every response carries the node's name.\<close>

definition routeCache ::
  "(http_req \<Rightarrow> world \<Rightarrow> http_resp \<times> world) \<Rightarrow> (http_req \<Rightarrow> world \<Rightarrow> http_resp \<times> world) \<Rightarrow> http_req \<Rightarrow> world \<Rightarrow> http_resp \<times> world" where
  "routeCache cache next r w = (if isCachePath (rq_path r) then cache r w else next r w)"

definition nodeHeader ::
  "string \<Rightarrow> (http_req \<Rightarrow> world \<Rightarrow> http_resp \<times> world) \<Rightarrow> http_req \<Rightarrow> world \<Rightarrow> http_resp \<times> world" where
  "nodeHeader node next r w =
     (case next r w of (resp, w') \<Rightarrow> (resp\<lparr>rs_headers := mput HeaderNode node (rs_headers resp)\<rparr>, w'))"

section \<open>Lemmas\<close>

lemma httpError_sel [simp]: "rs_status (httpError c m h) = c" "rs_status (notFound h) = 404"
  by (simp_all add: httpError_def notFound_def)

lemma hex_no_slash: "valid_key key \<Longrightarrow> CHR ''/'' \<notin> set key"
  using hex_char_not_special by (auto simp: ValidateKey_iff)

lemma valid_key_ne: "valid_key key \<Longrightarrow> key \<noteq> []"
  by (auto simp: ValidateKey_iff)

lemma trim_suffix_valid_key:
  assumes "valid_key key"
  shows "trim_suffix (s @ key) ''/'' = s @ key"
proof -
  have "key \<noteq> []" "last key \<noteq> CHR ''/''"
    using assms hex_no_slash valid_key_ne last_in_set by metis+
  then have "\<not> has_suffix (s @ key) ''/''"
    by (cases key rule: rev_cases) (auto simp: has_suffix_def)
  then show ?thesis by (simp add: trim_suffix_def)
qed

lemma parsePath_object:
  assumes "ns_Valid ns" "valid_key key"
  shows "parsePath (''/'' @ ns @ ''/'' @ key) = Some (ns, key)"
proof -
  have ns: "ns = ''cas'' \<or> ns = ''ac''" using assms(1) by (auto simp: ns_Valid_def NamespaceCAS_def NamespaceAC_def)
  have t: "trim_suffix (ns @ ''/'' @ key) ''/'' = ns @ ''/'' @ key"
    using trim_suffix_valid_key [OF assms(2), of "ns @ ''/''"] by simp
  have c: "cut (ns @ ''/'' @ key) (CHR ''/'') = (ns, key, True)"
    using cut_append [of "CHR ''/''" ns key] ns by auto
  have p: "trim_prefix (ns @ ''/'' @ key) ''cache/'' = ns @ ''/'' @ key"
    using ns by (auto simp: trim_prefix_def)
  have "trim_prefix (''/'' @ ns @ ''/'' @ key) ''/'' = ns @ ''/'' @ key"
    using trim_prefix_append [of "''/''" "ns @ ''/'' @ key"] by simp
  moreover have "\<not> contains key ''/''" using contains_singleton [of key] hex_no_slash [OF assms(2)] by simp
  moreover have "ParseNamespace ns = Inr ns"
    using ns by (auto simp: ParseNamespace_def NamespaceCAS_def NamespaceAC_def to_lower_def lower_char_def less_eq_char_def)
  ultimately show ?thesis using t c p assms(2) by (simp add: parsePath_def Let_def)
qed

lemma isCachePath_object:
  assumes "ns_Valid ns"
  shows "isCachePath (''/'' @ ns @ ''/'' @ key)"
proof -
  have "ns = ''cas'' \<or> ns = ''ac''" using assms by (auto simp: ns_Valid_def NamespaceCAS_def NamespaceAC_def)
  then show ?thesis by (auto simp: isCachePath_def Let_def trim_prefix_def)
qed

lemma parsePath_Some:
  assumes "parsePath p = Some (ns, key)"
  shows "ns_Valid ns" "valid_key key"
  using assms by (auto simp: parsePath_def Let_def ParseNamespace_def ns_Valid_def
      split: if_splits sum.splits prod.splits)

end
