(* ===== verification/ClusterSys.thy ===== *)
theory ClusterSys
  imports HttpApi Replication StoreTheorems
begin

text \<open>
  The cluster: nodes that serve requests with the handler of \<^verbatim>\<open>internal/httpapi\<close> over the coordinator of
  \<^verbatim>\<open>internal/cluster\<close> and reach each other through the peer client, composed as \<^verbatim>\<open>node.New\<close> composes them.

  The record \<open>system\<close> holds what the environment decides: where host names lead, what the network does
  to each exchange, the faults on each node, and the answers of each node on the other paths (probes,
  statistics and metrics, which only read). A request that is forwarded is handled with one unit of
  fuel less; the properties show that two forwards are always enough.
\<close>

section \<open>The network\<close>

text \<open>
  What happens to an exchange: it arrives; the connection fails and the request never arrives; the
  request body is cut after \<open>n\<close> bytes and the sender gets an error; the request is served but the
  response is lost; or the response body is cut after \<open>n\<close> bytes.
\<close>

datatype net_fault =
    NetOk
  | NetDown go_error
  | NetCut nat go_error
  | NetLost go_error
  | NetTrunc nat go_error

record system =
  sy_sha :: "bytes \<Rightarrow> bytes"
  sy_env :: coord_env
  sy_serve :: serve_env
  sy_hosts :: "string \<Rightarrow> string option"
  sy_net :: "string \<Rightarrow> string \<Rightarrow> net_fault"
  sy_badURL :: "string \<Rightarrow> go_error option"
  sy_max :: "string \<Rightarrow> int"
  sy_mux :: "string \<Rightarrow> http_req \<Rightarrow> world \<Rightarrow> http_resp"

definition unexpectedEOF :: go_error where
  "unexpectedEOF = IoErr ''unexpected EOF''"

text \<open>
  The body a server reads and the error the client's transport gets, as \<^verbatim>\<open>net/http\<close> defines them: a body
  that ends early or with an error ends with an unexpected EOF at the server; of a body that is
  longer than the declared length the server reads that length. In all these cases the client's
  transport fails.
\<close>

definition sent_body :: "http_req \<Rightarrow> body" where
  "sent_body r = (case rq_body r of (b, e) \<Rightarrow>
     if rq_length r \<ge> 0 \<and> int (length b) > rq_length r then (take (nat (rq_length r)) b, None)
     else if e \<noteq> None \<or> rq_length r \<ge> 0 \<and> int (length b) < rq_length r then (b, Some unexpectedEOF)
     else (b, None))"

definition write_error :: "http_req \<Rightarrow> go_error option" where
  "write_error r = (case rq_body r of (b, e) \<Rightarrow>
     if rq_length r \<ge> 0 \<and> int (length b) > rq_length r then Some (NewError ''http: ContentLength with Body length'')
     else if e \<noteq> None then e
     else if rq_length r \<ge> 0 \<and> int (length b) < rq_length r then Some (NewError ''http: ContentLength with Body length'')
     else None)"

text \<open>What the client reads of a response: no body for HEAD, an unexpected EOF for a short one.\<close>

definition client_view :: "string \<Rightarrow> http_resp \<Rightarrow> http_resp" where
  "client_view method resp =
     (if method = ''HEAD'' then resp\<lparr>rs_body := ([], None)\<rparr>
      else case rs_body resp of (b, e) \<Rightarrow>
        if int (length b) < rs_length resp then resp\<lparr>rs_body := (b, Some unexpectedEOF)\<rparr>
        else resp\<lparr>rs_body := (take (nat (rs_length resp)) b, None)\<rparr>)"

definition cut_response :: "nat \<Rightarrow> go_error \<Rightarrow> http_resp \<Rightarrow> http_resp" where
  "cut_response n e resp =
     (if n < length (fst (rs_body resp)) then resp\<lparr>rs_body := (take n (fst (rs_body resp)), Some e)\<rparr> else resp)"

section \<open>A node\<close>

text \<open>The wiring of \<^verbatim>\<open>node.New\<close>: the peer client carries the node's name, the coordinator is the backend of
  the cache handler, and the router puts both in front of the mux.\<close>

type_synonym net = "string \<Rightarrow> world transport"

definition peer_client :: "system \<Rightarrow> string \<Rightarrow> HTTPPeerClient" where
  "peer_client sys me = \<lparr>pc_self = me, pc_badURL = sy_badURL sys\<rparr>"

definition peers_of :: "system \<Rightarrow> net \<Rightarrow> string \<Rightarrow> peer_ops" where
  "peers_of sys tr me =
     \<lparr>pp_Put = peer_Put (tr me) (peer_client sys me), pp_Get = peer_Get (tr me) (peer_client sys me),
      pp_Stat = peer_Stat (tr me) (peer_client sys me)\<rparr>"

definition backend_of :: "system \<Rightarrow> net \<Rightarrow> string \<Rightarrow> backend" where
  "backend_of sys tr me =
     \<lparr>be_Put = c_Put (sy_sha sys) (peers_of sys tr me) (sy_env sys) me,
      be_Open = c_Open (sy_sha sys) (peers_of sys tr me) (sy_env sys) me,
      be_Stat = c_Stat (sy_sha sys) (peers_of sys tr me) (sy_env sys) me\<rparr>"

definition node_serve :: "system \<Rightarrow> net \<Rightarrow> string \<Rightarrow> http_req \<Rightarrow> world \<Rightarrow> http_resp \<times> world" where
  "node_serve sys tr me =
     nodeHeader me (routeCache (ServeHTTP (sy_sha sys) (sy_serve sys) (sy_max sys me) (backend_of sys tr me) me)
       (\<lambda>r w. (sy_mux sys me r w, w)))"

section \<open>Forwarding\<close>

primrec send :: "system \<Rightarrow> nat \<Rightarrow> net" where
  "send sys 0 = (\<lambda>src req w. (Inl (NewError ''forwarded too often''), w))"
| "send sys (Suc n) = (\<lambda>src req w.
     case sy_hosts sys (rq_host req) of
       None \<Rightarrow> (Inl (IoErr ''no such host''), w)
     | Some dst \<Rightarrow>
        let req' = req\<lparr>rq_body := sent_body req\<rparr> in
        (case sy_net sys src dst of
           NetDown e \<Rightarrow> (Inl e, w)
         | NetCut k e \<Rightarrow>
             (Inl e, snd (node_serve sys (send sys n) dst
                (req\<lparr>rq_body := (take k (fst (rq_body req)), Some unexpectedEOF)\<rparr>) w))
         | NetLost e \<Rightarrow> (Inl e, snd (node_serve sys (send sys n) dst req' w))
         | NetTrunc k e \<Rightarrow>
            (case node_serve sys (send sys n) dst req' w of
               (resp, w') \<Rightarrow>
                 (case write_error req of
                    Some e' \<Rightarrow> (Inl e', w')
                  | None \<Rightarrow> (Inr (cut_response k e (client_view (rq_method req) resp)), w')))
         | NetOk \<Rightarrow>
            (case node_serve sys (send sys n) dst req' w of
               (resp, w') \<Rightarrow>
                 (case write_error req of
                    Some e \<Rightarrow> (Inl e, w')
                  | None \<Rightarrow> (Inr (client_view (rq_method req) resp), w')))))"

text \<open>A request from outside the cluster, served with fuel for two forwards.\<close>

definition client_request :: "system \<Rightarrow> string \<Rightarrow> http_req \<Rightarrow> world \<Rightarrow> http_resp \<times> world" where
  "client_request sys me req w =
     node_serve sys (send sys 2) me (req\<lparr>rq_body := sent_body req\<rparr>) w"

section \<open>Lemmas: forwarding is bounded\<close>



text \<open>Two networks that treat the same requests alike.\<close>

definition agree :: "(http_req \<Rightarrow> bool) \<Rightarrow> net \<Rightarrow> net \<Rightarrow> bool" where
  "agree P tr tr' \<longleftrightarrow> (\<forall>src req w. P req \<longrightarrow> tr src req w = tr' src req w)"

lemma inboundHop_newRequest:
  assumes "newRequest c meth peer ns key bd len hop = Inr req" "pc_self c \<noteq> ''''"
  shows "inboundHop req = hop" "inboundHop (req\<lparr>rq_headers := mput ''Content-Type'' v (rq_headers req)\<rparr>) = hop"
  using newRequest_Inr(4,5) [OF assms(1)] assms(2)
  by (auto simp: inboundHop_def HeaderForwardedBy_def HeaderHop_def)

lemma peer_Put_agree:
  assumes "agree P tr tr'" "pc_self c \<noteq> ''''" "\<And>req. inboundHop req = hop \<Longrightarrow> P req"
  shows "peer_Put (tr me) c m ns key bd sz hop w = peer_Put (tr' me) c m ns key bd sz hop w"
proof (cases "newRequest c ''PUT'' m ns key bd sz hop")
  case (Inr req)
  note i = inboundHop_newRequest [OF Inr assms(2)]
  have "tr me req w = tr' me req w"
    "tr me (req\<lparr>rq_headers := mput ''Content-Type'' ''application/octet-stream'' (rq_headers req)\<rparr>) w =
     tr' me (req\<lparr>rq_headers := mput ''Content-Type'' ''application/octet-stream'' (rq_headers req)\<rparr>) w"
    using assms(1) assms(3) i unfolding agree_def by blast+
  with Inr show ?thesis by (simp add: peer_Put_def)
qed (simp add: peer_Put_def)

lemma peer_Get_agree:
  assumes "agree P tr tr'" "pc_self c \<noteq> ''''" "\<And>req. inboundHop req = hop \<Longrightarrow> P req"
  shows "peer_Get (tr me) c m ns key hop w = peer_Get (tr' me) c m ns key hop w"
    "peer_Stat (tr me) c m ns key hop w = peer_Stat (tr' me) c m ns key hop w"
proof -
  have "tr me q w = tr' me q w" if "newRequest c meth m ns key ([], None) 0 hop = Inr q" for meth q
    using assms(1) assms(3) inboundHop_newRequest(1) [OF that assms(2)] unfolding agree_def by blast
  then show "peer_Get (tr me) c m ns key hop w = peer_Get (tr' me) c m ns key hop w"
    "peer_Stat (tr me) c m ns key hop w = peer_Stat (tr' me) c m ns key hop w"
    by (auto simp: peer_Get_def peer_Stat_def split: sum.split)
qed

text \<open>The rank of a role: how many forwards may follow it.\<close>

fun hop_rank :: "Hop \<Rightarrow> nat" where
  "hop_rank HopClient = 2"
| "hop_rank HopCoordinator = 1"
| "hop_rank h = 0"

lemma hop_rank_0: "hop_rank h = 0 \<longleftrightarrow> Terminal h"
  by (cases h) (simp_all add: Terminal_def)

lemma fanOut_agree:
  assumes "\<And>m ns key bd sz w. pp_Put pc m ns key bd sz HopReplica w = pp_Put pc' m ns key bd sz HopReplica w"
  shows "fanOut pc env me ns key sz ts w = fanOut pc' env me ns key sz ts w"
proof -
  have "replicateOne pc env me ns key sz t v = replicateOne pc' env me ns key sz t v" for t v
    by (simp add: replicateOne_def assms split: sum.split prod.split)
  then show ?thesis by (induction ts arbitrary: w) simp_all
qed

text \<open>A handler calls the peer client only with roles of a lower rank.\<close>

lemma c_Put_agree:
  assumes "\<And>h m ns key bd sz w. hop_rank h < hop_rank hop \<Longrightarrow> pp_Put pc m ns key bd sz h w = pp_Put pc' m ns key bd sz h w"
  shows "c_Put sha pc env me ns key bd sz hop w = c_Put sha pc' env me ns key bd sz hop w"
proof -
  have f: "fanOut pc env me ns key n ts v = fanOut pc' env me ns key n ts v" if "0 < hop_rank hop" for n ts v
    by (rule fanOut_agree) (use assms [of HopReplica] that in simp)
  have co: "coordinate sha pc env me ns key bd sz w = coordinate sha pc' env me ns key bd sz w" if "0 < hop_rank hop"
    unfolding coordinate_def f [OF that] by (rule refl)
  have px: "proxyPut pc me ns key bd sz hs w = proxyPut pc' me ns key bd sz hs w" if "hop = HopClient" for hs
    using assms [of HopCoordinator] that by (simp add: proxyPut_def Let_def split: list.split)
  show ?thesis using co px by (cases hop) (simp_all add: c_Put_def Let_def)
qed

lemma c_Open_agree:
  assumes "\<And>m ns key w. 0 < hop_rank hop \<Longrightarrow> pp_Get pc m ns key HopRead w = pp_Get pc' m ns key HopRead w"
  shows "c_Open sha pc env me ns key hop w = c_Open sha pc' env me ns key hop w"
proof (cases "Terminal hop")
  case True
  then show ?thesis by (auto simp: c_Open_def Let_def split: prod.split sum.split)
next
  case False
  then have "0 < hop_rank hop" using hop_rank_0 by auto
  with assms have "(\<lambda>m. pp_Get pc m ns key HopRead) = (\<lambda>m. pp_Get pc' m ns key HopRead)" by blast
  then show ?thesis unfolding c_Open_def by (rule subst) (rule refl)
qed

lemma c_Stat_agree:
  assumes "\<And>m ns key w. 0 < hop_rank hop \<Longrightarrow> pp_Stat pc m ns key HopRead w = pp_Stat pc' m ns key HopRead w"
  shows "c_Stat sha pc env me ns key hop w = c_Stat sha pc' env me ns key hop w"
proof (cases "Terminal hop")
  case True
  then show ?thesis by (auto simp: c_Stat_def Let_def split: prod.split sum.split)
next
  case False
  then have "0 < hop_rank hop" using hop_rank_0 by auto
  with assms have "(\<lambda>m. pp_Stat pc m ns key HopRead) = (\<lambda>m. pp_Stat pc' m ns key HopRead)" by blast
  then show ?thesis unfolding c_Stat_def by (rule subst) (rule refl)
qed

lemma backend_of_sel [simp]:
  "be_Put (backend_of sys tr me) = c_Put (sy_sha sys) (peers_of sys tr me) (sy_env sys) me"
  "be_Open (backend_of sys tr me) = c_Open (sy_sha sys) (peers_of sys tr me) (sy_env sys) me"
  "be_Stat (backend_of sys tr me) = c_Stat (sy_sha sys) (peers_of sys tr me) (sy_env sys) me"
  by (simp_all add: backend_of_def)

lemma node_serve_agree:
  assumes "agree (\<lambda>r. hop_rank (inboundHop r) < hop_rank (inboundHop req)) tr tr'" "me \<noteq> ''''"
  shows "node_serve sys tr me req w = node_serve sys tr' me req w"
proof -
  let ?c = "peer_client sys me" and ?hop = "inboundHop req"
  have c: "pc_self ?c \<noteq> ''''" using assms(2) by (simp add: peer_client_def)
  have put: "c_Put sha (peers_of sys tr me) env me ns key bd sz ?hop w = c_Put sha (peers_of sys tr' me) env me ns key bd sz ?hop w"
    for sha env ns key bd sz w
  proof (rule c_Put_agree)
    fix h m ns key bd sz w assume "hop_rank h < hop_rank ?hop"
    then show "pp_Put (peers_of sys tr me) m ns key bd sz h w = pp_Put (peers_of sys tr' me) m ns key bd sz h w"
      using peer_Put_agree [OF assms(1) c, of h] by (simp add: peers_of_def)
  qed
  have opn: "c_Open sha (peers_of sys tr me) env me ns key ?hop w = c_Open sha (peers_of sys tr' me) env me ns key ?hop w"
    for sha env ns key w
    by (rule c_Open_agree) (use peer_Get_agree(1) [OF assms(1) c, of HopRead] in \<open>simp add: peers_of_def\<close>)
  have stt: "c_Stat sha (peers_of sys tr me) env me ns key ?hop w = c_Stat sha (peers_of sys tr' me) env me ns key ?hop w"
    for sha env ns key w
    by (rule c_Stat_agree) (use peer_Get_agree(2) [OF assms(1) c, of HopRead] in \<open>simp add: peers_of_def\<close>)
  have "ServeHTTP (sy_sha sys) (sy_serve sys) mx (backend_of sys tr me) me req w =
      ServeHTTP (sy_sha sys) (sy_serve sys) mx (backend_of sys tr' me) me req w" for mx
    unfolding ServeHTTP_def serveGet_def servePut_def backend_of_sel Let_def put opn stt by (rule refl)
  then show ?thesis by (simp add: node_serve_def nodeHeader_def routeCache_def)
qed

lemma agree_weaken: "agree P tr tr' \<Longrightarrow> (\<And>r. Q r \<Longrightarrow> P r) \<Longrightarrow> agree Q tr tr'"
  by (auto simp: agree_def)

lemma inboundHop_body [simp]: "inboundHop (req\<lparr>rq_body := b\<rparr>) = inboundHop req"
  by (simp add: inboundHop_def)

lemma send_agree:
  assumes "\<And>h n. sy_hosts sys h = Some n \<Longrightarrow> n \<noteq> ''''"
  shows "agree (\<lambda>r. hop_rank (inboundHop r) < n) (send sys (n + k)) (send sys n)"
proof (induction n)
  case 0
  then show ?case by (simp add: agree_def)
next
  case (Suc n)
  have "send sys (Suc n + k) src req w = send sys (Suc n) src req w" if r: "hop_rank (inboundHop req) < Suc n" for src req w
  proof (cases "sy_hosts sys (rq_host req)")
    case (Some dst)
    have ag: "agree (\<lambda>r. hop_rank (inboundHop r) < hop_rank (inboundHop req)) (send sys (n + k)) (send sys n)"
      by (rule agree_weaken [OF Suc.IH]) (use r in simp)
    have "node_serve sys (send sys (n + k)) dst (req\<lparr>rq_body := b\<rparr>) w = node_serve sys (send sys n) dst (req\<lparr>rq_body := b\<rparr>) w" for b
      by (rule node_serve_agree) (use ag assms [OF Some] in simp_all)
    with Some show ?thesis by (simp add: Let_def split: net_fault.split)
  qed simp
  then show ?case by (simp add: agree_def del: send.simps)
qed

end
