(* ===== verification/ClusterTheorems.thy ===== *)
theory ClusterTheorems
  imports ClusterSys
begin

text \<open>
  Properties of the whole cluster: requests that pass through the HTTP handlers, coordinators, peer
  clients and stores of several nodes, under every fault the environment can inject.
\<close>

section \<open>Lemmas: serving a request keeps the invariants\<close>

lemma or_Verify_sel:
  "s_fs (snd (or_Verify sha rd s)) = s_fs s" "s_root (snd (or_Verify sha rd s)) = s_root s"
  "s_closed (snd (or_Verify sha rd s)) = s_closed s"
  by (cases rd; simp add: Verify_def bump_def Let_def)+

lemma or_Close_sel [simp]:
  "s_fs (or_Close rd s) = s_fs s" "s_root (or_Close rd s) = s_root s" "s_closed (or_Close rd s) = s_closed s"
  by (cases rd; simp)+

definition reads :: "http_req \<Rightarrow> bool" where
  "reads r \<longleftrightarrow> rq_method r \<noteq> ''PUT'' \<and> rq_method r \<noteq> ''POST''"

text \<open>A step that keeps the invariants, and changes no object unless the request may write.\<close>

definition req_steps :: "(bytes \<Rightarrow> bytes) \<Rightarrow> http_req \<Rightarrow> world \<Rightarrow> world \<Rightarrow> bool" where
  "req_steps sha req w w' \<longleftrightarrow> steps sha w w' \<and> (reads req \<longrightarrow> held w' = held w)"

lemma req_steps_refl [simp]: "req_steps sha req w w"
  by (simp add: req_steps_def)

lemma serveGet_keeps:
  assumes "safe_peers (sy_sha sys) (peers_of sys tr me)"
    "serveGet (sy_sha sys) sv (backend_of sys tr me) me ns key hop b w = (resp, w')"
  shows "steps (sy_sha sys) w w' \<and> held w' = held w"
proof (cases b)
  case False
  with assms(2) safe_peers.c_Stat_keeps [OF assms(1), of "sy_env sys" me ns key hop w] show ?thesis
    by (auto simp: serveGet_def split: prod.splits sum.splits)
next
  case True
  obtain a w1 where o: "c_Open (sy_sha sys) (peers_of sys tr me) (sy_env sys) me ns key hop w = (a, w1)" by fastforce
  note k = safe_peers.c_Open_keeps [OF assms(1) o]
  show ?thesis
  proof (cases a)
    case (Inl e)
    with True assms(2) o k show ?thesis by (simp add: serveGet_def)
  next
    case (Inr rd)
    obtain snt ce rd' where wr: "or_WriteTo (sv_read sv me) (sv_write sv me) rd = (snt, ce, rd')" by (metis prod_cases3)
    let ?s = "or_Close rd' (if ce = None then snd (or_Verify (sy_sha sys) rd' (co_local (w1 me))) else co_local (w1 me))"
    have w': "w' = set_store me ?s w1"
      using True assms(2) o Inr wr by (simp add: serveGet_def Let_def)
    have f: "s_fs ?s = s_fs (co_local (w1 me))" "s_root ?s = s_root (co_local (w1 me))"
      "s_closed ?s = s_closed (co_local (w1 me))"
      by (simp_all add: or_Verify_sel)
    have "held w' = held w1" "steps (sy_sha sys) w1 w'"
      unfolding w' using f by (simp_all only: held_set_store steps_held set_store_setup)
    with k show ?thesis using steps_trans by auto
  qed
qed

lemma node_serve_steps:
  assumes "safe_peers (sy_sha sys) (peers_of sys tr me)" "node_serve sys tr me req w = (resp, w')"
  shows "req_steps (sy_sha sys) req w w'"
proof -
  have put: "steps (sy_sha sys) w v" if "servePut mx (backend_of sys tr me) ns key hop req w = (r, v)" for mx ns key hop r v
    using that safe_peers.c_Put_steps [OF assms(1), of "sy_env sys" me ns key "rq_body req" "rq_length req" hop w]
    by (auto simp: servePut_def Let_def split: prod.splits option.splits if_splits)
  show ?thesis
    using assms(2) put serveGet_keeps [OF assms(1)]
    by (auto simp: node_serve_def nodeHeader_def routeCache_def ServeHTTP_def req_steps_def reads_def Let_def
        split: prod.splits option.splits if_splits)
qed

definition safe_net :: "system \<Rightarrow> net \<Rightarrow> bool" where
  "safe_net sys tr \<longleftrightarrow> (\<forall>src req w r w'. tr src req w = (r, w') \<longrightarrow> req_steps (sy_sha sys) req w w')"

lemma reads_GET: "newRequest c meth m ns key bd n h = Inr req \<Longrightarrow> meth \<noteq> ''PUT'' \<Longrightarrow> meth \<noteq> ''POST'' \<Longrightarrow> reads req"
  using newRequest_Inr(1) by (auto simp: reads_def)

lemma safe_peers_of:
  assumes "safe_net sys tr"
  shows "safe_peers (sy_sha sys) (peers_of sys tr me)"
proof
  have t: "req_steps (sy_sha sys) req w w'" if "tr me req w = (r, w')" for req w r w'
    using assms that by (simp add: safe_net_def)
  fix m ns key bd sz h w r w'
  show "steps (sy_sha sys) w w'" if "pp_Put (peers_of sys tr me) m ns key bd sz h w = (r, w')"
    using that t by (auto simp: peers_of_def peer_Put_def Let_def req_steps_def split: sum.splits prod.splits if_splits)
next
  have t: "steps (sy_sha sys) w w' \<and> held w' = held w" if "tr me req w = (r, w')" "reads req" for req w r w'
    using assms that by (auto simp: safe_net_def req_steps_def)
  fix m ns key h w g w'
  show "steps (sy_sha sys) w w' \<and> held w' = held w" if "pp_Get (peers_of sys tr me) m ns key h w = (g, w')"
    using that t reads_GET [of "peer_client sys me" "''GET''" m ns key "([], None)" 0 h]
    by (auto simp: peers_of_def peer_Get_def Let_def split: sum.splits prod.splits if_splits)
next
  have t: "steps (sy_sha sys) w w' \<and> held w' = held w" if "tr me req w = (r, w')" "reads req" for req w r w'
    using assms that by (auto simp: safe_net_def req_steps_def)
  fix m ns key h w st w'
  show "steps (sy_sha sys) w w' \<and> held w' = held w" if "pp_Stat (peers_of sys tr me) m ns key h w = (st, w')"
    using that t reads_GET [of "peer_client sys me" "''HEAD''" m ns key "([], None)" 0 h]
    by (auto simp: peers_of_def peer_Stat_def Let_def split: sum.splits prod.splits if_splits)
qed

lemma reads_body [simp]: "reads (req\<lparr>rq_body := b\<rparr>) = reads req"
  by (simp add: reads_def)

lemma send_served:
  assumes "send sys (Suc n) src req w = (r, w')"
  obtains "w' = w" "\<exists>e. r = Inl e"
  | dst b resp where "sy_hosts sys (rq_host req) = Some dst" "node_serve sys (send sys n) dst (req\<lparr>rq_body := b\<rparr>) w = (resp, w')"
      "b = sent_body req \<or> snd b \<noteq> None"
      "\<And>x. r = Inr x \<Longrightarrow> write_error req = None \<and> b = sent_body req \<and>
         (x = client_view (rq_method req) resp \<or> (\<exists>k e. sy_net sys src dst = NetTrunc k e \<and> x = cut_response k e (client_view (rq_method req) resp)))"
proof (cases "sy_hosts sys (rq_host req)")
  case None
  with assms that(1) show ?thesis by auto
next
  case (Some dst)
  show ?thesis
  proof (cases "sy_net sys src dst")
    case NetOk
    with Some assms that(2) [of dst "sent_body req"] show ?thesis by (auto simp: Let_def split: prod.splits option.splits)
  next
    case (NetDown e)
    with Some assms that(1) show ?thesis by (auto simp: Let_def)
  next
    case (NetCut k e)
    let ?b = "(take k (fst (rq_body req)), Some unexpectedEOF)"
    obtain resp v where "node_serve sys (send sys n) dst (req\<lparr>rq_body := ?b\<rparr>) w = (resp, v)" by fastforce
    with NetCut Some assms that(2) [of dst ?b resp] show ?thesis by (auto simp: Let_def)
  next
    case (NetLost e)
    obtain resp v where "node_serve sys (send sys n) dst (req\<lparr>rq_body := sent_body req\<rparr>) w = (resp, v)" by fastforce
    with NetLost Some assms that(2) [of dst "sent_body req" resp] show ?thesis by (auto simp: Let_def)
  next
    case (NetTrunc k e)
    with Some assms that(2) [of dst "sent_body req"] show ?thesis by (auto simp: Let_def split: prod.splits option.splits)
  qed
qed

lemma safe_send: "safe_net sys (send sys n)"
proof (induction n)
  case 0
  then show ?case by (simp add: safe_net_def)
next
  case (Suc n)
  have "req_steps (sy_sha sys) req w w'" if s: "send sys (Suc n) src req w = (r, w')" for src req w r w'
    using s
  proof (cases rule: send_served)
    case 1
    then show ?thesis by simp
  next
    case (2 dst b resp)
    from node_serve_steps [OF safe_peers_of [OF Suc] 2(2)] show ?thesis by (simp add: req_steps_def)
  qed
  then show ?case by (simp add: safe_net_def del: send.simps)
qed

interpretation sp: safe_peers "sy_sha sys" "peers_of sys (send sys n) me" for sys n me
  by (rule safe_peers_of) (rule safe_send)

section \<open>Lemmas: acknowledged writes\<close>

lemma sent_body_ok: "write_error req = None \<Longrightarrow> sent_body req = rq_body req"
  by (auto simp: write_error_def sent_body_def split: prod.splits if_splits)

lemma sent_body_idem: "fst (sent_body (req\<lparr>rq_body := sent_body req\<rparr>)) = fst (sent_body req)"
  by (auto simp: sent_body_def split: prod.splits if_splits)

lemma writePutError_status: "400 \<le> rs_status (writePutError oc e)"
  by (simp add: writePutError_def StatusClientClosedRequest_def)

lemma servePut_ok:
  assumes "servePut mx be ns key hop r w = (resp, w')" "200 \<le> rs_status resp" "rs_status resp < 300"
  shows "\<exists>oc. be_Put be ns key (rq_body r) (rq_length r) hop w = ((oc, None), w')"
proof -
  obtain oc eo v where p: "be_Put be ns key (rq_body r) (rq_length r) hop w = ((oc, eo), v)" by (metis prod.exhaust)
  have "\<not> (mx > 0 \<and> rq_length r > mx)" using assms by (auto simp: servePut_def)
  moreover have "eo = None"
  proof (rule ccontr)
    assume "eo \<noteq> None"
    then obtain e where "eo = Some e" by blast
    with p assms calculation writePutError_status [of oc e] show False by (auto simp: servePut_def)
  qed
  ultimately show ?thesis using p assms(1) by (auto simp: servePut_def Let_def split: if_splits)
qed

lemma node_serve_put_ok:
  assumes "node_serve sys tr me req w = (resp, w')" "200 \<le> rs_status resp" "rs_status resp < 300"
    "rq_method req = ''PUT''" "parsePath (rq_path req) = Some (ns, key)" "isCachePath (rq_path req)"
  shows "\<exists>oc. c_Put (sy_sha sys) (peers_of sys tr me) (sy_env sys) me ns key (rq_body req) (rq_length req) (inboundHop req) w =
     ((oc, None), w')"
proof -
  obtain resp0 where s: "servePut (sy_max sys me) (backend_of sys tr me) ns key (inboundHop req) req w = (resp0, w')"
    and st: "rs_status resp = rs_status resp0"
    using assms by (auto simp: node_serve_def nodeHeader_def routeCache_def ServeHTTP_def Let_def split: prod.splits)
  show ?thesis using servePut_ok [OF s] assms(2,3) st by simp
qed

lemma node_serve_terminal:
  assumes "node_serve sys tr me req w = (resp, w')" "Terminal (inboundHop req)" "n \<noteq> me"
  shows "w' n = w n"
proof -
  let ?hop = "inboundHop req"
  have put: "v n = w n" if "c_Put (sy_sha sys) pc (sy_env sys) me ns key bd sz ?hop w = (a, v)" for pc ns key bd sz a v
  proof -
    have "v n = w n" if "putLocalOnly (sy_sha sys) (sy_env sys) me ns key bd sz w = (a, v)" for v
      using that assms(3) local_Put_frame(1) [of "sy_sha sys" "sy_env sys" me ns key bd sz w]
      by (auto simp: putLocalOnly_def split: prod.splits sum.splits)
    with that assms(2,3) show ?thesis by (cases ?hop) (auto simp: c_Put_def Terminal_def split: if_splits)
  qed
  have opn: "v n = w n" if "c_Open (sy_sha sys) pc (sy_env sys) me ns key ?hop w = (a, v)" for pc ns key a v
    using that assms(2,3) local_Get_frame(3) [of "sy_env sys" me "''''" ns key w]
    by (auto simp: c_Open_def Let_def split: prod.splits sum.splits if_splits)
  have stt: "v n = w n" if "c_Stat (sy_sha sys) pc (sy_env sys) me ns key ?hop w = (a, v)" for pc ns key a v
    using that assms(2,3) local_Stat_frame(3) [of "sy_env sys" me ns key w]
    by (auto simp: c_Stat_def Let_def split: prod.splits sum.splits if_splits)
  show ?thesis
    using assms(1,3) put opn stt
    by (auto simp: node_serve_def nodeHeader_def routeCache_def ServeHTTP_def serveGet_def servePut_def Let_def
        split: prod.splits option.splits sum.splits if_splits)
qed

lemma client_view_status [simp]: "rs_status (client_view m r) = rs_status r" "rs_status (cut_response k e r) = rs_status r"
  by (auto simp: client_view_def cut_response_def split: prod.splits)

lemma peer_Put_served:
  assumes "pp_Put (peers_of sys (send sys (Suc n)) me) m ns key bd sz hop w = (r, w')" "me \<noteq> ''''"
  obtains "w' = w" "r \<noteq> None"
  | dst req b resp where "sy_hosts sys (m_URL m) = Some dst" "inboundHop req = hop" "rq_method req = ''PUT''"
      "rq_path req = ''/'' @ ns @ ''/'' @ key" "rq_length req = sz"
      "node_serve sys (send sys n) dst (req\<lparr>rq_body := b\<rparr>) w = (resp, w')"
      "r = None \<Longrightarrow> b = bd \<and> 200 \<le> rs_status resp \<and> rs_status resp < 300"
      "sz = int (length (fst bd)) \<Longrightarrow> snd bd = None \<Longrightarrow> b = bd \<or> snd b \<noteq> None"
proof -
  let ?c = "peer_client sys me"
  have c: "pc_self ?c \<noteq> ''''" using assms(2) by (simp add: peer_client_def)
  show ?thesis
  proof (cases "newRequest ?c ''PUT'' m ns key bd sz hop")
    case (Inl e)
    with assms(1) that(1) show ?thesis by (auto simp: peers_of_def peer_Put_def)
  next
    case (Inr req0)
    note nr = newRequest_Inr [OF Inr] and ih = inboundHop_newRequest [OF Inr c]
    define req where "req = (if sz \<ge> 0 then req0\<lparr>rq_headers := mput ''Content-Type'' ''application/octet-stream'' (rq_headers req0)\<rparr>
      else req0)"
    have q: "inboundHop req = hop" "rq_method req = ''PUT''" "rq_path req = ''/'' @ ns @ ''/'' @ key" "rq_length req = sz"
      "rq_host req = m_URL m" "rq_body req = bd"
      using nr ih by (simp_all add: req_def)
    obtain a v where s: "send sys (Suc n) me req w = (a, v)" by fastforce
    have rv: "v = w'" "r = None \<Longrightarrow> \<exists>x. a = Inr x \<and> 200 \<le> rs_status x \<and> rs_status x < 300"
      using assms(1) Inr s by (auto simp: peers_of_def peer_Put_def req_def [symmetric] Let_def simp del: send.simps
          split: sum.splits if_splits)
    show ?thesis using s
    proof (cases rule: send_served)
      case 1
      with rv that(1) show ?thesis by auto
    next
      case (2 dst b resp)
      show ?thesis
      proof (rule that(2) [of dst req b resp])
        show "sy_hosts sys (m_URL m) = Some dst" using 2(1) q(5) by simp
        show "node_serve sys (send sys n) dst (req\<lparr>rq_body := b\<rparr>) w = (resp, w')" using 2(2) rv(1) by simp
        show "b = bd \<and> 200 \<le> rs_status resp \<and> rs_status resp < 300" if ok: "r = None"
        proof -
          obtain x where x: "a = Inr x" "200 \<le> rs_status x" "rs_status x < 300" using rv(2) [OF ok] by blast
          with 2(4) [OF x(1)] sent_body_ok [of req] q(6) show ?thesis by auto
        qed
        show "b = bd \<or> snd b \<noteq> None" if "sz = int (length (fst bd))" "snd bd = None"
          using 2(3) q(4,6) that by (auto simp: sent_body_def split: prod.splits)
      qed (use q in auto)
    qed
  qed
qed

text \<open>A terminal write changes at most the object it names, and only to the bytes of a complete body.\<close>

lemma local_Put_effect:
  assumes "local_Put sha env me ns key bd sz w = (r, w')"
  shows "held w' me = held w me \<or> snd bd = None \<and> held w' me = (held w me)((ns, key) \<mapsto> fst bd)"
proof -
  let ?env = "(ce_put env me)\<lparr>pe_body := fst bd, pe_body_err := snd bd\<rparr>"
  obtain s' where p: "Put sha ns key sz ?env (co_local (w me)) = (r, s')" and w': "w' = set_store me s' w"
    using assms by (auto simp: local_Put_def split: prod.splits)
  show ?thesis
  proof (cases "\<exists>res. r = Inr res \<and> \<not> pr_AlreadyStored res")
    case True
    then obtain res where res: "r = Inr res" "\<not> pr_AlreadyStored res" by blast
    with Put_objects [OF p] Put_published(3,7) [OF p [unfolded res(1)] res(2)] show ?thesis by (simp add: held_def w')
  next
    case False
    with Put_objects [OF p] show ?thesis by (auto simp: held_def w' split: sum.splits)
  qed
qed

lemma terminal_put_effect:
  assumes "node_serve sys tr me req w = (resp, w')" "rq_method req = ''PUT''" "parsePath (rq_path req) = Some (ns, key)"
    "isCachePath (rq_path req)" "Terminal (inboundHop req)"
  shows "held w' me = held w me \<or> snd (rq_body req) = None \<and> held w' me = (held w me)((ns, key) \<mapsto> fst (rq_body req))"
proof -
  let ?hop = "inboundHop req" and ?bd = "rq_body req"
  obtain resp0 where s: "servePut (sy_max sys me) (backend_of sys tr me) ns key ?hop req w = (resp0, w')"
    using assms by (auto simp: node_serve_def nodeHeader_def routeCache_def ServeHTTP_def Let_def split: prod.splits)
  obtain a w1 where p: "c_Put (sy_sha sys) (peers_of sys tr me) (sy_env sys) me ns key ?bd (rq_length req) ?hop w = (a, w1)" by fastforce
  have "w' = w \<or> w' = w1" using s p by (auto simp: servePut_def Let_def split: if_splits prod.splits option.splits)
  moreover obtain g w2 where g: "local_Put (sy_sha sys) (sy_env sys) me ns key ?bd (rq_length req) w = (g, w2)" by fastforce
  have "held w1 = held w \<or> held w1 = held w2"
    using p g assms(5) by (cases ?hop) (auto simp: c_Put_def putLocalOnly_def Terminal_def split: if_splits prod.splits sum.splits)
  ultimately show ?thesis using local_Put_effect [OF g] by auto
qed

text \<open>Every node but an anonymous one reaches its peers through a network that honours the contract.\<close>

interpretation rp: replica_peers "sy_sha sys" "peers_of sys (send sys (Suc n)) (c # me)" "\<lambda>m. sy_hosts sys (m_URL m)"
  for sys n c me
proof
  fix m ns key bd sz h w r w' x
  assume p: "pp_Put (peers_of sys (send sys (Suc n)) (c # me)) m ns key bd sz h w = (r, w')" and h: "Terminal h"
    and x: "sy_hosts sys (m_URL m) \<noteq> Some x"
  show "w' x = w x"
  proof (rule peer_Put_served [OF p])
    fix dst req b resp
    assume "sy_hosts sys (m_URL m) = Some dst" "inboundHop req = h"
      "node_serve sys (send sys n) dst (req\<lparr>rq_body := b\<rparr>) w = (resp, w')"
    with node_serve_terminal [of sys "send sys n" dst "req\<lparr>rq_body := b\<rparr>" w resp w' x] x h show "w' x = w x" by auto
  qed simp_all
next
  fix m ns key bd sz h w w'
  assume p: "pp_Put (peers_of sys (send sys (Suc n)) (c # me)) m ns key bd sz h w = (None, w')" and h: "Terminal h"
    and k: "ns_Valid ns" "valid_key key" "all_cas_ok (sy_sha sys) w"
  show "\<exists>d. sy_hosts sys (m_URL m) = Some d \<and> has_copy (sy_sha sys) ns key (fst bd) w' d"
  proof (rule peer_Put_served [OF p])
    fix dst req b resp
    assume r: "sy_hosts sys (m_URL m) = Some dst" "inboundHop req = h" "rq_method req = ''PUT''"
      "rq_path req = ''/'' @ ns @ ''/'' @ key" "node_serve sys (send sys n) dst (req\<lparr>rq_body := b\<rparr>) w = (resp, w')"
      "None = None \<Longrightarrow> b = bd \<and> 200 \<le> rs_status resp \<and> rs_status resp < 300"
    have "\<exists>oc. c_Put (sy_sha sys) (peers_of sys (send sys n) dst) (sy_env sys) dst ns key bd (rq_length req) h w = ((oc, None), w')"
      using node_serve_put_ok [OF r(5), of ns key] r(2-4,6) parsePath_object [OF k(1,2)] isCachePath_object [OF k(1)] by simp
    then obtain res w1 where "local_Put (sy_sha sys) (sy_env sys) dst ns key bd (rq_length req) w = (Inr res, w1)" "held w' = held w1"
      using h by (cases h) (auto simp: c_Put_def putLocalOnly_def Terminal_def split: prod.splits sum.splits if_splits)
    with local_Put_copy [of "sy_sha sys" "sy_env sys" dst ns key bd "rq_length req" w res w1] k(3) r(1) has_copy_held [of w' dst w1]
    show ?thesis by auto
  qed simp_all
next
  fix m ns key bd sz h w r w' d
  assume p: "pp_Put (peers_of sys (send sys (Suc n)) (c # me)) m ns key bd sz h w = (r, w')" and h: "Terminal h"
    and k: "ns_Valid ns" "valid_key key" and b: "sz = int (length (fst bd))" "snd bd = None" and d: "sy_hosts sys (m_URL m) = Some d"
  show "held w' d = held w d \<or> held w' d = (held w d)((ns, key) \<mapsto> fst bd)"
  proof (rule peer_Put_served [OF p])
    fix dst req b' resp
    assume r: "sy_hosts sys (m_URL m) = Some dst" "inboundHop req = h" "rq_method req = ''PUT''"
      "rq_path req = ''/'' @ ns @ ''/'' @ key" "node_serve sys (send sys n) dst (req\<lparr>rq_body := b'\<rparr>) w = (resp, w')"
      "sz = int (length (fst bd)) \<Longrightarrow> snd bd = None \<Longrightarrow> b' = bd \<or> snd b' \<noteq> None"
    from terminal_put_effect [OF r(5), of ns key] r(1-4,6) b d h parsePath_object [OF k] isCachePath_object [OF k(1)]
    show ?thesis by auto
  qed simp_all
qed

section \<open>Lemmas: reads\<close>

definition plain_err :: "go_error \<Rightarrow> bool" where
  "plain_err e \<longleftrightarrow> \<not> miss_like e \<and> \<not> errors_is e SPeerNotFound"

text \<open>The operating system and the network report their own errors, never the program's sentinels for a
  missing object or a bad name.\<close>

definition plain_faults :: "system \<Rightarrow> bool" where
  "plain_faults sys \<longleftrightarrow>
     (\<forall>n t e. fst (ce_open (sy_env sys) n t) = Some e \<or> snd (ce_open (sy_env sys) n t) = Some e \<longrightarrow> plain_err e) \<and>
     (\<forall>n e. ce_stat (sy_env sys) n = Some e \<longrightarrow> plain_err e) \<and> (\<forall>u e. sy_badURL sys u = Some e \<longrightarrow> plain_err e) \<and>
     (\<forall>src dst k e. sy_net sys src dst = NetDown e \<or> sy_net sys src dst = NetCut k e \<or> sy_net sys src dst = NetLost e \<longrightarrow>
        plain_err e)"

lemma writeGetError_404: "rs_status (writeGetError e) = 404 \<longleftrightarrow> miss_like e"
  by (auto simp: writeGetError_def miss_like_def StatusClientClosedRequest_def)

lemma writeGetError_not_ok: "400 \<le> rs_status (writeGetError e)"
  by (simp add: writeGetError_def StatusClientClosedRequest_def)

lemma node_serve_get:
  assumes "node_serve sys tr me req w = (resp, w')" "rq_method req = ''GET''" "parsePath (rq_path req) = Some (ns, key)"
    "isCachePath (rq_path req)"
  obtains e where "c_Open (sy_sha sys) (peers_of sys tr me) (sy_env sys) me ns key (inboundHop req) w = (Inl e, w')"
      "rs_status resp = rs_status (writeGetError e)"
  | rd w1 rd' where "c_Open (sy_sha sys) (peers_of sys tr me) (sy_env sys) me ns key (inboundHop req) w = (Inr rd, w1)"
      "rs_status resp = 200" "rs_length resp = or_Size rd"
      "or_WriteTo (sv_read (sy_serve sys) me) (sv_write (sy_serve sys) me) rd = (fst (rs_body resp), snd (rs_body resp), rd')"
      "header_get (rs_headers resp) HeaderNode = me"
proof -
  obtain resp0 where r0: "serveGet (sy_sha sys) (sy_serve sys) (backend_of sys tr me) me ns key (inboundHop req) True w = (resp0, w')"
    and resp: "resp = resp0\<lparr>rs_headers := mput HeaderNode me (rs_headers resp0)\<rparr>"
    using assms by (auto simp: node_serve_def nodeHeader_def routeCache_def ServeHTTP_def Let_def split: prod.splits)
  obtain a w1 where o: "c_Open (sy_sha sys) (peers_of sys tr me) (sy_env sys) me ns key (inboundHop req) w = (a, w1)" by fastforce
  show ?thesis
  proof (cases a)
    case (Inl e)
    with r0 o resp that(1) [of e] show ?thesis by (simp add: serveGet_def)
  next
    case (Inr rd)
    obtain s ce rd' where wr: "or_WriteTo (sv_read (sy_serve sys) me) (sv_write (sy_serve sys) me) rd = (s, ce, rd')"
      by (metis prod_cases3)
    with Inr r0 o resp that(2) [of rd w1 rd'] show ?thesis by (auto simp: serveGet_def Let_def)
  qed
qed

lemma or_WriteTo_local_prefix:
  "or_WriteTo rfl wfl (LocalObject ob) = (s, e, rd') \<Longrightarrow> \<exists>rest. o_data ob = s @ rest"
  using WriteTo_prefix by (fastforce split: prod.splits)

text \<open>A terminal read: success is the local object, a miss means there is none.\<close>

lemma terminal_get:
  assumes "node_serve sys tr me req w = (resp, w')" "rq_method req = ''GET''" "parsePath (rq_path req) = Some (ns, key)"
    "isCachePath (rq_path req)" "Terminal (inboundHop req)"
  shows "rs_status resp = 200 \<Longrightarrow> \<exists>d rest. held w me (ns, key) = Some d \<and> rs_length resp = int (length d) \<and> d = fst (rs_body resp) @ rest"
    "rs_status resp = 404 \<Longrightarrow> plain_faults sys \<Longrightarrow> held w me (ns, key) = None"
proof -
  have ok: "ns_Valid ns" "valid_key key" using parsePath_Some [OF assms(3)] by auto
  obtain g w1 where g: "local_Get (sy_env sys) me '''' ns key w = (g, w1)" by fastforce
  show "\<exists>d rest. held w me (ns, key) = Some d \<and> rs_length resp = int (length d) \<and> d = fst (rs_body resp) @ rest"
    if "rs_status resp = 200"
  proof (rule node_serve_get [OF assms(1-4)])
    fix e assume "rs_status resp = rs_status (writeGetError e)"
    with that writeGetError_not_ok [of e] show ?thesis by simp
  next
    fix rd w2 rd'
    assume o: "c_Open (sy_sha sys) (peers_of sys tr me) (sy_env sys) me ns key (inboundHop req) w = (Inr rd, w2)"
      and r: "rs_length resp = or_Size rd"
        "or_WriteTo (sv_read (sy_serve sys) me) (sv_write (sy_serve sys) me) rd = (fst (rs_body resp), snd (rs_body resp), rd')"
    obtain ob where ob: "g = Inr ob" "rd = LocalObject ob"
      using o g assms(5) by (cases g) (auto simp: c_Open_def Let_def split: if_splits)
    have "t_Size (o_stat ob) = int (length (o_data ob))"
      using g ob store_Get_Inr(3) by (auto simp: local_Get_def split: prod.splits)
    with r ob local_Get_data [OF g [unfolded ob(1)]] or_WriteTo_local_prefix show ?thesis by fastforce
  qed
  show "held w me (ns, key) = None" if "rs_status resp = 404" "plain_faults sys"
  proof (rule node_serve_get [OF assms(1-4)])
    fix e assume o: "c_Open (sy_sha sys) (peers_of sys tr me) (sy_env sys) me ns key (inboundHop req) w = (Inl e, w')"
      "rs_status resp = rs_status (writeGetError e)"
    then have "miss_like e" using that(1) writeGetError_404 by simp
    moreover have "\<not> miss_like x" if "fst (ce_open (sy_env sys) me '''') = Some x \<or> snd (ce_open (sy_env sys) me '''') = Some x" for x
      using that \<open>plain_faults sys\<close> by (auto simp: plain_faults_def plain_err_def)
    ultimately show ?thesis
      using o(1) assms(5) ok
      by (auto simp: c_Open_def local_Get_def store_Get_def held_def visible_def regular_at_def miss_like_def Let_def
          split: prod.splits sum.splits if_splits option.splits)
  qed (use that in simp)
qed

lemma client_view_get:
  assumes "rs_length resp = int (length d)" "d = fst (rs_body resp) @ rest"
    "x = client_view ''GET'' resp \<or> x = cut_response k e (client_view ''GET'' resp)"
  shows "rs_length x = int (length d)" "snd (rs_body x) = None \<Longrightarrow> fst (rs_body x) = d" "\<exists>rest. d = fst (rs_body x) @ rest"
proof -
  have v: "rs_length (client_view ''GET'' resp) = int (length d) \<and> (snd (rs_body (client_view ''GET'' resp)) = None \<longrightarrow>
      fst (rs_body (client_view ''GET'' resp)) = d) \<and> (\<exists>rest. d = fst (rs_body (client_view ''GET'' resp)) @ rest)"
    using assms(1,2) by (auto simp: client_view_def split: prod.splits)
  have t: "\<exists>rest. d = take k (fst (rs_body (client_view ''GET'' resp))) @ rest"
    using v by (metis append.assoc append_take_drop_id)
  consider "x = client_view ''GET'' resp"
    | "x = (client_view ''GET'' resp)\<lparr>rs_body := (take k (fst (rs_body (client_view ''GET'' resp))), Some e)\<rparr>"
    using assms(3) unfolding cut_response_def by presburger
  then show "rs_length x = int (length d)" "snd (rs_body x) = None \<Longrightarrow> fst (rs_body x) = d" "\<exists>rest. d = fst (rs_body x) @ rest"
    using v t by (cases; simp)+
qed

text \<open>A request without a body over the network.\<close>

lemma read_sent:
  assumes "newRequest c meth m ns key ([], None) 0 hop = Inr req" "send sys (Suc n) me req w = (a, v)"
  obtains e where "a = Inl e" "plain_faults sys \<Longrightarrow> plain_err e" "\<forall>dst. sy_hosts sys (m_URL m) = Some dst \<longrightarrow> sy_net sys me dst \<noteq> NetOk"
  | dst resp x where "a = Inr x" "sy_hosts sys (m_URL m) = Some dst" "node_serve sys (send sys n) dst req w = (resp, v)"
      "x = client_view meth resp \<or> (\<exists>k e. sy_net sys me dst = NetTrunc k e \<and> x = cut_response k e (client_view meth resp))"
proof -
  note nr = newRequest_Inr [OF assms(1)]
  have b: "sent_body req = rq_body req" "write_error req = None" "req\<lparr>rq_body := rq_body req\<rparr> = req"
    using nr(6,7) by (simp_all add: sent_body_def write_error_def)
  show ?thesis
  proof (cases a)
    case (Inl e)
    have "plain_err e" if "plain_faults sys"
      using assms(2) Inl b(2) that
      by (auto simp: plain_faults_def plain_err_def miss_like_def Let_def split: option.splits net_fault.splits prod.splits)
    moreover have "sy_net sys me dst \<noteq> NetOk" if "sy_hosts sys (m_URL m) = Some dst" for dst
      using assms(2) Inl b(2) that nr(2) by (auto simp: Let_def split: prod.splits)
    ultimately show ?thesis using that(1) [of e] Inl by blast
  next
    case (Inr x)
    show ?thesis using assms(2)
    proof (cases rule: send_served)
      case 1
      with Inr show ?thesis by simp
    next
      case (2 dst bb resp)
      have "bb = rq_body req" using 2(4) [OF Inr] b(1) by simp
      then have "node_serve sys (send sys n) dst req w = (resp, v)" using 2(2) b(3) by simp
      with that(2) [of x dst resp] 2(1,4) nr(1,2) Inr show ?thesis by auto
    qed
  qed
qed

lemma peer_Get_served:
  assumes "pp_Get (peers_of sys (send sys (Suc n)) me) m ns key hop w = (r, w')" "me \<noteq> ''''"
  obtains e where "r = Inl (PeerError (m_Name m) ''get'' 0 '''' (Some e))" "plain_faults sys \<Longrightarrow> plain_err e"
    "\<forall>dst. sy_hosts sys (m_URL m) = Some dst \<longrightarrow> sy_badURL sys (objectURL m ns key) = None \<longrightarrow> sy_net sys me dst \<noteq> NetOk"
  | dst req resp x where "sy_hosts sys (m_URL m) = Some dst" "inboundHop req = hop" "rq_method req = ''GET''"
      "rq_path req = ''/'' @ ns @ ''/'' @ key" "node_serve sys (send sys n) dst req w = (resp, w')"
      "x = client_view ''GET'' resp \<or> (\<exists>k e. sy_net sys me dst = NetTrunc k e \<and> x = cut_response k e (client_view ''GET'' resp))"
      "r = (if rs_status x = 404 then Inl ErrPeerNotFound
            else if rs_status x \<noteq> 200 then Inl (PeerError (m_Name m) ''get'' (rs_status x) (quote_body x) None)
            else Inr \<lparr>po_body = rs_body x, po_size = rs_length x,
              po_source = (if header_get (rs_headers x) HeaderNode = '''' then m_Name m else header_get (rs_headers x) HeaderNode),
              po_read = 0\<rparr>)"
proof -
  let ?c = "peer_client sys me"
  have c: "pc_self ?c \<noteq> ''''" using assms(2) by (simp add: peer_client_def)
  show ?thesis
  proof (cases "newRequest ?c ''GET'' m ns key ([], None) 0 hop")
    case (Inl e)
    then have b: "sy_badURL sys (objectURL m ns key) = Some e" by (auto simp: newRequest_def peer_client_def split: option.splits)
    show ?thesis by (rule that(1) [of e]) (use assms(1) Inl b in \<open>auto simp: peers_of_def peer_Get_def plain_faults_def\<close>)
  next
    case (Inr req)
    note nr = newRequest_Inr [OF Inr] and ih = inboundHop_newRequest(1) [OF Inr c]
    obtain a v where s: "send sys (Suc n) me req w = (a, v)" by fastforce
    show ?thesis
    proof (rule read_sent [OF Inr s])
      fix e
      assume e: "a = Inl e" "plain_faults sys \<Longrightarrow> plain_err e" "\<forall>dst. sy_hosts sys (m_URL m) = Some dst \<longrightarrow> sy_net sys me dst \<noteq> NetOk"
      show ?thesis
        by (rule that(1) [of e]) (use assms(1) Inr s e in \<open>auto simp: peers_of_def peer_Get_def simp del: send.simps\<close>)
    next
      fix dst resp x
      assume x: "a = Inr x" "sy_hosts sys (m_URL m) = Some dst" "node_serve sys (send sys n) dst req w = (resp, v)"
        "x = client_view ''GET'' resp \<or> (\<exists>k e. sy_net sys me dst = NetTrunc k e \<and> x = cut_response k e (client_view ''GET'' resp))"
      have "w' = v" and r: "r = (if rs_status x = 404 then Inl ErrPeerNotFound
          else if rs_status x \<noteq> 200 then Inl (PeerError (m_Name m) ''get'' (rs_status x) (quote_body x) None)
          else Inr \<lparr>po_body = rs_body x, po_size = rs_length x,
            po_source = (if header_get (rs_headers x) HeaderNode = [] then m_Name m else header_get (rs_headers x) HeaderNode),
            po_read = 0\<rparr>)"
        using assms(1) Inr s x(1) by (simp_all add: peers_of_def peer_Get_def Let_def del: send.simps split: if_splits)
      show ?thesis by (rule that(2) [OF x(2) ih nr(1,3) _ x(4) r]) (use x(3) \<open>w' = v\<close> in simp)
    qed
  qed
qed

lemma peer_Stat_served:
  assumes "pp_Stat (peers_of sys (send sys (Suc n)) me) m ns key hop w = (r, w')" "me \<noteq> []"
  obtains e where "r = Inl (PeerError (m_Name m) ''stat'' 0 [] (Some e))" "plain_faults sys \<Longrightarrow> plain_err e"
    "\<forall>dst. sy_hosts sys (m_URL m) = Some dst \<longrightarrow> sy_badURL sys (objectURL m ns key) = None \<longrightarrow> sy_net sys me dst \<noteq> NetOk"
  | dst req resp x where "sy_hosts sys (m_URL m) = Some dst" "inboundHop req = hop" "rq_method req = ''HEAD''"
      "rq_path req = ''/'' @ ns @ ''/'' @ key" "node_serve sys (send sys n) dst req w = (resp, w')"
      "rs_status (x :: http_resp) = rs_status resp"
      "r = (if rs_status x = 200 then Inr \<lparr>oi_Size = rs_length x, oi_Source = m_Name m\<rparr>
            else if rs_status x = 404 then Inl ErrPeerNotFound
            else Inl (PeerError (m_Name m) ''stat'' (rs_status x) [] None))"
proof -
  let ?c = "peer_client sys me"
  have c: "pc_self ?c \<noteq> []" using assms(2) by (simp add: peer_client_def)
  show ?thesis
  proof (cases "newRequest ?c ''HEAD'' m ns key ([], None) 0 hop")
    case (Inl e)
    then have b: "sy_badURL sys (objectURL m ns key) = Some e" by (auto simp: newRequest_def peer_client_def split: option.splits)
    show ?thesis by (rule that(1) [of e]) (use assms(1) Inl b in \<open>auto simp: peers_of_def peer_Stat_def plain_faults_def\<close>)
  next
    case (Inr req)
    note nr = newRequest_Inr [OF Inr] and ih = inboundHop_newRequest(1) [OF Inr c]
    obtain a v where s: "send sys (Suc n) me req w = (a, v)" by fastforce
    show ?thesis
    proof (rule read_sent [OF Inr s])
      fix e
      assume e: "a = Inl e" "plain_faults sys \<Longrightarrow> plain_err e" "\<forall>dst. sy_hosts sys (m_URL m) = Some dst \<longrightarrow> sy_net sys me dst \<noteq> NetOk"
      show ?thesis
        by (rule that(1) [of e]) (use assms(1) Inr s e in \<open>auto simp: peers_of_def peer_Stat_def simp del: send.simps\<close>)
    next
      fix dst resp x
      assume x: "a = Inr x" "sy_hosts sys (m_URL m) = Some dst" "node_serve sys (send sys n) dst req w = (resp, v)"
        "x = client_view ''HEAD'' resp \<or> (\<exists>k e. sy_net sys me dst = NetTrunc k e \<and> x = cut_response k e (client_view ''HEAD'' resp))"
      have "w' = v" and r: "r = (if rs_status x = 200 then Inr \<lparr>oi_Size = rs_length x, oi_Source = m_Name m\<rparr>
            else if rs_status x = 404 then Inl ErrPeerNotFound
            else Inl (PeerError (m_Name m) ''stat'' (rs_status x) [] None))"
        using assms(1) Inr s x(1) by (simp_all add: peers_of_def peer_Stat_def del: send.simps split: if_splits)
      have sv: "node_serve sys (send sys n) dst req w = (resp, w')" and st: "rs_status x = rs_status resp"
        using x(3,4) \<open>w' = v\<close> by auto
      show ?thesis by (rule that(2) [OF x(2) ih nr(1,3) sv st r])
    qed
  qed
qed

text \<open>A terminal HEAD: success means the object is there, a miss that it is not, and a miss leaves the store
  as it was.\<close>

lemma terminal_head:
  assumes "node_serve sys tr me req w = (resp, w')" "rq_method req = ''HEAD''" "parsePath (rq_path req) = Some (ns, key)"
    "isCachePath (rq_path req)" "Terminal (inboundHop req)"
  shows "rs_status resp = 200 \<Longrightarrow> held w me (ns, key) \<noteq> None"
    "rs_status resp = 404 \<Longrightarrow> plain_faults sys \<Longrightarrow> held w me (ns, key) = None \<and> co_local (w' me) = co_local (w me)"
proof -
  have ok: "ns_Valid ns" "valid_key key" using parsePath_Some [OF assms(3)] by auto
  obtain resp0 where r0: "serveGet (sy_sha sys) (sy_serve sys) (backend_of sys tr me) me ns key (inboundHop req) False w = (resp0, w')"
    and st: "rs_status resp = rs_status resp0"
    using assms by (auto simp: node_serve_def nodeHeader_def routeCache_def ServeHTTP_def Let_def split: prod.splits)
  obtain g s1 where g: "store_Stat ns key (ce_stat (sy_env sys) me) (ce_now (sy_env sys)) (co_local (w me)) = (g, s1)" by fastforce
  have plain: "\<not> miss_like e" if "ce_stat (sy_env sys) me = Some e" "plain_faults sys" for e
    using that by (auto simp: plain_faults_def plain_err_def)
  have inl: "s1 = co_local (w me)" if "g = Inl e" for e
    using g that by (auto simp: store_Stat_def split: if_splits option.splits)
  show "held w me (ns, key) \<noteq> None" if "rs_status resp = 200"
  proof (cases g)
    case (Inr x)
    with store_Stat_Inr [OF g [unfolded Inr]] show ?thesis by (auto simp: held_def)
  next
    case (Inl e)
    with r0 g assms(5) obtain e' where "rs_status resp0 = rs_status (writeGetError e')"
      by (auto simp: serveGet_def c_Stat_def local_Stat_def Let_def split: if_splits)
    with that st writeGetError_not_ok [of e'] show ?thesis by simp
  qed
  show "held w me (ns, key) = None \<and> co_local (w' me) = co_local (w me)" if "rs_status resp = 404" "plain_faults sys"
  proof (cases g)
    case (Inr x)
    with r0 g st that(1) show ?thesis by (auto simp: serveGet_def c_Stat_def local_Stat_def Let_def)
  next
    case (Inl e)
    have m: "miss_like e" and w': "co_local (w' me) = s1"
      using r0 g Inl assms(5) st that(1) writeGetError_404
      by (auto simp: serveGet_def c_Stat_def local_Stat_def Let_def miss_like_def split: if_splits)
    have "held w me (ns, key) = None"
      using g Inl m ok plain that(2)
      by (auto simp: store_Stat_def held_def visible_def regular_at_def miss_like_def split: if_splits option.splits)
    with w' inl [OF Inl] show ?thesis by simp
  qed
qed

lemma peer_Stat_frame:
  assumes "pp_Stat (peers_of sys (send sys (Suc n)) me) m ns key HopRead w = (r, w')" "me \<noteq> []" "sy_hosts sys (m_URL m) \<noteq> Some x"
  shows "w' x = w x"
proof (cases "newRequest (peer_client sys me) ''HEAD'' m ns key ([], None) 0 HopRead")
  case (Inl e)
  with assms(1) show ?thesis by (simp add: peers_of_def peer_Stat_def)
next
  case (Inr req)
  have c: "pc_self (peer_client sys me) \<noteq> []" using assms(2) by (simp add: peer_client_def)
  obtain a v where s: "send sys (Suc n) me req w = (a, v)" by fastforce
  then have "w' = v" using assms(1) Inr by (auto simp: peers_of_def peer_Stat_def simp del: send.simps split: sum.splits if_splits)
  show ?thesis using s
  proof (cases rule: send_served)
    case 1
    with \<open>w' = v\<close> show ?thesis by simp
  next
    case (2 dst b resp)
    have "Terminal (inboundHop (req\<lparr>rq_body := b\<rparr>))" using inboundHop_newRequest(1) [OF Inr c] by (simp add: Terminal_def)
    with node_serve_terminal [OF 2(2)] 2(1) newRequest_Inr(2) [OF Inr] assms(3) \<open>w' = v\<close> show ?thesis by auto
  qed
qed

interpretation rd: read_peers "sy_sha sys" "peers_of sys (send sys (Suc n)) (c # me)" "\<lambda>m. sy_hosts sys (m_URL m)" "plain_faults sys"
  for sys n c me
proof
  fix m ns key w p w'
  assume g: "pp_Get (peers_of sys (send sys (Suc n)) (c # me)) m ns key HopRead w = (Inr p, w')"
    and k: "ns_Valid ns" "valid_key key"
  show "\<exists>x d. sy_hosts sys (m_URL m) = Some x \<and> held w x (ns, key) = Some d \<and> delivers d (PeerObject p)"
  proof (rule peer_Get_served [OF g])
    fix dst req resp x
    assume r: "sy_hosts sys (m_URL m) = Some dst" "inboundHop req = HopRead" "rq_method req = ''GET''"
      "rq_path req = ''/'' @ ns @ ''/'' @ key" "node_serve sys (send sys n) dst req w = (resp, w')"
      and x: "x = client_view ''GET'' resp \<or> (\<exists>k e. sy_net sys (c # me) dst = NetTrunc k e \<and> x = cut_response k e (client_view ''GET'' resp))"
      and p: "Inr p = (if rs_status x = 404 then Inl ErrPeerNotFound
            else if rs_status x \<noteq> 200 then Inl (PeerError (m_Name m) ''get'' (rs_status x) (quote_body x) None)
            else Inr \<lparr>po_body = rs_body x, po_size = rs_length x,
              po_source = (if header_get (rs_headers x) HeaderNode = '''' then m_Name m else header_get (rs_headers x) HeaderNode),
              po_read = 0\<rparr>)"
    have st: "rs_status resp = 200" "po_body p = rs_body x" "po_size p = rs_length x"
      using p x by (auto split: if_splits)
    obtain d rest where d: "held w dst (ns, key) = Some d" "rs_length resp = int (length d)" "d = fst (rs_body resp) @ rest"
      using terminal_get(1) [OF r(5,3), of ns key] r(2,4) st(1) parsePath_object [OF k] isCachePath_object [OF k(1)]
      by (auto simp: Terminal_def)
    obtain j e where "x = client_view ''GET'' resp \<or> x = cut_response j e (client_view ''GET'' resp)" using x by blast
    note v = client_view_get [OF d(2,3) this]
    obtain rest' where "d = fst (rs_body x) @ rest'" using v(3) by blast
    then have "delivers d (PeerObject p)" using v(1,2) st by (intro delivers_peer) simp_all
    with r(1) d(1) show ?thesis by blast
  qed simp_all
next
  fix m ns key w info w'
  assume g: "pp_Stat (peers_of sys (send sys (Suc n)) (c # me)) m ns key HopRead w = (Inr info, w')" and k: "ns_Valid ns" "valid_key key"
  show "\<exists>x. sy_hosts sys (m_URL m) = Some x \<and> held w x (ns, key) \<noteq> None"
  proof (rule peer_Stat_served [OF g])
    fix dst req resp and x :: http_resp
    assume r: "sy_hosts sys (m_URL m) = Some dst" "inboundHop req = HopRead" "rq_method req = ''HEAD''"
      "rq_path req = ''/'' @ ns @ ''/'' @ key" "node_serve sys (send sys n) dst req w = (resp, w')" "rs_status x = rs_status resp"
      and "Inr info = (if rs_status x = 200 then Inr \<lparr>oi_Size = rs_length x, oi_Source = m_Name m\<rparr>
            else if rs_status x = 404 then Inl ErrPeerNotFound
            else Inl (PeerError (m_Name m) ''stat'' (rs_status x) [] None))"
    then have "rs_status resp = 200" by (auto split: if_splits)
    with terminal_head(1) [OF r(5,3), of ns key] r(1,2,4) parsePath_object [OF k] isCachePath_object [OF k(1)] show ?thesis
      by (auto simp: Terminal_def)
  qed simp_all
next
  fix m ns key w e w'
  assume g: "pp_Stat (peers_of sys (send sys (Suc n)) (c # me)) m ns key HopRead w = (Inl e, w')" and k: "ns_Valid ns" "valid_key key"
    and pl: "plain_faults sys" "errors_is e SPeerNotFound"
  show "\<exists>x. sy_hosts sys (m_URL m) = Some x \<and> held w x (ns, key) = None \<and> co_local (w' x) = co_local (w x)"
  proof (rule peer_Stat_served [OF g])
    fix e' assume "Inl e = Inl (PeerError (m_Name m) ''stat'' 0 [] (Some e'))" "plain_faults sys \<Longrightarrow> plain_err e'"
    with pl show ?thesis by (auto simp: plain_err_def)
  next
    fix dst req resp and x :: http_resp
    assume r: "sy_hosts sys (m_URL m) = Some dst" "inboundHop req = HopRead" "rq_method req = ''HEAD''"
      "rq_path req = ''/'' @ ns @ ''/'' @ key" "node_serve sys (send sys n) dst req w = (resp, w')" "rs_status x = rs_status resp"
      and "Inl e = (if rs_status x = 200 then Inr \<lparr>oi_Size = rs_length x, oi_Source = m_Name m\<rparr>
            else if rs_status x = 404 then Inl ErrPeerNotFound
            else Inl (PeerError (m_Name m) ''stat'' (rs_status x) [] None))"
    then have "rs_status resp = 404" using pl(2) by (auto split: if_splits)
    with terminal_head(2) [OF r(5,3), of ns key] r(1,2,4) pl(1) parsePath_object [OF k] isCachePath_object [OF k(1)] show ?thesis
      by (auto simp: Terminal_def)
  qed simp_all
next
  fix m ns key w st w' x
  assume g: "pp_Stat (peers_of sys (send sys (Suc n)) (c # me)) m ns key HopRead w = (st, w')" and x: "sy_hosts sys (m_URL m) \<noteq> Some x"
  show "w' x = w x" by (rule peer_Stat_frame [OF g _ x]) simp
next
  fix m ns key w e w'
  assume g: "pp_Get (peers_of sys (send sys (Suc n)) (c # me)) m ns key HopRead w = (Inl e, w')"
    and k: "ns_Valid ns" "valid_key key" "plain_faults sys"
  show "\<not> miss_like e \<and> (errors_is e SPeerNotFound \<longrightarrow> (\<exists>x. sy_hosts sys (m_URL m) = Some x \<and> held w x (ns, key) = None))"
  proof (rule peer_Get_served [OF g])
    fix e' assume "Inl e = Inl (PeerError (m_Name m) ''get'' 0 '''' (Some e'))" "plain_faults sys \<Longrightarrow> plain_err e'"
    with k(3) show ?thesis by (auto simp: plain_err_def miss_like_def)
  next
    fix dst req resp x
    assume r: "sy_hosts sys (m_URL m) = Some dst" "inboundHop req = HopRead" "rq_method req = ''GET''"
      "rq_path req = ''/'' @ ns @ ''/'' @ key" "node_serve sys (send sys n) dst req w = (resp, w')"
      and x: "x = client_view ''GET'' resp \<or> (\<exists>k e. sy_net sys (c # me) dst = NetTrunc k e \<and> x = cut_response k e (client_view ''GET'' resp))"
      and p: "Inl e = (if rs_status x = 404 then Inl ErrPeerNotFound
            else if rs_status x \<noteq> 200 then Inl (PeerError (m_Name m) ''get'' (rs_status x) (quote_body x) None)
            else Inr \<lparr>po_body = rs_body x, po_size = rs_length x,
              po_source = (if header_get (rs_headers x) HeaderNode = '''' then m_Name m else header_get (rs_headers x) HeaderNode),
              po_read = 0\<rparr>)"
    have st: "rs_status x = rs_status resp" using x by auto
    show ?thesis
    proof (cases "rs_status x = 404")
      case True
      then have "held w dst (ns, key) = None"
        using terminal_get(2) [OF r(5,3), of ns key] r(2,4) st k(3) parsePath_object [OF k(1,2)] isCachePath_object [OF k(1)]
        by (auto simp: Terminal_def)
      with True p r(1) show ?thesis by (auto simp: miss_like_def)
    next
      case False
      with p show ?thesis by (auto simp: miss_like_def split: if_splits)
    qed
  qed simp_all
qed

section \<open>Lemmas: reads that succeed\<close>

text \<open>A node that serves reads: open, and without faults on its disk and on its connections.\<close>

definition up_node :: "system \<Rightarrow> world \<Rightarrow> string \<Rightarrow> bool" where
  "up_node sys w n \<longleftrightarrow> ce_open (sy_env sys) n '''' = (None, None) \<and> sv_read (sy_serve sys) n = None \<and>
     sv_write (sy_serve sys) n = None \<and> \<not> s_closed (co_local (w n))"

text \<open>A member as one node sees it: it is up and reachable, or every connection to it fails.\<close>

definition reachable :: "system \<Rightarrow> world \<Rightarrow> string \<Rightarrow> Member \<Rightarrow> bool" where
  "reachable sys w me m \<longleftrightarrow> sy_net sys me (m_Name m) = NetOk \<and> up_node sys w (m_Name m)"

definition clear_link :: "system \<Rightarrow> world \<Rightarrow> string \<Rightarrow> Member \<Rightarrow> bool" where
  "clear_link sys w me m \<longleftrightarrow> sy_hosts sys (m_URL m) = Some (m_Name m) \<and> (\<forall>ns key. sy_badURL sys (objectURL m ns key) = None) \<and>
     ((\<exists>e. sy_net sys me (m_Name m) = NetDown e) \<or> reachable sys w me m)"

lemma steps_up: "steps sha w w' \<Longrightarrow> up_node sys w' n = up_node sys w n"
  by (simp add: steps_def up_node_def node_setup_def)

lemma local_Get_up:
  assumes "up_node sys w me" "held w me (ns, key) = Some d"
  shows "\<exists>ob w1. local_Get (sy_env sys) me '''' ns key w = (Inr ob, w1) \<and> o_data ob = d \<and> t_Size (o_stat ob) = int (length d)"
proof -
  have "objects (co_local (w me)) (ns, key) = Some d" "\<not> s_closed (co_local (w me))"
    using assms by (simp_all add: up_node_def held_def)
  from store_Get_found [OF this, of "ce_now (sy_env sys)"] assms(1) show ?thesis
    by (auto simp: local_Get_def up_node_def)
qed

lemma terminal_get_up:
  assumes "node_serve sys tr me req w = (resp, w')" "rq_method req = ''GET''" "parsePath (rq_path req) = Some (ns, key)"
    "isCachePath (rq_path req)" "up_node sys w me" "held w me (ns, key) = Some d"
  shows "rs_status resp = 200 \<and> rs_length resp = int (length d) \<and> rs_body resp = (d, None)"
proof -
  obtain ob w1 where g: "local_Get (sy_env sys) me '''' ns key w = (Inr ob, w1)" "o_data ob = d" "t_Size (o_stat ob) = int (length d)"
    using local_Get_up [OF assms(5,6)] by blast
  show ?thesis
    by (rule node_serve_get [OF assms(1-4)])
      (use g assms(5) in \<open>auto simp: c_Open_def up_node_def WriteTo_all Let_def prod_eq_iff\<close>)
qed

lemma peer_Get_up:
  assumes "pp_Get (peers_of sys (send sys (Suc n)) me) m ns key HopRead w = (r, w')" "me \<noteq> ''''" "clear_link sys w me m"
    "reachable sys w me m" "held w (m_Name m) (ns, key) = Some d" "ns_Valid ns" "valid_key key"
  shows "\<exists>p. r = Inr p \<and> po_body p = (d, None) \<and> po_size p = int (length d)"
proof (rule peer_Get_served [OF assms(1,2)])
  fix e
  assume "\<forall>dst. sy_hosts sys (m_URL m) = Some dst \<longrightarrow> sy_badURL sys (objectURL m ns key) = None \<longrightarrow> sy_net sys me dst \<noteq> NetOk"
  with assms(3,4) show ?thesis by (auto simp: clear_link_def reachable_def)
next
  fix dst req resp x
  assume r: "sy_hosts sys (m_URL m) = Some dst" "inboundHop req = HopRead" "rq_method req = ''GET''"
      "rq_path req = ''/'' @ ns @ ''/'' @ key" "node_serve sys (send sys n) dst req w = (resp, w')"
    and x: "x = client_view ''GET'' resp \<or> (\<exists>k e. sy_net sys me dst = NetTrunc k e \<and> x = cut_response k e (client_view ''GET'' resp))"
    and p: "r = (if rs_status x = 404 then Inl ErrPeerNotFound
            else if rs_status x \<noteq> 200 then Inl (PeerError (m_Name m) ''get'' (rs_status x) (quote_body x) None)
            else Inr \<lparr>po_body = rs_body x, po_size = rs_length x,
              po_source = (if header_get (rs_headers x) HeaderNode = '''' then m_Name m else header_get (rs_headers x) HeaderNode),
              po_read = 0\<rparr>)"
  have dst: "dst = m_Name m" "up_node sys w dst" "sy_net sys me dst = NetOk"
    using assms(3,4) r(1) by (auto simp: clear_link_def reachable_def)
  have "rs_status resp = 200 \<and> rs_length resp = int (length d) \<and> rs_body resp = (d, None)"
    by (rule terminal_get_up [OF r(5,3) _ _ dst(2)])
      (use r(4) dst(1) assms(5) parsePath_object [OF assms(6,7)] isCachePath_object [OF assms(6)] in simp_all)
  moreover have "x = client_view ''GET'' resp" using x dst(3) by auto
  ultimately show ?thesis using p by (simp add: client_view_def)
qed

lemma peer_Get_down:
  assumes "sy_net sys me (m_Name m) = NetDown e" "sy_hosts sys (m_URL m) = Some (m_Name m)"
  shows "\<exists>err. pp_Get (peers_of sys (send sys (Suc n)) me) m ns key hop w = (Inl err, w)"
proof (cases "newRequest (peer_client sys me) ''GET'' m ns key ([], None) 0 hop")
  case (Inr req)
  with newRequest_Inr(2) [OF Inr] assms show ?thesis by (simp add: peers_of_def peer_Get_def Let_def)
qed (simp add: peers_of_def peer_Get_def)

lemma try_get_up:
  assumes "me \<noteq> ''''" "\<forall>m \<in> set ms. clear_link sys w me m" "ns_Valid ns" "valid_key key"
    "m0 \<in> set ms" "reachable sys w me m0" "held w (m_Name m0) (ns, key) \<noteq> None"
  shows "\<exists>p w' n d. try_peers (\<lambda>m. pp_Get (peers_of sys (send sys (Suc k)) me) m ns key HopRead) ms e w = (Inl p, w') \<and>
     held w n (ns, key) = Some d \<and> po_body p = (d, None) \<and> po_size p = int (length d)"
  using assms(2,5-7)
proof (induction ms arbitrary: e w)
  case (Cons m ms)
  obtain r w1 where g: "pp_Get (peers_of sys (send sys (Suc k)) me) m ns key HopRead w = (r, w1)" by fastforce
  have lm: "clear_link sys w me m" using Cons.prems(1) by simp
  show ?case
  proof (cases "reachable sys w me m \<and> held w (m_Name m) (ns, key) \<noteq> None")
    case True
    then obtain d where d: "held w (m_Name m) (ns, key) = Some d" by auto
    from peer_Get_up [OF g assms(1) lm _ d assms(3,4)] True g d show ?thesis by auto
  next
    case False
    then have m0: "m0 \<in> set ms" using Cons.prems(2-4) by auto
    show ?thesis
    proof (cases r)
      case (Inr p)
      obtain c cs where me: "me = c # cs" using assms(1) by (cases me) auto
      obtain n d where nd: "sy_hosts sys (m_URL m) = Some n" "held w n (ns, key) = Some d"
        using rd.get_data [OF g [unfolded Inr me] assms(3,4)] by blast
      have n: "n = m_Name m" using nd(1) lm by (simp add: clear_link_def)
      have "\<not> reachable sys w me m" using False nd(2) n by simp
      with lm obtain e' where "sy_net sys me (m_Name m) = NetDown e'" by (auto simp: clear_link_def)
      with peer_Get_down [of sys me m e' k ns key HopRead w] lm g Inr show ?thesis by (auto simp: clear_link_def)
    next
      case (Inl err)
      note st = sp.get_steps [OF g]
      have l: "clear_link sys w1 me q = clear_link sys w me q" "reachable sys w1 me q = reachable sys w me q" for q
        using steps_up [of "sy_sha sys" w w1 sys] st by (simp_all add: clear_link_def reachable_def)
      let ?e = "if errors_is err SPeerNotFound then e else Some err"
      have "\<exists>p w' n d. try_peers (\<lambda>m. pp_Get (peers_of sys (send sys (Suc k)) me) m ns key HopRead) ms ?e w1 = (Inl p, w') \<and>
         held w1 n (ns, key) = Some d \<and> po_body p = (d, None) \<and> po_size p = int (length d)"
        by (rule Cons.IH) (use Cons.prems m0 st l in auto)
      with g Inl st show ?thesis by (auto split: if_splits)
    qed
  qed
qed simp

text \<open>A client's read at a node that is up, when one of the members it can reach has the object.\<close>

lemma client_get_up:
  assumes "client_request sys me req w = (resp, w')" "rq_method req = ''GET''" "parsePath (rq_path req) = Some (ns, key)"
    "isCachePath (rq_path req)" "inboundHop req = HopClient" "me \<noteq> ''''" "up_node sys w me"
    "\<forall>m \<in> set (readOrder (sy_sha sys) (co_ring (w me)) key). clear_link sys w me m" "co_peers (w me)"
    "held w me (ns, key) \<noteq> None \<or>
     (\<exists>m \<in> set (readOrder (sy_sha sys) (co_ring (w me)) key). reachable sys w me m \<and> held w (m_Name m) (ns, key) \<noteq> None)"
  shows "rs_status resp = 200 \<and> (\<exists>n d. held w n (ns, key) = Some d \<and> rs_body resp = (d, None) \<and> rs_length resp = int (length d))"
proof -
  have ok: "ns_Valid ns" "valid_key key" using parsePath_Some [OF assms(3)] by auto
  have sv: "node_serve sys (send sys (Suc (Suc 0))) me (req\<lparr>rq_body := sent_body req\<rparr>) w = (resp, w')"
    using assms(1) by (simp add: client_request_def numeral_2_eq_2 del: send.simps)
  let ?r = "req\<lparr>rq_body := sent_body req\<rparr>"
  have r: "rq_method ?r = ''GET''" "parsePath (rq_path ?r) = Some (ns, key)" "isCachePath (rq_path ?r)"
    using assms(2-4) by simp_all
  show ?thesis
  proof (cases "held w me (ns, key)")
    case (Some d)
    from terminal_get_up [OF sv r assms(7) Some] Some show ?thesis by auto
  next
    case None
    obtain g w1 where g: "local_Get (sy_env sys) me '''' ns key w = (g, w1)" by fastforce
    have gm: "g = Inl ErrNotFound"
      using store_Get_missing [of "co_local (w me)" ns key "ce_now (sy_env sys)"] None assms(7) ok g
      by (auto simp: held_def up_node_def local_Get_def split: prod.splits)
    note st = local_steps(1) [OF g, of "sy_sha sys"] and h = local_Get_frame(1) [OF g]
    have l: "clear_link sys w1 me q = clear_link sys w me q" "reachable sys w1 me q = reachable sys w me q" for q
      using steps_up [OF st, of sys] by (simp_all add: clear_link_def reachable_def)
    obtain m0 where m0: "m0 \<in> set (readOrder (sy_sha sys) (co_ring (w me)) key)" "reachable sys w me m0" "held w (m_Name m0) (ns, key) \<noteq> None"
      using assms(10) None by auto
    obtain p w2 n d where t: "try_peers (\<lambda>m. pp_Get (peers_of sys (send sys (Suc (Suc 0))) me) m ns key HopRead)
        (readOrder (sy_sha sys) (co_ring (w me)) key) None w1 = (Inl p, w2)"
      and p: "held w1 n (ns, key) = Some d" "po_body p = (d, None)" "po_size p = int (length d)"
      using try_get_up [OF assms(6) _ ok m0(1), of sys w1 "Suc 0" None] l assms(8) m0(2,3) h by auto
    have o: "\<exists>v. c_Open (sy_sha sys) (peers_of sys (send sys (Suc (Suc 0))) me) (sy_env sys) me ns key (inboundHop ?r) w =
        (Inr (PeerObject p), v)"
      using g gm t assms(5,9) by (simp add: c_Open_def Let_def Terminal_def del: send.simps)
    show ?thesis
      by (rule node_serve_get [OF sv r])
        (use o p h assms(7) in \<open>auto simp: up_node_def peer_WriteTo_all prod_eq_iff simp del: send.simps\<close>)
  qed
qed

section \<open>A wired cluster\<close>

text \<open>
  What a correct deployment establishes: every node of \<open>N\<close> has a name, knows itself by it, has a ring
  that \<^verbatim>\<open>New\<close> could build, and the URL of each member leads to the node of that name. The rings
  of different nodes may still differ.
\<close>

definition wired :: "system \<Rightarrow> string set \<Rightarrow> world \<Rightarrow> bool" where
  "wired sys N w \<longleftrightarrow> '''' \<notin> N \<and> (\<forall>h n. sy_hosts sys h = Some n \<longrightarrow> n \<in> N) \<and>
     (\<forall>n \<in> N. r_self (co_ring (w n)) = n \<and> ring_ok (sy_sha sys) (co_ring (w n)) \<and>
        (\<forall>m \<in> set (r_members (co_ring (w n))). sy_hosts sys (m_URL m) = Some (m_Name m)))"

text \<open>An ordinary object request, from a client.\<close>

definition object_request :: "string \<Rightarrow> namespace \<Rightarrow> key \<Rightarrow> http_req \<Rightarrow> bool" where
  "object_request method ns key req \<longleftrightarrow> rq_method req = method \<and> parsePath (rq_path req) = Some (ns, key) \<and>
     isCachePath (rq_path req) \<and> inboundHop req = HopClient"

abbreviation holders_at :: "system \<Rightarrow> world \<Rightarrow> string \<Rightarrow> key \<Rightarrow> Member list" where
  "holders_at sys w n key \<equiv> Holders (sy_sha sys) (co_ring (w n)) key (co_replicaCount (w n))"

lemma wired_coordinate:
  assumes "coordinate (sy_sha sys) (peers_of sys (send sys (Suc k)) me) env me ns key bd sz w = ((oc, None), w')"
    "wired sys N w" "me \<in> N" "ns_Valid ns" "valid_key key" "all_cas_ok (sy_sha sys) w"
  shows "\<exists>S. me \<in> S \<and> finite S \<and> length (holders_at sys w me key) \<le> card S \<and>
     S \<subseteq> m_Name ` set (r_members (co_ring (w me))) \<and> (\<forall>n \<in> S. has_copy (sy_sha sys) ns key (fst bd) w' n)"
proof -
  obtain c cs where me: "me = c # cs" using assms(2,3) by (cases me) (auto simp: wired_def)
  have wd: "r_self (co_ring (w me)) = me" "ring_ok (sy_sha sys) (co_ring (w me))"
    "\<forall>m \<in> set (r_members (co_ring (w me))). sy_hosts sys (m_URL m) = Some (m_Name m)"
    using assms(2,3) by (auto simp: wired_def)
  have "distinct (oc_Holders oc) \<and> me \<in> set (oc_Holders oc) \<and> length (holders_at sys w me key) \<le> length (oc_Holders oc) \<and>
     (\<forall>n \<in> set (oc_Holders oc). has_copy (sy_sha sys) ns key (fst bd) w' n) \<and> oc_Copies oc = length (oc_Holders oc) \<and>
     set (oc_Holders oc) \<subseteq> m_Name ` set (r_members (co_ring (w me)))"
    unfolding me by (rule rp.coordinate_acked [where bd = bd and sz = sz and env = env and n = k])
      (use assms wd in \<open>simp_all add: me\<close>)
  then show ?thesis by (intro exI [of _ "set (oc_Holders oc)"]) (simp add: distinct_card)
qed

lemma acked_put:
  assumes "wired sys N w" "me \<in> N" "all_cas_ok (sy_sha sys) w" "object_request ''PUT'' ns key req"
    "client_request sys me req w = (resp, w')" "200 \<le> rs_status resp" "rs_status resp < 300"
  shows "\<exists>c S. (c = me \<or> c = m_Name (hd (holders_at sys w me key))) \<and> c \<in> N \<and> c \<in> S \<and> finite S \<and>
     length (holders_at sys w c key) \<le> card S \<and> S \<subseteq> m_Name ` set (r_members (co_ring (w c))) \<and>
     (\<forall>n \<in> S. has_copy (sy_sha sys) ns key (fst (sent_body req)) w' n)"
proof -
  let ?r = "req\<lparr>rq_body := sent_body req\<rparr>"
  have rq: "rq_method req = ''PUT''" "parsePath (rq_path req) = Some (ns, key)" "isCachePath (rq_path req)" "inboundHop req = HopClient"
    using assms(4) by (simp_all add: object_request_def)
  have ok: "ns_Valid ns" "valid_key key" using parsePath_Some [OF rq(2)] by auto
  have ne: "me \<noteq> ''''" using assms(1,2) by (auto simp: wired_def)
  have sv: "node_serve sys (send sys (Suc (Suc 0))) me ?r w = (resp, w')"
    using assms(5) by (simp add: client_request_def numeral_2_eq_2 del: send.simps)
  obtain oc where p: "c_Put (sy_sha sys) (peers_of sys (send sys (Suc (Suc 0))) me) (sy_env sys) me ns key (sent_body req) (rq_length req)
      HopClient w = ((oc, None), w')"
    using node_serve_put_ok [OF sv assms(6,7), of ns key] rq by (auto simp del: send.simps)
  show ?thesis
  proof (cases "selfIn (co_ring (w me)) (holders_at sys w me key)")
    case True
    with p have "coordinate (sy_sha sys) (peers_of sys (send sys (Suc (Suc 0))) me) (sy_env sys) me ns key (sent_body req) (rq_length req) w =
        ((oc, None), w')"
      by (simp add: c_Put_def Let_def del: send.simps)
    from wired_coordinate [OF this assms(1,2) ok assms(3)] assms(2) show ?thesis by blast
  next
    case False
    let ?w1 = "cbump (\<lambda>st. st\<lparr>cs_ForwardedPuts := cs_ForwardedPuts st + 1\<rparr>) me w"
    obtain t ts where hs: "holders_at sys w me key = t # ts"
      and pp: "pp_Put (peers_of sys (send sys (Suc (Suc 0))) me) t ns key (sent_body req) (rq_length req) HopCoordinator ?w1 = (None, w')"
      using p False by (auto simp: c_Put_def proxyPut_def Let_def simp del: send.simps split: if_splits list.splits prod.splits option.splits)
    have "t \<in> set (r_members (co_ring (w me)))"
      using hs rdv.prefix_members [of "nat (max 1 (co_replicaCount (w me)))" "sy_sha sys" "co_ring (w me)" key]
      by (simp add: Holders_take)
    then have t: "sy_hosts sys (m_URL t) = Some (m_Name t)" "m_Name t \<in> N"
      using assms(1,2) unfolding wired_def by blast+
    show ?thesis
    proof (rule peer_Put_served [OF pp ne])
      fix dst q b rs
      assume s: "sy_hosts sys (m_URL t) = Some dst" "inboundHop q = HopCoordinator" "rq_method q = ''PUT''"
        "rq_path q = ''/'' @ ns @ ''/'' @ key" "rq_length q = rq_length req"
        "node_serve sys (send sys (Suc 0)) dst (q\<lparr>rq_body := b\<rparr>) ?w1 = (rs, w')"
        "None = None \<Longrightarrow> b = sent_body req \<and> 200 \<le> rs_status rs \<and> rs_status rs < 300"
      have dst: "dst = m_Name t" using s(1) t(1) by simp
      obtain oc2 where "c_Put (sy_sha sys) (peers_of sys (send sys (Suc 0)) dst) (sy_env sys) dst ns key (sent_body req) (rq_length req)
          HopCoordinator ?w1 = ((oc2, None), w')"
        using node_serve_put_ok [OF s(6), of ns key] s(2-5,7) parsePath_object [OF ok] isCachePath_object [OF ok(1)]
        by (auto simp del: send.simps)
      then have co: "coordinate (sy_sha sys) (peers_of sys (send sys (Suc 0)) dst) (sy_env sys) dst ns key (sent_body req) (rq_length req) ?w1 =
          ((oc2, None), w')"
        by (simp add: c_Put_def del: send.simps)
      have "wired sys N ?w1" "all_cas_ok (sy_sha sys) ?w1" using assms(1,3) by (simp_all add: wired_def all_cas_ok_def)
      from wired_coordinate [OF co this(1) _ ok this(2)] t(2) dst hs show ?thesis by auto
    qed simp_all
  qed
qed

text \<open>What a client reads, and what a miss means.\<close>

lemma read_returns:
  assumes "me \<noteq> ''''" "all_cas_ok (sy_sha sys) w" "object_request ''GET'' ns key req"
    "client_request sys me req w = (resp, w')" "rs_status resp = 200"
  shows "\<exists>n d. held w n (ns, key) = Some d \<and> rs_length resp = int (length d) \<and>
     (\<exists>rest. d = fst (rs_body resp) @ rest) \<and>
     (snd (rs_body resp) = None \<longrightarrow> fst (rs_body resp) = d) \<and> (ns = NamespaceCAS \<longrightarrow> hex_encode (sy_sha sys d) = key)"
proof -
  let ?r = "req\<lparr>rq_body := sent_body req\<rparr>"
  have rq: "rq_method ?r = ''GET''" "parsePath (rq_path ?r) = Some (ns, key)" "isCachePath (rq_path ?r)"
    using assms(3) by (simp_all add: object_request_def)
  have ok: "ns_Valid ns" "valid_key key" using parsePath_Some [OF rq(2)] by auto
  obtain c cs where me: "me = c # cs" using assms(1) by (cases me) auto
  have sv: "node_serve sys (send sys (Suc (Suc 0))) me ?r w = (resp, w')"
    using assms(4) by (simp add: client_request_def numeral_2_eq_2 del: send.simps)
  show ?thesis
  proof (rule node_serve_get [OF sv rq])
    fix e assume "rs_status resp = rs_status (writeGetError e)"
    with assms(5) writeGetError_not_ok [of e] show ?thesis by simp
  next
    fix rd w1 rd'
    assume o: "c_Open (sy_sha sys) (peers_of sys (send sys (Suc (Suc 0))) me) (sy_env sys) me ns key (inboundHop ?r) w = (Inr rd, w1)"
      and r: "rs_length resp = or_Size rd"
        "or_WriteTo (sv_read (sy_serve sys) me) (sv_write (sy_serve sys) me) rd = (fst (rs_body resp), snd (rs_body resp), rd')"
    obtain n d where nd: "held w n (ns, key) = Some d" "delivers d rd"
      using rd.c_Open_data [OF o [unfolded me] ok] by blast
    then have "rs_length resp = int (length d)" "snd (rs_body resp) = None \<longrightarrow> fst (rs_body resp) = d"
      "\<exists>rest. d = fst (rs_body resp) @ rest"
      using r unfolding delivers_def by (simp, metis, metis)
    moreover have "ns = NamespaceCAS \<longrightarrow> hex_encode (sy_sha sys d) = key"
      using nd(1) assms(2) by (auto simp: all_cas_ok_def cas_ok_def held_def)
    ultimately show ?thesis using nd(1) by (intro exI [of _ n] exI [of _ d]) simp
  qed
qed

lemma missing_nowhere:
  assumes "wired sys N w" "me \<in> N" "co_peers (w me)" "plain_faults sys" "object_request ''GET'' ns key req"
    "client_request sys me req w = (resp, w')" "rs_status resp = 404"
  shows "held w me (ns, key) = None \<and> (\<forall>m \<in> set (r_members (co_ring (w me))). held w (m_Name m) (ns, key) = None)"
proof -
  let ?r = "req\<lparr>rq_body := sent_body req\<rparr>"
  have rq: "rq_method ?r = ''GET''" "parsePath (rq_path ?r) = Some (ns, key)" "isCachePath (rq_path ?r)" "inboundHop ?r = HopClient"
    using assms(5) by (simp_all add: object_request_def)
  have ok: "ns_Valid ns" "valid_key key" using parsePath_Some [OF rq(2)] by auto
  obtain c cs where me: "me = c # cs" using assms(1,2) by (cases me) (auto simp: wired_def)
  have sv: "node_serve sys (send sys (Suc (Suc 0))) me ?r w = (resp, w')"
    using assms(6) by (simp add: client_request_def numeral_2_eq_2 del: send.simps)
  show ?thesis
  proof (rule node_serve_get [OF sv rq(1-3)])
    fix e
    assume o: "c_Open (sy_sha sys) (peers_of sys (send sys (Suc (Suc 0))) me) (sy_env sys) me ns key (inboundHop ?r) w = (Inl e, w')"
      and st: "rs_status resp = rs_status (writeGetError e)"
    have "\<forall>x. fst (ce_open (sy_env sys) me '''') = Some x \<or> snd (ce_open (sy_env sys) me '''') = Some x \<longrightarrow> \<not> miss_like x"
      using assms(4) by (auto simp: plain_faults_def plain_err_def)
    then have m: "held w me (ns, key) = None \<and> (\<forall>m \<in> set (readOrder (sy_sha sys) (co_ring (w me)) key).
        \<exists>n. sy_hosts sys (m_URL m) = Some n \<and> held w n (ns, key) = None)"
      using rd.c_Open_missing [OF o [unfolded me] _ ok assms(4)] st assms(3,7) writeGetError_404 [of e] rq(4) me
      by (simp add: Terminal_def)
    have "held w (m_Name x) (ns, key) = None" if "x \<in> set (r_members (co_ring (w me)))" for x
    proof (cases "m_Name x = me")
      case False
      with that assms(1,2) have "x \<in> set (readOrder (sy_sha sys) (co_ring (w me)) key)"
        using rdv.owners_set [of "sy_sha sys" "co_ring (w me)" key] by (simp add: readOrder_def wired_def)
      with m that assms(1,2) show ?thesis by (fastforce simp: wired_def)
    qed (use m in simp)
    with m show ?thesis by blast
  qed (use assms(7) in simp)
qed

section \<open>Properties\<close>

text \<open>C1: Forwarding is bounded. However the rings of the nodes disagree and whatever the network does, a
  request is forwarded at most twice: with fuel for more forwards every request is answered in
  exactly the same way and leaves the same state.\<close>

theorem forwarding_bounded:
  assumes "\<And>h n. sy_hosts sys h = Some n \<Longrightarrow> n \<noteq> ''''" "me \<noteq> ''''" "2 \<le> n"
  shows "node_serve sys (send sys n) me req w = node_serve sys (send sys 2) me req w"
proof -
  obtain k where n: "n = 2 + k" using assms(3) le_Suc_ex by blast
  have "agree (\<lambda>r. hop_rank (inboundHop r) < 2) (send sys n) (send sys 2)"
    unfolding n by (rule send_agree) (rule assms(1))
  moreover have "hop_rank (inboundHop req) \<le> 2" by (cases "inboundHop req") simp_all
  ultimately have "agree (\<lambda>r. hop_rank (inboundHop r) < hop_rank (inboundHop req)) (send sys n) (send sys 2)"
    by (elim agree_weaken) simp
  then show ?thesis using assms(2) by (rule node_serve_agree)
qed

text \<open>C2: Every request, at every node and under every fault, keeps the content addressing of the whole
  cluster and the setup of every node, and a request that is not an upload changes no object
  anywhere.\<close>

theorem cluster_invariant:
  assumes "all_cas_ok (sy_sha sys) w"
  shows "all_cas_ok (sy_sha sys) (snd (client_request sys me req w)) \<and>
     (\<forall>n. node_setup (snd (client_request sys me req w) n) = node_setup (w n)) \<and>
     (rq_method req \<noteq> ''PUT'' \<and> rq_method req \<noteq> ''POST'' \<longrightarrow> held (snd (client_request sys me req w)) = held w)"
proof -
  obtain resp w' where r: "client_request sys me req w = (resp, w')" by fastforce
  then have "node_serve sys (send sys 2) me (req\<lparr>rq_body := sent_body req\<rparr>) w = (resp, w')"
    by (simp add: client_request_def)
  from node_serve_steps [OF safe_peers_of [OF safe_send] this] r assms show ?thesis
    by (auto simp: req_steps_def steps_def reads_def)
qed


text \<open>C4: A read never makes bytes up. A client's GET that is answered with 200 announces the length of an
  object that some node holds, its body is a prefix of that object however the transfer ends, and if it
  ends without an error it is exactly that object; for a CAS key the object hashes to the key. This holds for objects that come from a peer too, whose bytes the node
  does not verify, and under every fault.\<close>

theorem read_returns_stored:
  assumes "me \<noteq> ''''" "all_cas_ok (sy_sha sys) w" "object_request ''GET'' ns key req"
    "client_request sys me req w = (resp, w')" "rs_status resp = 200"
  shows "\<exists>n d. held w n (ns, key) = Some d \<and> rs_length resp = int (length d) \<and>
     (\<exists>rest. d = fst (rs_body resp) @ rest) \<and>
     (snd (rs_body resp) = None \<longrightarrow> fst (rs_body resp) = d) \<and> (ns = NamespaceCAS \<longrightarrow> hex_encode (sy_sha sys d) = key)"
  using assms by (rule read_returns)

text \<open>C5: No false misses. When a client's GET is answered with 404, no member of the ring of the node that
  answered holds the object: a member that cannot be reached, is closing or has disk errors makes the
  answer something else, never a miss.\<close>

theorem no_false_miss:
  assumes "wired sys N w" "me \<in> N" "co_peers (w me)" "plain_faults sys" "object_request ''GET'' ns key req"
    "client_request sys me req w = (resp, w')" "rs_status resp = 404"
  shows "held w me (ns, key) = None \<and> (\<forall>m \<in> set (r_members (co_ring (w me))). held w (m_Name m) (ns, key) = None)"
  using assms by (rule missing_nowhere)

text \<open>C6: An acknowledged object survives failures. Let all nodes have the same membership and replica count,
  let a client's PUT of a CAS object be acknowledged, and let then fewer nodes than the key has
  holders be unreachable. A client's GET of the object at any other node that is up finds it: the
  answer is 200, complete, and the bytes hash to the key.\<close>

theorem acked_object_survives:
  assumes "wired sys N w" "me \<in> N" "all_cas_ok (sy_sha sys) w" "object_request ''PUT'' NamespaceCAS key req"
    "client_request sys me req w = (resp, w')" "200 \<le> rs_status resp" "rs_status resp < 300"
    "\<forall>n \<in> N. r_members (co_ring (w n)) = r_members (co_ring (w me)) \<and> co_replicaCount (w n) = co_replicaCount (w me)"
    "sy_sha sys2 = sy_sha sys" "b \<in> N" "up_node sys2 w b" "co_peers (w b)" "object_request ''GET'' NamespaceCAS key req2"
    "\<forall>m \<in> set (r_members (co_ring (w b))). m_Name m \<noteq> b \<longrightarrow> clear_link sys2 w b m \<and> (m_Name m \<notin> D \<longrightarrow> reachable sys2 w b m)"
    "finite D" "card D < length (holders_at sys w me key)"
  shows "\<exists>resp2 w2 d. client_request sys2 b req2 w' = (resp2, w2) \<and> rs_status resp2 = 200 \<and> rs_body resp2 = (d, None) \<and>
     hex_encode (sy_sha sys d) = key"
proof -
  obtain c S where c: "c \<in> N" "finite S" "length (holders_at sys w c key) \<le> card S"
    "S \<subseteq> m_Name ` set (r_members (co_ring (w c)))" "\<forall>n \<in> S. has_copy (sy_sha sys) NamespaceCAS key (fst (sent_body req)) w' n"
    using acked_put [OF assms(1-7)] by blast
  have "holders_at sys w c key = holders_at sys w me key"
    using assms(8) c(1) by (simp add: Holders_def Owners_def)
  with c(2,3) assms(15,16) have "\<not> S \<subseteq> D" by (metis card_mono leD less_le_trans)
  then obtain n where n: "n \<in> S" "n \<notin> D" by blast
  obtain m where m: "m \<in> set (r_members (co_ring (w b)))" "m_Name m = n"
    using n(1) c(1,4) assms(8,10) by fastforce
  have hc: "has_copy (sy_sha sys) NamespaceCAS key (fst (sent_body req)) w' n" using c(5) n(1) by blast
  have "node_serve sys (send sys 2) me (req\<lparr>rq_body := sent_body req\<rparr>) w = (resp, w')"
    using assms(5) by (simp add: client_request_def)
  from node_serve_steps [OF safe_peers_of [OF safe_send] this] have st: "steps (sy_sha sys) w w'" by (simp add: req_steps_def)
  have sb: "co_ring (w' b) = co_ring (w b)" "co_peers (w' b)" "all_cas_ok (sy_sha sys) w'"
    using st assms(3,12) by (simp_all add: steps_def node_setup_def)
  have up: "up_node sys2 w' x = up_node sys2 w x" for x using steps_up [OF st] .
  then have l: "clear_link sys2 w' b x = clear_link sys2 w b x" "reachable sys2 w' b x = reachable sys2 w b x" for x
    by (simp_all add: clear_link_def reachable_def)
  have ro: "set (readOrder (sy_sha sys2) (co_ring (w' b)) key) = {x \<in> set (r_members (co_ring (w b))). m_Name x \<noteq> b}"
    using rdv.owners_set [of "sy_sha sys2" "co_ring (w' b)" key] sb(1) assms(1,10) by (auto simp: readOrder_def wired_def)
  obtain resp2 w2 where r2: "client_request sys2 b req2 w' = (resp2, w2)" by fastforce
  have "rs_status resp2 = 200 \<and> (\<exists>x d. held w' x (NamespaceCAS, key) = Some d \<and> rs_body resp2 = (d, None) \<and> rs_length resp2 = int (length d))"
  proof (rule client_get_up [OF r2])
    show "rq_method req2 = ''GET''" "parsePath (rq_path req2) = Some (NamespaceCAS, key)" "isCachePath (rq_path req2)" "inboundHop req2 = HopClient"
      using assms(13) by (simp_all add: object_request_def)
    show "b \<noteq> ''''" using assms(1,10) by (auto simp: wired_def)
    show "up_node sys2 w' b" "co_peers (w' b)" using up assms(11) sb by simp_all
    show "\<forall>m \<in> set (readOrder (sy_sha sys2) (co_ring (w' b)) key). clear_link sys2 w' b m" using assms(14) l ro by simp
    have "held w' n (NamespaceCAS, key) \<noteq> None" using hc by (auto simp: has_copy_def)
    then show "held w' b (NamespaceCAS, key) \<noteq> None \<or> (\<exists>m \<in> set (readOrder (sy_sha sys2) (co_ring (w' b)) key).
        reachable sys2 w' b m \<and> held w' (m_Name m) (NamespaceCAS, key) \<noteq> None)"
      unfolding ro using m n(2) assms(14) l by (cases "n = b") auto
  qed
  then obtain x d where d: "rs_status resp2 = 200" "held w' x (NamespaceCAS, key) = Some d" "rs_body resp2 = (d, None)" by blast
  have "hex_encode (sy_sha sys d) = key" using d(2) sb(3) by (auto simp: all_cas_ok_def cas_ok_def held_def)
  with r2 d show ?thesis by blast
qed

section \<open>Witnesses\<close>

text \<open>Three nodes with empty stores and two copies of every object, over a network that \<open>net\<close> decides.\<close>

definition ex_node_ring :: "string \<Rightarrow> Ring" where
  "ex_node_ring n = \<lparr>r_members = r_members ex_ring, r_self = n\<rparr>"

definition ex_node :: world where
  "ex_node n = \<lparr>co_ring = ex_node_ring n, co_local = ex_store, co_peers = True, co_replicaCount = 2, co_high = None,
     co_stats = zero_coord_stats\<rparr>"

definition ex_hosts :: "string \<Rightarrow> string option" where
  "ex_hosts h = (if h = ''http://a:1'' then Some ''a'' else if h = ''http://b:1'' then Some ''b''
     else if h = ''http://c:1'' then Some ''c'' else None)"

definition ex_sys :: "(string \<Rightarrow> string \<Rightarrow> net_fault) \<Rightarrow> system" where
  "ex_sys net = \<lparr>sy_sha = ex_sha,
     sy_env = \<lparr>ce_put = (\<lambda>n. quiet_env '''' ''1'' 5), ce_open = (\<lambda>n t. (None, None)), ce_stat = (\<lambda>n. None),
               ce_totals = (\<lambda>n. None), ce_now = 6\<rparr>,
     sy_serve = \<lparr>sv_read = (\<lambda>n. None), sv_write = (\<lambda>n. None)\<rparr>, sy_hosts = ex_hosts, sy_net = net,
     sy_badURL = (\<lambda>u. None), sy_max = (\<lambda>n. 100), sy_mux = (\<lambda>n r w. notFound [])\<rparr>"

definition ex_upload :: http_req where
  "ex_upload = \<lparr>rq_method = ''PUT'', rq_host = ''http://c:1'', rq_path = ''/cas/'' @ ex_cas_key, rq_headers = [],
     rq_length = 2, rq_body = (ex_body, None)\<rparr>"

definition ex_download :: http_req where
  "ex_download = ex_upload\<lparr>rq_method := ''GET'', rq_length := 0, rq_body := ([], None)\<rparr>"

lemma ex_sys_sel [simp]:
  "sy_sha (ex_sys net) = ex_sha" "sy_hosts (ex_sys net) = ex_hosts" "sy_net (ex_sys net) = net" "sy_badURL (ex_sys net) u = None"
  "co_peers (ex_node n)" "co_ring (ex_node n) = ex_node_ring n" "co_local (ex_node n) = ex_store" "co_replicaCount (ex_node n) = 2"
  "r_self (ex_node_ring n) = n" "r_members (ex_node_ring n) = r_members ex_ring" "ce_open (sy_env (ex_sys net)) n t = (None, None)"
  "up_node (ex_sys net) ex_node n"
  by (simp_all add: ex_sys_def ex_node_def ex_node_ring_def up_node_def ex_store_def)

lemma ex_path:
  "parsePath (CHR ''/'' # CHR ''c'' # CHR ''a'' # CHR ''s'' # CHR ''/'' # ex_cas_key) = Some (NamespaceCAS, ex_cas_key)"
  "isCachePath (CHR ''/'' # CHR ''c'' # CHR ''a'' # CHR ''s'' # CHR ''/'' # ex_cas_key)"
  using parsePath_object [OF _ ex_cas_key_valid, of NamespaceCAS] isCachePath_object [of NamespaceCAS ex_cas_key]
  by (simp_all add: ns_Valid_def NamespaceCAS_def)

lemma ex_requests:
  "object_request ''PUT'' NamespaceCAS ex_cas_key ex_upload" "object_request ''GET'' NamespaceCAS ex_cas_key ex_download"
  by (simp_all add: object_request_def ex_upload_def ex_download_def ex_path inboundHop_def header_get_def)

lemma ex_members: "map (\<lambda>m. (m_Name m, m_URL m)) (r_members ex_ring) = [(''a'', ''http://a:1''), (''b'', ''http://b:1''), (''c'', ''http://c:1'')]"
  by code_simp

lemma ex_member_host:
  assumes "m \<in> set (r_members ex_ring)"
  shows "ex_hosts (m_URL m) = Some (m_Name m) \<and> m_Name m \<in> {''a'', ''b'', ''c''}"
proof -
  have "(m_Name m, m_URL m) \<in> set (map (\<lambda>m. (m_Name m, m_URL m)) (r_members ex_ring))" using assms by auto
  then show ?thesis unfolding ex_members by (auto simp: ex_hosts_def)
qed

lemma ex_wired: "wired (ex_sys net) {''a'', ''b'', ''c''} ex_node"
proof -
  have n: "map m_Name (r_members ex_ring) = [''a'', ''b'', ''c'']"
    using arg_cong [OF ex_members, of "map fst"] by (simp add: comp_def)
  have "ring_ok ex_sha ex_ring" by (rule New_ring_ok [OF ex_ring_New])
  then have "ring_ok ex_sha (ex_node_ring x)" if "x \<in> {''a'', ''b'', ''c''}" for x
    using that by (auto simp: ring_ok_def ex_node_ring_def n)
  then show ?thesis using ex_member_host by (auto simp: wired_def ex_hosts_def split: if_splits)
qed

lemma ex_all_cas_ok: "all_cas_ok ex_sha ex_node"
  using ex_cas_ok by (simp add: all_cas_ok_def)

lemma ex_holders:
  "\<exists>m n. (\<forall>x. Holders ex_sha (ex_node_ring x) ex_cas_key 2 = [m, n]) \<and> m_Name m = ''b'' \<and> m_Name n = ''a'' \<and>
     m_URL m = ''http://b:1'' \<and> m_URL n = ''http://a:1''"
proof -
  have "map (\<lambda>m. (m_Name m, m_URL m)) (Holders ex_sha (ex_node_ring ''a'') ex_cas_key 2) = [(''b'', ''http://b:1''), (''a'', ''http://a:1'')]"
    by code_simp
  moreover have "Holders ex_sha (ex_node_ring x) ex_cas_key 2 = Holders ex_sha (ex_node_ring ''a'') ex_cas_key 2" for x
    by (simp add: Holders_def Owners_def ex_node_ring_def)
  ultimately show ?thesis by auto
qed

lemma ex_read_order:
  "\<exists>m n. readOrder ex_sha (ex_node_ring ''a'') ex_cas_key = [m, n] \<and> m_URL m = ''http://b:1'' \<and> m_URL n = ''http://c:1''"
proof -
  have "map m_URL (readOrder ex_sha (ex_node_ring ''a'') ex_cas_key) = [''http://b:1'', ''http://c:1'']" by code_simp
  then show ?thesis by auto
qed

text \<open>The definitions that evaluate a request.\<close>

lemmas ex_eval = client_request_def numeral_2_eq_2 node_serve_def nodeHeader_def routeCache_def ServeHTTP_def sent_body_def ex_path
  inboundHop_def header_get_def backend_of_def local_Get_def Let_def set_store_def bump_def Terminal_def cbump_def peers_of_def
  newRequest_def objectURL_def peer_client_def ex_hosts_def NamespaceCAS_def HeaderForwardedBy_def HeaderHop_def ParseHop_def
  write_error_def client_view_def ns_Valid_def NamespaceAC_def ex_sys_def ex_node_def ex_cas_key_valid

lemma ex_miss: "rs_status (fst (client_request (ex_sys (\<lambda>x y. NetOk)) ''a'' ex_download ex_node)) = 404"
proof -
  obtain m n where "readOrder ex_sha (ex_node_ring ''a'') ex_cas_key = [m, n]" "m_URL m = ''http://b:1''" "m_URL n = ''http://c:1''"
    using ex_read_order by blast
  then show ?thesis
    by (simp add: ex_eval ex_download_def ex_upload_def serveGet_def c_Open_def store_Get_def ex_store_def peer_Get_def writeGetError_def
        httpError_def notFound_def miss_error_def)
qed

text \<open>The upload reaches \<open>c\<close>, which is no holder; \<open>b\<close> coordinates it and sends a copy to \<open>a\<close>.\<close>

lemma ex_acked: "rs_status (fst (client_request (ex_sys (\<lambda>x y. NetOk)) ''c'' ex_upload ex_node)) = 201"
proof -
  obtain m n where r: "\<And>x. Holders ex_sha (ex_node_ring x) ex_cas_key 2 = [m, n]" "m_URL m = ''http://b:1''" "m_URL n = ''http://a:1''"
    "m_Name m = ''b''" "m_Name n = ''a''"
    using ex_holders by blast
  obtain res s1 where P: "Put ex_sha NamespaceCAS ex_cas_key 2 (quiet_env ex_body ''1'' 5) ex_store = (Inr res, s1)" using ex_put by blast
  have na: "\<not> pr_AlreadyStored res" using Put_stored [OF P] ex_objects by auto
  note pp = Put_published [OF P na]
  have sz: "pr_Size res = 2" by (subst pp(8)) (simp add: quiet_env_def ex_body_def)
  have "objects s1 (NamespaceCAS, ex_cas_key) = Some ex_body" using Put_objects [OF P] na pp(3) by (simp add: quiet_env_def)
  moreover have "\<not> s_closed s1" using Put_frame [OF P] by (simp add: ex_store_def)
  ultimately obtain ob s2 where G: "store_Get NamespaceCAS ex_cas_key None None 6 s1 = (Inr ob, s2)" "o_data ob = ex_body"
    using store_Get_found [of s1 NamespaceCAS ex_cas_key ex_body 6] by blast
  have q: "(quiet_env [] ''1'' 5)\<lparr>pe_body := ''hi'', pe_body_err := None\<rparr> = quiet_env ''hi'' ''1'' 5" by (simp add: quiet_env_def)
  note P = P [unfolded ex_body_def NamespaceCAS_def] and G = G [unfolded ex_body_def NamespaceCAS_def]
  show ?thesis
    by (simp add: ex_eval ex_upload_def servePut_def c_Put_def selfIn_def proxyPut_def coordinate_def local_Put_def ex_body_def r
        peer_Put_def q P G na sz replicateOne_def acked_def causes_of_def map_filter_def putLocalOnly_def)
qed

lemma ex_hosts_named: "ex_hosts h = Some n \<Longrightarrow> n \<noteq> ''''"
  by (auto simp: ex_hosts_def split: if_splits)

theorem forwarding_bounded_witness:
  "node_serve (ex_sys (\<lambda>x y. NetOk)) (send (ex_sys (\<lambda>x y. NetOk)) 7) ''c'' ex_upload ex_node =
   node_serve (ex_sys (\<lambda>x y. NetOk)) (send (ex_sys (\<lambda>x y. NetOk)) 2) ''c'' ex_upload ex_node"
  by (rule forwarding_bounded) (use ex_hosts_named in auto)

theorem cluster_invariant_witness:
  "all_cas_ok ex_sha (snd (client_request (ex_sys (\<lambda>x y. NetOk)) ''c'' ex_upload ex_node))"
  using cluster_invariant [of "ex_sys (\<lambda>x y. NetOk)" ex_node "''c''" ex_upload] ex_all_cas_ok by simp


definition ex_stored :: world where
  "ex_stored = ex_node(''a'' := (ex_node ''a'')\<lparr>co_local := ex_store_with NamespaceCAS ex_body\<rparr>)"

lemma ex_stored_sel [simp]:
  "co_ring (ex_stored n) = ex_node_ring n" "co_replicaCount (ex_stored n) = 2" "co_high (ex_stored n) = None"
  "co_local (ex_stored n) = (if n = ''a'' then ex_store_with NamespaceCAS ex_body else ex_store)"
  by (simp_all add: ex_stored_def ex_node_def)

lemma ex_stored_objects: "objects (ex_store_with NamespaceCAS ex_body) = [(NamespaceCAS, ex_cas_key) \<mapsto> ex_body]"
proof
  fix x :: objRef
  show "objects (ex_store_with NamespaceCAS ex_body) x = [(NamespaceCAS, ex_cas_key) \<mapsto> ex_body] x"
    by (cases x) (auto simp: visible_def regular_at_def ex_store_with_def ex_store_def ex_cas_key_valid object_path_inj split: if_splits)
qed

lemma ex_stored_facts:
  "wired (ex_sys net) {''a'', ''b'', ''c''} ex_stored" "all_cas_ok ex_sha ex_stored" "plain_faults (ex_sys (\<lambda>x y. NetOk))"
  "held ex_stored ''a'' (NamespaceCAS, ex_cas_key) = Some ex_body" "held ex_stored ''b'' = (\<lambda>_. None)"
proof -
  show "wired (ex_sys net) {''a'', ''b'', ''c''} ex_stored" using ex_wired [of net] by (simp add: wired_def)
  show "plain_faults (ex_sys (\<lambda>x y. NetOk))" by (simp add: plain_faults_def ex_sys_def)
  show "all_cas_ok ex_sha ex_stored"
    using ex_cas_ok by (auto simp: all_cas_ok_def cas_ok_def ex_stored_objects [simplified] ex_cas_key_def)
  show "held ex_stored ''a'' (NamespaceCAS, ex_cas_key) = Some ex_body" "held ex_stored ''b'' = (\<lambda>_. None)"
    by (simp_all add: held_def ex_stored_objects [simplified] ex_objects)
qed

theorem read_returns_stored_witness:
  "\<exists>resp w' n d. client_request (ex_sys (\<lambda>x y. NetOk)) ''a'' ex_download ex_stored = (resp, w') \<and> rs_status resp = 200 \<and>
     held ex_stored n (NamespaceCAS, ex_cas_key) = Some d \<and> rs_length resp = int (length d)"
proof -
  let ?sys = "ex_sys (\<lambda>x y. NetOk)"
  obtain resp w' where r: "client_request ?sys ''a'' ex_download ex_stored = (resp, w')" by fastforce
  have up: "up_node ?sys ex_stored ''a''" by (simp add: up_node_def ex_sys_def)
  have sv: "node_serve ?sys (send ?sys 2) ''a'' (ex_download\<lparr>rq_body := sent_body ex_download\<rparr>) ex_stored = (resp, w')"
    using r by (simp add: client_request_def)
  have st: "rs_status resp = 200"
    using terminal_get_up [OF sv _ _ _ up ex_stored_facts(4)] ex_requests(2) by (simp add: object_request_def)
  with read_returns_stored [OF _ _ ex_requests(2) r st] ex_stored_facts(2) r show ?thesis by auto
qed

theorem no_false_miss_witness:
  "rs_status (fst (client_request (ex_sys (\<lambda>x y. NetOk)) ''a'' ex_download ex_node)) = 404 \<and>
   held ex_node ''a'' (NamespaceCAS, ex_cas_key) = None"
proof -
  let ?sys = "ex_sys (\<lambda>x y. NetOk)"
  obtain resp w' where r: "client_request ?sys ''a'' ex_download ex_node = (resp, w')" by fastforce
  with ex_miss have "rs_status resp = 404" by simp
  from no_false_miss [OF ex_wired _ _ _ ex_requests(2) r this] ex_miss show ?thesis by (simp add: plain_faults_def ex_sys_def)
qed

theorem acked_object_survives_witness:
  "\<exists>resp w' resp2 w2 d. client_request (ex_sys (\<lambda>x y. NetOk)) ''c'' ex_upload ex_node = (resp, w') \<and>
     client_request (ex_sys (\<lambda>x y. if y = ''b'' then NetDown (IoErr ''connection refused'') else NetOk)) ''c'' ex_download w' = (resp2, w2) \<and>
     rs_status resp2 = 200 \<and> rs_body resp2 = (d, None) \<and> hex_encode (ex_sha d) = ex_cas_key"
proof -
  let ?sys = "ex_sys (\<lambda>x y. NetOk)"
  let ?sys2 = "ex_sys (\<lambda>x y. if y = ''b'' then NetDown (IoErr ''connection refused'') else NetOk)"
  obtain resp w' where r: "client_request ?sys ''c'' ex_upload ex_node = (resp, w')" by fastforce
  with ex_acked have st: "200 \<le> rs_status resp" "rs_status resp < 300" by simp_all
  have "\<exists>resp2 w2 d. client_request ?sys2 ''c'' ex_download w' = (resp2, w2) \<and> rs_status resp2 = 200 \<and> rs_body resp2 = (d, None) \<and>
     hex_encode (sy_sha ?sys d) = ex_cas_key"
    by (rule acked_object_survives [OF ex_wired _ _ ex_requests(1) r st, of ?sys2 "''c''" ex_download "{''b''}"])
      (use ex_all_cas_ok ex_requests(2) ex_member_host ex_holders in \<open>auto simp: clear_link_def reachable_def\<close>)
  with r show ?thesis by auto
qed

end
