(* ===== verification/RepairTheorems.thy ===== *)
theory RepairTheorems
  imports RepairWorker ClusterTheorems
begin

text \<open>
  Repair on the whole cluster: the worker of one node reaches the other holders through the peer client,
  their HTTP handlers and their stores.
\<close>

section \<open>Repair through the network\<close>

interpretation rpr: repair_peers "sy_sha sys" "peers_of sys (send sys (Suc n)) (c # me)" "\<lambda>m. sy_hosts sys (m_URL m)" "plain_faults sys"
  for sys n c me
  by unfold_locales

text \<open>The repair of one task on node \<open>me\<close>. A repair write is terminal, so fuel for one forward is enough.\<close>

definition node_repair :: "system \<Rightarrow> (Member \<Rightarrow> go_error option) \<Rightarrow> string \<Rightarrow> Task \<Rightarrow> Worker \<times> world \<Rightarrow> Worker \<times> world" where
  "node_repair sys ctx me task s = repair (sy_sha sys) (peers_of sys (send sys 1) me) (sy_env sys) ctx me task s"

lemma wired_holders:
  assumes "wired sys N w" "me \<in> N"
  shows "set (holders_at sys w me key) \<subseteq> set (r_members (co_ring (w me)))" "distinct (map m_Name (holders_at sys w me key))"
    "\<forall>m \<in> set (holders_at sys w me key). sy_hosts sys (m_URL m) = Some (m_Name m)" "r_self (co_ring (w me)) = me" "me \<noteq> ''''"
proof -
  have wd: "r_self (co_ring (w me)) = me" "ring_ok (sy_sha sys) (co_ring (w me))"
    "\<forall>m \<in> set (r_members (co_ring (w me))). sy_hosts sys (m_URL m) = Some (m_Name m)"
    using assms by (auto simp: wired_def)
  show sub: "set (holders_at sys w me key) \<subseteq> set (r_members (co_ring (w me)))"
    using rdv.prefix_members by (simp add: Holders_take)
  have "distinct (map m_Name (Owners (sy_sha sys) (co_ring (w me)) key))"
    using wd(2) Owners_perm [of "sy_sha sys" "co_ring (w me)" key]
    by (metis distinct_map mset_eq_imp_distinct_iff mset_map ring_ok_def)
  then show "distinct (map m_Name (holders_at sys w me key))" by (simp add: Holders_take take_map [symmetric])
  show "\<forall>m \<in> set (holders_at sys w me key). sy_hosts sys (m_URL m) = Some (m_Name m)" using wd(3) sub by blast
  show "r_self (co_ring (w me)) = me" "me \<noteq> ''''" using wd(1) assms by (auto simp: wired_def)
qed

lemma repair_fills:
  assumes "node_repair sys ctx me task (rw, w) = (rw', w')" "wired sys N w" "me \<in> N" "plain_faults sys"
    "ns_Valid (tk_ns task)" "valid_key (tk_key task)"
  shows "held w' = held w \<or> (\<exists>d. held w me (tk_ns task, tk_key task) = Some d \<and>
     fills (m_Name ` set (holders_at sys w me (tk_key task)) - {me}) (tk_ns task, tk_key task) d w w')"
proof -
  note h = wired_holders(1-3) [OF assms(2,3), of "tk_key task"] wired_holders(4,5) [OF assms(2,3)]
  obtain c cs where me: "me = c # cs" using h(5) by (cases me) auto
  obtain st w1 where s: "local_Stat (sy_env sys) me (tk_ns task) (tk_key task) w = (st, w1)" by fastforce
  note h1 = local_Stat_frame(1) [OF s]
  show ?thesis
  proof (cases st)
    case (Inl e)
    with assms(1) s h1 show ?thesis by (simp add: node_repair_def repair_def)
  next
    case (Inr t)
    obtain s1 where "store_Stat (tk_ns task) (tk_key task) (ce_stat (sy_env sys) me) (ce_now (sy_env sys)) (co_local (w me)) = (Inr t, s1)"
      using s Inr by (auto simp: local_Stat_def split: prod.splits)
    from store_Stat_Inr [OF this] obtain d where d: "held w me (tk_ns task, tk_key task) = Some d" "t_Size t = int (length d)"
      by (auto simp: held_def)
    have r: "repair_holders (peers_of sys (send sys (Suc 0)) me) (sy_env sys) ctx me me task (t_Size t) (holders_at sys w me (tk_key task)) (rw, w1) = (rw', w')"
      using assms(1) s Inr h(4) by (simp add: node_repair_def repair_def)
    have "fills (m_Name ` set (holders_at sys w me (tk_key task)) - {me}) (tk_ns task, tk_key task) d w1 w'"
      by (rule rpr.repair_holders_fills [OF r [unfolded me], folded me]) (use assms(4-6) h(2,3) d h1 me in auto)
    with h1 d(1) show ?thesis by (auto simp: fills_def)
  qed
qed

section \<open>Lemmas: a repair in which nothing fails\<close>

text \<open>A node that can take a copy of \<open>sz\<close> bytes: open, below its limits and its high water mark, on a working
  disk.\<close>

definition can_take :: "system \<Rightarrow> world \<Rightarrow> string \<Rightarrow> int \<Rightarrow> bool" where
  "can_take sys w n sz \<longleftrightarrow>
     (\<exists>x suffix now. ce_put (sy_env sys) n = quiet_env x suffix now \<and>
        mget (s_fs (co_local (w n))) (s_root (co_local (w n)) @ [''tmp'', tmpPrefix @ suffix]) = None) \<and>
     \<not> s_closed (co_local (w n)) \<and> (s_maxObject (co_local (w n)) > 0 \<longrightarrow> sz \<le> s_maxObject (co_local (w n))) \<and>
     (sy_max sys n > 0 \<longrightarrow> sz \<le> sy_max sys n) \<and> \<not> fst (overHighWater (sy_env sys) n w) \<and> ce_stat (sy_env sys) n = None"

lemma quiet_env_body [simp]: "(quiet_env x suffix now)\<lparr>pe_body := b, pe_body_err := None\<rparr> = quiet_env b suffix now"
  by (simp add: quiet_env_def)

lemma repair_put_up:
  assumes "node_serve sys tr me req w = (resp, w')" "rq_method req = ''PUT''" "parsePath (rq_path req) = Some (ns, key)"
    "isCachePath (rq_path req)" "inboundHop req = HopRepair" "rq_body req = (d, None)" "rq_length req = int (length d)"
    "can_take sys w me (int (length d))" "ns = NamespaceCAS \<longrightarrow> hex_encode (sy_sha sys d) = key"
  shows "rs_status resp = 200 \<or> rs_status resp = 201"
proof -
  have ok: "ns_Valid ns" "valid_key key" using parsePath_Some [OF assms(3)] by auto
  obtain x suffix now where q: "ce_put (sy_env sys) me = quiet_env x suffix now"
    "mget (s_fs (co_local (w me))) (s_root (co_local (w me)) @ [''tmp'', tmpPrefix @ suffix]) = None"
    using assms(8) by (auto simp: can_take_def)
  obtain res s' where P: "Put (sy_sha sys) ns key (int (length d)) (quiet_env d suffix now) (co_local (w me)) = (Inr res, s')"
    using Put_quiet [of "co_local (w me)" ns key d "int (length d)" "sy_sha sys" suffix now] assms(8,9) ok q(2)
    by (auto simp: can_take_def ContentAddressed_def)
  obtain oc v where "c_Put (sy_sha sys) (peers_of sys tr me) (sy_env sys) me ns key (rq_body req) (rq_length req) HopRepair w = ((oc, None), v)"
    using P q(1) assms(6-8) by (auto simp: c_Put_def putLocalOnly_def local_Put_def can_take_def)
  moreover have "\<not> (sy_max sys me > 0 \<and> rq_length req > sy_max sys me)" using assms(7,8) by (auto simp: can_take_def)
  ultimately have "\<exists>r0. servePut (sy_max sys me) (backend_of sys tr me) ns key HopRepair req w = (r0, v) \<and> (rs_status r0 = 200 \<or> rs_status r0 = 201)"
    by (auto simp: servePut_def Let_def)
  with assms(1-5) show ?thesis
    by (auto simp: node_serve_def nodeHeader_def routeCache_def ServeHTTP_def Let_def split: prod.splits)
qed

lemma peer_Put_up:
  assumes "pp_Put (peers_of sys (send sys (Suc k)) me) m ns key (d, None) (int (length d)) HopRepair w = (r, w')" "me \<noteq> ''''"
    "sy_hosts sys (m_URL m) = Some (m_Name m)" "sy_badURL sys (objectURL m ns key) = None" "sy_net sys me (m_Name m) = NetOk"
    "can_take sys w (m_Name m) (int (length d))" "ns = NamespaceCAS \<longrightarrow> hex_encode (sy_sha sys d) = key" "ns_Valid ns" "valid_key key"
  shows "r = None"
proof -
  let ?c = "peer_client sys me"
  obtain req0 where r0: "newRequest ?c ''PUT'' m ns key (d, None) (int (length d)) HopRepair = Inr req0"
    using assms(4) by (simp add: newRequest_def peer_client_def)
  have c: "pc_self ?c \<noteq> ''''" using assms(2) by (simp add: peer_client_def)
  note nr = newRequest_Inr [OF r0] and ih = inboundHop_newRequest [OF r0 c]
  let ?req = "req0\<lparr>rq_headers := mput ''Content-Type'' ''application/octet-stream'' (rq_headers req0)\<rparr>"
  have b: "sent_body ?req = rq_body ?req" "write_error ?req = None" using nr by (simp_all add: sent_body_def write_error_def)
  obtain resp v where s: "node_serve sys (send sys k) (m_Name m) (?req\<lparr>rq_body := rq_body ?req\<rparr>) w = (resp, v)" by fastforce
  have "rs_status resp = 200 \<or> rs_status resp = 201"
    by (rule repair_put_up [OF s, of ns key d])
      (use nr ih assms(6,7) parsePath_object [OF assms(8,9)] isCachePath_object [OF assms(8)] in simp_all)
  then show ?thesis
    using assms(1,3,5) r0 s b nr by (auto simp: peers_of_def peer_Put_def Let_def)
qed

lemma peer_Stat_up:
  assumes "pp_Stat (peers_of sys (send sys (Suc k)) me) m ns key HopRead w = (r, w')" "me \<noteq> ''''"
    "sy_hosts sys (m_URL m) = Some (m_Name m)" "sy_badURL sys (objectURL m ns key) = None" "sy_net sys me (m_Name m) = NetOk"
    "ce_stat (sy_env sys) (m_Name m) = None" "ns_Valid ns" "valid_key key"
  shows "(\<exists>info. r = Inr info) \<or> r = Inl ErrPeerNotFound"
proof (rule peer_Stat_served [OF assms(1,2)])
  fix e assume "\<forall>dst. sy_hosts sys (m_URL m) = Some dst \<longrightarrow> sy_badURL sys (objectURL m ns key) = None \<longrightarrow> sy_net sys me dst \<noteq> NetOk"
  with assms(3-5) show ?thesis by blast
next
  fix dst req resp and x :: http_resp
  assume r: "sy_hosts sys (m_URL m) = Some dst" "inboundHop req = HopRead" "rq_method req = ''HEAD''"
      "rq_path req = ''/'' @ ns @ ''/'' @ key" "node_serve sys (send sys k) dst req w = (resp, w')" "rs_status x = rs_status resp"
    and rr: "r = (if rs_status x = 200 then Inr \<lparr>oi_Size = rs_length x, oi_Source = m_Name m\<rparr>
            else if rs_status x = 404 then Inl ErrPeerNotFound
            else Inl (PeerError (m_Name m) ''stat'' (rs_status x) [] None))"
  have dst: "dst = m_Name m" using r(1) assms(3) by simp
  have "rs_status resp = 200 \<or> rs_status resp = 404"
    using r(2-5) dst assms(6-8) parsePath_object [OF assms(7,8)] isCachePath_object [OF assms(7)]
    by (auto simp: node_serve_def nodeHeader_def routeCache_def ServeHTTP_def serveGet_def c_Stat_def local_Stat_def store_Stat_def
        Terminal_def writeGetError_def Let_def split: prod.splits sum.splits option.splits if_splits)
  with rr r(6) show ?thesis by auto
qed

lemma can_take_cong:
  "co_local (w' n) = co_local (w n) \<Longrightarrow> co_high (w' n) = co_high (w n) \<Longrightarrow> can_take sys w' n sz = can_take sys w n sz"
  by (simp add: can_take_def overHighWater_def cong: option.case_cong)

lemma sendCopy_up:
  assumes "sendCopy (peers_of sys (send sys (Suc 0)) me) (sy_env sys) me m task (int (length d)) w = (r, w')" "me \<noteq> ''''"
    "sy_hosts sys (m_URL m) = Some (m_Name m)" "\<And>ns key. sy_badURL sys (objectURL m ns key) = None" "sy_net sys me (m_Name m) = NetOk"
    "can_take sys w (m_Name m) (int (length d))" "tk_ns task = NamespaceCAS \<longrightarrow> hex_encode (sy_sha sys d) = tk_key task"
    "ns_Valid (tk_ns task)" "valid_key (tk_key task)" "\<And>x. ce_open (sy_env sys) me x = (None, None)" "\<not> s_closed (co_local (w me))"
    "held w me (tk_ns task, tk_key task) = Some d" "all_cas_ok (sy_sha sys) w" "m_Name m \<noteq> me"
  shows "held w' (m_Name m) (tk_ns task, tk_key task) \<noteq> None"
proof -
  obtain c cs where me: "me = c # cs" using assms(2) by (cases me) auto
  have "objects (co_local (w me)) (tk_ns task, tk_key task) = Some d" using assms(12) by (simp add: held_def)
  from store_Get_found [OF this assms(11), of "ce_now (sy_env sys)"] assms(10)
  obtain ob w1 where g: "local_Get (sy_env sys) me (m_Name m) (tk_ns task) (tk_key task) w = (Inr ob, w1)" "o_data ob = d"
    by (auto simp: local_Get_def)
  obtain q w2 where p: "pp_Put (peers_of sys (send sys (Suc 0)) me) m (tk_ns task) (tk_key task) (o_data ob, None) (int (length d)) HopRepair w1 = (q, w2)"
    by fastforce
  have w': "w' = set_store me (obj_Close ob (co_local (w2 me))) w2" using assms(1) g p by (simp add: sendCopy_def del: send.simps)
  have "can_take sys w1 (m_Name m) (int (length d))" using assms(6,14) local_Get_frame(3) [OF g(1)] can_take_cong [of w1 "m_Name m" w] by simp
  then have "q = None"
    using peer_Put_up [OF _ assms(2,3) assms(4) assms(5) _ assms(7-9)] p g(2) by blast
  note p = p [unfolded this]
  have T: "Terminal HopRepair" by (simp add: Terminal_def)
  have "has_copy (sy_sha sys) (tk_ns task) (tk_key task) d w me"
    using assms(7,12) by (simp add: has_copy_def)
  from rp.send_local_copy [OF g(1) [unfolded me] p [unfolded me] w' [unfolded me] T assms(3,8,9,13) this [unfolded me]]
  show ?thesis by (auto simp: has_copy_def)
qed

lemma sendCopy_frame:
  assumes "sendCopy (peers_of sys (send sys (Suc 0)) me) env me m task sz w = (r, w')" "me \<noteq> []" "sy_hosts sys (m_URL m) = Some (m_Name m)"
    "n \<noteq> me" "n \<noteq> m_Name m"
  shows "w' n = w n"
proof -
  obtain c cs where me: "me = c # cs" using assms(2) by (cases me) auto
  obtain g w1 where g: "local_Get env me (m_Name m) (tk_ns task) (tk_key task) w = (g, w1)" by fastforce
  show ?thesis
  proof (cases g)
    case (Inl e)
    with assms(1,4) g local_Get_frame(3) [OF g] show ?thesis by (simp add: sendCopy_def)
  next
    case (Inr ob)
    obtain q w2 where p: "pp_Put (peers_of sys (send sys (Suc 0)) me) m (tk_ns task) (tk_key task) (o_data ob, None) sz HopRepair w1 = (q, w2)"
      by fastforce
    have w': "w' = set_store me (obj_Close ob (co_local (w2 me))) w2" using assms(1) g Inr p by (simp add: sendCopy_def del: send.simps)
    have T: "Terminal HopRepair" by (simp add: Terminal_def)
    from rp.send_local_frame(1) [OF g [unfolded Inr me] p [unfolded me] w' [unfolded me] T assms(3)] assms(4,5) me show ?thesis by simp
  qed
qed

lemma repair_holders_up:
  assumes "repair_holders (peers_of sys (send sys (Suc 0)) me) (sy_env sys) ctx me me task (int (length d)) ms (rw, w) = (rw', w')" "me \<noteq> ''''"
    "\<forall>m \<in> set ms. sy_hosts sys (m_URL m) = Some (m_Name m)" "distinct (map m_Name ms)" "\<And>m. ctx m = None" "plain_faults sys"
    "ns_Valid (tk_ns task)" "valid_key (tk_key task)" "tk_ns task = NamespaceCAS \<longrightarrow> hex_encode (sy_sha sys d) = tk_key task"
    "\<And>x. ce_open (sy_env sys) me x = (None, None)" "\<not> s_closed (co_local (w me))"
    "held w me (tk_ns task, tk_key task) = Some d" "all_cas_ok (sy_sha sys) w"
    "\<forall>m \<in> set ms. m_Name m \<noteq> me \<longrightarrow> (\<forall>ns key. sy_badURL sys (objectURL m ns key) = None) \<and> sy_net sys me (m_Name m) = NetOk \<and>
       can_take sys w (m_Name m) (int (length d))"
  shows "\<forall>m \<in> set ms. held w' (m_Name m) (tk_ns task, tk_key task) \<noteq> None"
  using assms(1,3,4,11-14)
proof (induction ms arbitrary: rw w)
  case (Cons m ms)
  let ?pc = "peers_of sys (send sys (Suc 0)) me" and ?ref = "(tk_ns task, tk_key task)" and ?sz = "int (length d)"
  obtain c cs where me: "me = c # cs" using assms(2) by (cases me) auto
  have fills: "fills (m_Name ` set xs - {me}) ?ref d v w'"
    if "repair_holders ?pc (sy_env sys) ctx me me task ?sz xs (rw1, v) = (rw', w')" "held v me ?ref = Some d" "set xs \<subseteq> set (m # ms)" "distinct (map m_Name xs)"
    for rw1 v xs
    by (rule rpr.repair_holders_fills [OF that(1) [unfolded me], folded me]) (use assms(6-8) that(2-4) Cons.prems(2) me in auto)
  have IH: "\<forall>x \<in> set ms. held w' (m_Name x) ?ref \<noteq> None"
    if "repair_holders ?pc (sy_env sys) ctx me me task ?sz ms (rw1, v) = (rw', w')" "steps (sy_sha sys) w v" "held v me ?ref = Some d"
      "\<And>n. n \<noteq> me \<Longrightarrow> n \<noteq> m_Name m \<Longrightarrow> v n = w n" for rw1 v
  proof (rule Cons.IH [OF that(1)])
    show "\<not> s_closed (co_local (v me))" "all_cas_ok (sy_sha sys) v" using that(2) Cons.prems(4,6) by (simp_all add: steps_def node_setup_def)
    have "can_take sys v (m_Name x) ?sz" if x: "x \<in> set ms" "m_Name x \<noteq> me" for x
    proof -
      have "m_Name x \<noteq> m_Name m" using x(1) Cons.prems(3) by (metis distinct.simps(2) image_eqI list.set_map list.simps(9))
      then have "v (m_Name x) = w (m_Name x)" using \<open>\<And>n. n \<noteq> me \<Longrightarrow> n \<noteq> m_Name m \<Longrightarrow> v n = w n\<close> x(2) by blast
      with can_take_cong [of v "m_Name x" w] Cons.prems(7) x show ?thesis by simp
    qed
    then show "\<forall>x \<in> set ms. m_Name x \<noteq> me \<longrightarrow> (\<forall>ns key. sy_badURL sys (objectURL x ns key) = None) \<and> sy_net sys me (m_Name x) = NetOk \<and>
       can_take sys v (m_Name x) ?sz"
      using Cons.prems(7) by auto
  qed (use Cons.prems that(3) in auto)
  have mono: "held w' n ?ref \<noteq> None"
    if "repair_holders ?pc (sy_env sys) ctx me me task ?sz ms (rw1, v) = (rw', w')" "held v me ?ref = Some d" "held v n ?ref \<noteq> None" for rw1 v n
    using fills [OF that(1,2)] that(3) Cons.prems(3) unfolding fills_def by (metis distinct.simps(2) list.simps(9) set_subset_Cons)
  show ?case
  proof (cases "m_Name m = me")
    case True
    with Cons.prems(1) have r: "repair_holders ?pc (sy_env sys) ctx me me task ?sz ms (rw, w) = (rw', w')" by (simp del: send.simps)
    from IH [OF r _ Cons.prems(5)] mono [OF r Cons.prems(5), of me] Cons.prems(5) True show ?thesis by auto
  next
    case False
    have mm: "sy_hosts sys (m_URL m) = Some (m_Name m)" "\<And>ns key. sy_badURL sys (objectURL m ns key) = None" "sy_net sys me (m_Name m) = NetOk"
      "can_take sys w (m_Name m) ?sz" using Cons.prems(2,7) False by auto
    obtain st w1 where s: "pp_Stat ?pc m (tk_ns task) (tk_key task) HopRead w = (st, w1)" by fastforce
    note ks = sp.stat_steps [OF s]
    have fr1: "w1 n = w n" if "n \<noteq> m_Name m" for n using rd.stat_frame [OF s [unfolded me]] mm(1) that by auto
    have me1: "held w1 me ?ref = Some d" using ks Cons.prems(5) by simp
    have "(\<exists>info. st = Inr info) \<or> st = Inl ErrPeerNotFound"
      using peer_Stat_up [OF s assms(2) mm(1,2,3) _ assms(7,8)] mm(4) by (auto simp: can_take_def)
    then show ?thesis
    proof
      assume "\<exists>info. st = Inr info"
      then obtain info where i: "st = Inr info" by blast
      then obtain rw1 where r: "repair_holders ?pc (sy_env sys) ctx me me task ?sz ms (rw1, w1) = (rw', w')"
        using Cons.prems(1) False s assms(5) [of m] by (auto simp del: send.simps)
      have "held w1 (m_Name m) ?ref \<noteq> None" using rd.stat_data [OF s [unfolded i me] assms(7,8)] mm(1) ks by auto
      from mono [OF r me1 this] IH [OF r _ me1] ks fr1 show ?thesis by auto
    next
      assume i: "st = Inl ErrPeerNotFound"
      obtain q w2 where cp: "sendCopy ?pc (sy_env sys) me m task ?sz w1 = (q, w2)" by fastforce
      obtain rw1 where r: "repair_holders ?pc (sy_env sys) ctx me me task ?sz ms (rw1, w2) = (rw', w')"
        using Cons.prems(1) False s assms(5) [of m] i cp by (auto simp del: send.simps split: option.splits)
      have gone: "held w1 (m_Name m) ?ref = None" "co_local (w1 (m_Name m)) = co_local (w (m_Name m))"
        using rd.stat_missing [OF s [unfolded i me] assms(7,8,6)] mm(1) ks by auto
      have ct: "can_take sys w1 (m_Name m) ?sz" using mm(4) gone(2) ks can_take_cong [of w1 "m_Name m" w] by (simp add: steps_def node_setup_def)
      have cl: "\<not> s_closed (co_local (w1 me))" "all_cas_ok (sy_sha sys) w1" using ks Cons.prems(4,6) by (simp_all add: steps_def node_setup_def)
      have "held w2 (m_Name m) ?ref \<noteq> None"
        using sendCopy_up [OF cp assms(2) mm(1-3) ct assms(9,7,8,10) cl(1) me1 cl(2) False] .
      moreover have f: "fills {m_Name m} ?ref d w1 w2"
        using rpr.sendCopy_fills [OF cp [unfolded me] assms(7,8) mm(1) False [unfolded me] me1 [unfolded me] refl gone(1)] .
      have me2: "held w2 me ?ref = Some d" using f me1 False unfolding fills_def by (metis singletonD)
      have st2: "steps (sy_sha sys) w w2" using ks rpr.sendCopy_steps [OF cp [unfolded me]] steps_trans by blast
      have fr2: "w2 n = w n" if "n \<noteq> me" "n \<noteq> m_Name m" for n
        using sendCopy_frame [OF cp assms(2) mm(1) that] fr1 [OF that(2)] by simp
      from calculation mono [OF r me2] IH [OF r st2 me2 fr2] show ?thesis by auto
    qed
  qed
qed simp

lemma repair_holders_steps:
  "repair_holders (peers_of sys (send sys (Suc 0)) me) env ctx me self task sz ms (rw, w) = (rw', w') \<Longrightarrow> me \<noteq> [] \<Longrightarrow>
     steps (sy_sha sys) w w'"
proof (induction ms arbitrary: rw w)
  case (Cons m ms)
  let ?pc = "peers_of sys (send sys (Suc 0)) me"
  obtain c cs where me: "me = c # cs" using Cons.prems(2) by (cases me) auto
  obtain st w1 where s: "pp_Stat ?pc m (tk_ns task) (tk_key task) HopRead w = (st, w1)" by fastforce
  obtain q w2 where cp: "sendCopy ?pc env me m task sz w1 = (q, w2)" by fastforce
  have s1: "steps (sy_sha sys) w w1" using sp.stat_steps [OF s] by simp
  have s2: "steps (sy_sha sys) w w2" using s1 rpr.sendCopy_steps [OF cp [unfolded me]] steps_trans by blast
  have "(rw', w') = (rw, w) \<or> (\<exists>rw1 v. v \<in> {w, w1, w2} \<and> repair_holders ?pc env ctx me self task sz ms (rw1, v) = (rw', w'))"
    using Cons.prems(1) s cp by (auto simp del: send.simps split: if_splits sum.splits option.splits)
  then show ?case
  proof
    assume "\<exists>rw1 v. v \<in> {w, w1, w2} \<and> repair_holders ?pc env ctx me self task sz ms (rw1, v) = (rw', w')"
    then obtain rw1 v where v: "v \<in> {w, w1, w2}" "repair_holders ?pc env ctx me self task sz ms (rw1, v) = (rw', w')" by blast
    have "steps (sy_sha sys) w v" using v(1) s1 s2 by auto
    then show ?case using Cons.IH [OF v(2) Cons.prems(2)] steps_trans by blast
  qed simp
qed simp

section \<open>Properties\<close>



section \<open>Witnesses\<close>

definition ex_task :: Task where
  "ex_task = \<lparr>tk_ns = NamespaceCAS, tk_key = ex_cas_key, tk_size = 2\<rparr>"



end
