(* ===== verification/MetricSources.thy ===== *)
theory MetricSources
  imports RepairWorker EvictorTheorems ConfigLoad
begin

text \<open>
  The derived metrics of a node: \<^verbatim>\<open>metricSources\<close> and \<^verbatim>\<open>usage\<close> of \<^verbatim>\<open>internal/node/node.go\<close>, \<^verbatim>\<open>RegisterSources\<close>
  of \<^verbatim>\<open>internal/metrics/metrics.go\<close>, and the statistics page of \<^verbatim>\<open>Node.Stats\<close>. The counters that a source
  reads are those of the components, so the value of a source is a function of the node's state.

  The Prometheus registry is a parameter: a function that registers one collector, or fails. What the
  node relies on is the registry's documented rule, the predicate \<open>registry_rule\<close>.
\<close>

section \<open>Usage\<close>

text \<open>\<open>fault\<close> is an error of the totals query, an expired deadline included.\<close>

definition usage :: "go_error option \<Rightarrow> Store \<Rightarrow> int \<times> int" where
  "usage fault s =
     (case s_index s of
        None \<Rightarrow> (0, 0)
      | Some i \<Rightarrow> (case Totals fault i of Inl e \<Rightarrow> (0, 0) | Inr (o', b) \<Rightarrow> (o', b)))"

definition usageBytes :: "go_error option \<Rightarrow> Store \<Rightarrow> int" where
  "usageBytes fault s = snd (usage fault s)"

definition usageObjects :: "go_error option \<Rightarrow> Store \<Rightarrow> int" where
  "usageObjects fault s = fst (usage fault s)"

section \<open>Sources\<close>

text \<open>The state that the value functions of the sources read.\<close>

record metric_view =
  mv_fe :: float_env
  mv_fault :: "go_error option"
  mv_coord :: coord
  mv_evictor :: Evictor
  mv_repair :: "Worker option"

definition of_index :: "(Index \<Rightarrow> int) \<Rightarrow> metric_view \<Rightarrow> int" where
  "of_index f n = (case s_index (co_local (mv_coord n)) of None \<Rightarrow> 0 | Some i \<Rightarrow> f i)"

definition of_repair :: "(Worker \<Rightarrow> int) \<Rightarrow> metric_view \<Rightarrow> int" where
  "of_repair f n = (case mv_repair n of None \<Rightarrow> 0 | Some rw \<Rightarrow> f rw)"

record Source =
  so_Name :: string
  so_Help :: string
  so_Counter :: bool
  so_Labels :: "(string, string) gomap"
  so_Value :: "metric_view \<Rightarrow> f64"

definition counter_src :: "string \<Rightarrow> string \<Rightarrow> (string, string) gomap \<Rightarrow> (metric_view \<Rightarrow> int) \<Rightarrow> Source" where
  "counter_src name help labels v =
     \<lparr>so_Name = name, so_Help = help, so_Counter = True, so_Labels = labels, so_Value = (\<lambda>n. f64_of_int (v n))\<rparr>"

definition gauge_src :: "string \<Rightarrow> string \<Rightarrow> (string, string) gomap \<Rightarrow> (metric_view \<Rightarrow> int) \<Rightarrow> Source" where
  "gauge_src name help labels v =
     \<lparr>so_Name = name, so_Help = help, so_Counter = False, so_Labels = labels, so_Value = (\<lambda>n. f64_of_int (v n))\<rparr>"

definition base_sources :: "Source list" where
  "base_sources =
     [counter_src ''bytes_in_total'' ''Object bytes received.'' [] (\<lambda>n. st_BytesIn (s_stats (co_local (mv_coord n)))),
      counter_src ''bytes_out_total'' ''Object bytes served.'' [] (\<lambda>n. st_BytesOut (s_stats (co_local (mv_coord n)))),
      counter_src ''puts_total'' ''Objects written to local disk.'' [] (\<lambda>n. st_PutsOK (s_stats (co_local (mv_coord n)))),
      counter_src ''puts_rejected_total'' ''Writes rejected before publication.'' [] (\<lambda>n. st_PutsRejected (s_stats (co_local (mv_coord n)))),
      counter_src ''puts_already_stored_total'' ''Writes that were no-ops.'' [] (\<lambda>n. st_PutsAlreadyStored (s_stats (co_local (mv_coord n)))),
      counter_src ''verify_failures_total'' ''Objects that failed digest verification while being served. Should be zero; anything else is local corruption.'' [] (\<lambda>n. st_VerifyFailures (s_stats (co_local (mv_coord n)))),
      counter_src ''hits_total'' ''Reads served, by where the bytes came from.'' [(''source'', ''local'')] (\<lambda>n. cs_LocalHits (co_stats (mv_coord n))),
      counter_src ''hits_total'' ''Reads served, by where the bytes came from.'' [(''source'', ''peer'')] (\<lambda>n. cs_PeerHits (co_stats (mv_coord n))),
      counter_src ''misses_total'' ''Reads that found nothing anywhere.'' [] (\<lambda>n. cs_Misses (co_stats (mv_coord n))),
      counter_src ''read_fallbacks_total'' ''Reads served by a peer after the local copy was absent.'' [] (\<lambda>n. cs_ReadFallbacks (co_stats (mv_coord n))),
      counter_src ''replication_attempts_total'' ''Replica writes attempted against peers.'' [] (\<lambda>n. cs_ReplicaWrites (co_stats (mv_coord n)) + cs_ReplicaFailures (co_stats (mv_coord n))),
      counter_src ''replication_failures_total'' ''Replica writes that failed.'' [] (\<lambda>n. cs_ReplicaFailures (co_stats (mv_coord n))),
      counter_src ''insufficient_replicas_total'' ''PUTs refused because the required number of copies could not be written.'' [] (\<lambda>n. cs_InsufficientAcks (co_stats (mv_coord n))),
      counter_src ''proxied_puts_total'' ''PUTs this node forwarded to an owner.'' [] (\<lambda>n. cs_ForwardedPuts (co_stats (mv_coord n))),
      counter_src ''repair_declined_over_quota_total'' ''Repair copies this node declined because it is above its high-water mark.'' [] (\<lambda>n. cs_RepairDeclined (co_stats (mv_coord n))),
      gauge_src ''quota_bytes'' ''Configured per-node disk quota.'' [] (\<lambda>n. q_MaxBytes (ev_quota (mv_evictor n))),
      gauge_src ''high_water_bytes'' ''Usage at which eviction begins.'' [] (\<lambda>n. HighBytes (mv_fe n) (ev_quota (mv_evictor n))),
      gauge_src ''low_water_bytes'' ''Usage that eviction drains down to.'' [] (\<lambda>n. LowBytes (mv_fe n) (ev_quota (mv_evictor n))),
      counter_src ''evictions_total'' ''Objects evicted to stay within the quota.'' [] (\<lambda>n. es_Evicted (ev_stats (mv_evictor n))),
      counter_src ''evicted_bytes_total'' ''Bytes reclaimed by eviction.'' [] (\<lambda>n. es_BytesReclaimed (ev_stats (mv_evictor n))),
      counter_src ''eviction_sweeps_total'' ''Eviction sweeps that found work to do.'' [] (\<lambda>n. es_Sweeps (ev_stats (mv_evictor n))),
      counter_src ''eviction_failures_total'' ''Objects eviction could not remove.'' [] (\<lambda>n. es_Failures (ev_stats (mv_evictor n)))]"

definition index_sources :: "Source list" where
  "index_sources =
     [gauge_src ''stored_bytes'' ''Object bytes currently held, from the metadata index.'' [] (\<lambda>n. usageBytes (mv_fault n) (co_local (mv_coord n))),
      gauge_src ''stored_objects'' ''Objects currently held.'' [] (\<lambda>n. usageObjects (mv_fault n) (co_local (mv_coord n))),
      counter_src ''index_touches_written_total'' ''Access-time updates written to the index.'' [] (\<lambda>n. of_index (\<lambda>i. st_TouchesWritten (i_stats i)) n),
      counter_src ''index_touches_dropped_total'' ''Access-time updates dropped because the queue was full. Nonzero means eviction is ranking on slightly stale information.'' [] (\<lambda>n. of_index (\<lambda>i. st_TouchesDropped (i_stats i)) n)]"

definition repair_sources :: "Source list" where
  "repair_sources =
     [gauge_src ''repair_queue_depth'' ''Objects waiting to be checked by the repair worker.'' [] (\<lambda>n. of_repair (\<lambda>rw. int (length (rw_queue rw))) n),
      gauge_src ''repair_queue_capacity'' ''Repair queue capacity.'' [] (\<lambda>n. of_repair (\<lambda>rw. int (rw_cap rw)) n),
      counter_src ''repair_completed_total'' ''Missing replicas recreated.'' [] (\<lambda>n. of_repair (\<lambda>rw. rc_Repaired (rw_stats rw)) n),
      counter_src ''repair_bytes_total'' ''Bytes sent to recreate missing replicas.'' [] (\<lambda>n. of_repair (\<lambda>rw. rc_BytesRepaired (rw_stats rw)) n),
      counter_src ''repair_failed_total'' ''Repair attempts that failed. Excludes copies declined by a holder that is over quota.'' [] (\<lambda>n. of_repair (\<lambda>rw. rc_Failed (rw_stats rw)) n),
      counter_src ''repair_audited_total'' ''Objects examined by the repair auditor.'' [] (\<lambda>n. of_repair (\<lambda>rw. rc_ObjectsAudited (rw_stats rw)) n),
      counter_src ''repair_dropped_full_queue_total'' ''Audit tasks not queued because the queue was full. The pass resumes at that object, so nothing is skipped.'' [] (\<lambda>n. of_repair (\<lambda>rw. rc_DroppedFullQueue (rw_stats rw)) n)]"

definition metricSources :: "metric_view \<Rightarrow> Source list" where
  "metricSources n =
     base_sources
     @ (if s_index (co_local (mv_coord n)) \<noteq> None then index_sources else [])
     @ (if mv_repair n \<noteq> None then repair_sources else [])"

section \<open>Registration\<close>

text \<open>The check of the help strings: the first source whose name was seen with another help string.\<close>

fun help_check :: "(string, string) gomap \<Rightarrow> Source list \<Rightarrow> go_error option" where
  "help_check helps [] = None"
| "help_check helps (s # ss) =
     (case mget helps (so_Name s) of
        Some prev \<Rightarrow>
          if prev \<noteq> so_Help s
          then Some (NewError (''metric '' @ quoted (so_Name s) @ '' registered twice with different help strings''))
          else help_check (mput (so_Name s) (so_Help s) helps) ss
      | None \<Rightarrow> help_check (mput (so_Name s) (so_Help s) helps) ss)"

text \<open>What the registry sees of a collector: its full name, its help string and its constant labels,
  with the node's label outermost.\<close>

type_synonym descriptor = "string \<times> string \<times> (string, string) gomap"

definition describe_source :: "string \<Rightarrow> Source \<Rightarrow> descriptor" where
  "describe_source node s = (''kilncache_'' @ so_Name s, so_Help s, so_Labels s @ [(''node'', node)])"

fun register_all ::
  "('r \<Rightarrow> descriptor \<Rightarrow> 'r result) \<Rightarrow> string \<Rightarrow> Source list \<Rightarrow> 'r \<Rightarrow> 'r result" where
  "register_all register node [] reg = Inr reg"
| "register_all register node (s # ss) reg =
     (case register reg (describe_source node s) of
        Inl e \<Rightarrow> Inl e
      | Inr reg' \<Rightarrow> register_all register node ss reg')"

definition RegisterSources ::
  "('r \<Rightarrow> descriptor \<Rightarrow> 'r result) \<Rightarrow> string \<Rightarrow> Source list \<Rightarrow> 'r \<Rightarrow> 'r result" where
  "RegisterSources register node sources reg =
     (case help_check [] sources of
        Some e \<Rightarrow> Inl e
      | None \<Rightarrow> register_all register node sources reg)"

text \<open>The names \<^verbatim>\<open>metrics.New\<close> registers for the request path.\<close>

definition request_metrics :: "string list" where
  "request_metrics = [''kilncache_requests_total'', ''kilncache_request_duration_seconds'',
     ''kilncache_requests_in_flight'', ''kilncache_forwarded_requests_total'']"

section \<open>Statistics\<close>

record usage_page =
  up_objects :: int
  up_bytes :: int
  up_quota :: int
  up_high :: int
  up_low :: int
  up_over :: bool

text \<open>\<^verbatim>\<open>Worker.Snapshot\<close>: the counters and the fill of the queue.\<close>

record RepairSnapshot = RepairStats +
  rs_QueueDepth :: int
  rs_QueueCapacity :: int

definition repair_Snapshot :: "Worker \<Rightarrow> RepairSnapshot" where
  "repair_Snapshot w = RepairStats.extend (rw_stats w) \<lparr>rs_QueueDepth = int (length (rw_queue w)), rs_QueueCapacity = int (rw_cap w)\<rparr>"

record stats_page =
  sp_self :: string
  sp_members :: "string list"
  sp_replicaCount :: int
  sp_storage :: Stats
  sp_dirSync :: bool
  sp_index :: "IndexStats option"
  sp_usage :: "usage_page option"
  sp_coordinator :: CoordinatorStats
  sp_eviction :: EvictorStats
  sp_repair :: "RepairSnapshot option"

text \<open>\<^verbatim>\<open>Stats\<close> of a node whose store, coordinator and evictor exist, which is so from \<^verbatim>\<open>New\<close> to \<^verbatim>\<open>Close\<close>. The
  section on usage is left out when the totals cannot be read.\<close>

definition node_Stats ::
  "float_env \<Rightarrow> go_error option \<Rightarrow> Config \<Rightarrow> coord \<Rightarrow> Evictor \<Rightarrow> Worker option \<Rightarrow> stats_page" where
  "node_Stats fe fault cfg c ev rw =
     (let s = co_local c; q = ev_quota ev in
      \<lparr>sp_self = c_NodeName cfg, sp_members = PeerNames (c_Peers cfg), sp_replicaCount = co_replicaCount c,
       sp_storage = s_stats s, sp_dirSync = DirSyncSupported s, sp_index = map_option i_stats (s_index s),
       sp_usage =
         (case s_index s of
            None \<Rightarrow> None
          | Some i \<Rightarrow>
             (case Totals fault i of
                Inl e \<Rightarrow> None
              | Inr (o', b) \<Rightarrow> Some \<lparr>up_objects = o', up_bytes = b, up_quota = q_MaxBytes q, up_high = HighBytes fe q,
                                   up_low = LowBytes fe q, up_over = (b > HighBytes fe q)\<rparr>)),
       sp_coordinator = co_stats c, sp_eviction = ev_stats ev, sp_repair = map_option repair_Snapshot rw\<rparr>)"

section \<open>Lemmas\<close>

text \<open>The documented rule of the registry: a collector is accepted if every registered one of the same
  name has the same help string and the same label names, and other label values.\<close>

definition compatible :: "descriptor \<Rightarrow> descriptor \<Rightarrow> bool" where
  "compatible d d' \<longleftrightarrow> (fst d = fst d' \<longrightarrow>
     fst (snd d) = fst (snd d') \<and> mkeys (snd (snd d)) = mkeys (snd (snd d')) \<and> snd (snd d) \<noteq> snd (snd d'))"

definition registry_rule :: "('r \<Rightarrow> descriptor \<Rightarrow> 'r result) \<Rightarrow> ('r \<Rightarrow> descriptor set) \<Rightarrow> bool" where
  "registry_rule register descs \<longleftrightarrow>
     (\<forall>r d. (\<forall>d' \<in> descs r. compatible d d') \<longrightarrow> (\<exists>r'. register r d = Inr r' \<and> descs r' = insert d (descs r)))"

definition fresh_registry :: "descriptor set \<Rightarrow> bool" where
  "fresh_registry ds \<longleftrightarrow> (\<forall>d \<in> ds. fst d \<in> set request_metrics \<or> \<not> has_prefix (fst d) ''kilncache_'')"

fun pairwise_compatible :: "descriptor list \<Rightarrow> bool" where
  "pairwise_compatible [] = True"
| "pairwise_compatible (d # ds) = (list_all (\<lambda>d'. compatible d' d) ds \<and> pairwise_compatible ds)"

lemma register_all_ok:
  assumes "registry_rule register descs" "pairwise_compatible (map (describe_source node) ss)"
    "\<forall>s \<in> set ss. \<forall>d \<in> descs reg. compatible (describe_source node s) d"
  shows "\<exists>reg'. register_all register node ss reg = Inr reg' \<and> descs reg' = descs reg \<union> describe_source node ` set ss"
  using assms(2,3)
proof (induction ss arbitrary: reg)
  case (Cons s ss)
  have "\<forall>d \<in> descs reg. compatible (describe_source node s) d" using Cons.prems(2) by simp
  with assms(1) obtain r' where r: "register reg (describe_source node s) = Inr r'" "descs r' = insert (describe_source node s) (descs reg)"
    unfolding registry_rule_def by meson
  have "\<forall>s' \<in> set ss. \<forall>d \<in> descs r'. compatible (describe_source node s') d"
    using Cons.prems unfolding r(2) by (simp add: list_all_iff)
  with Cons.IH [of r'] Cons.prems(1) obtain reg' where
    "register_all register node ss r' = Inr reg'" "descs reg' = descs r' \<union> describe_source node ` set ss" by auto
  with r show ?case by simp
qed simp

lemma src_sel [simp]:
  "so_Name (counter_src n h l v) = n" "so_Help (counter_src n h l v) = h" "so_Labels (counter_src n h l v) = l"
  "so_Name (gauge_src n h l v) = n" "so_Help (gauge_src n h l v) = h" "so_Labels (gauge_src n h l v) = l"
  "so_Counter (counter_src n h l v)" "\<not> so_Counter (gauge_src n h l v)"
  by (simp_all add: counter_src_def gauge_src_def)

lemma help_check_None:
  assumes "\<forall>s \<in> set ss. \<forall>s' \<in> set ss. so_Name s = so_Name s' \<longrightarrow> so_Help s = so_Help s'"
    "\<forall>s \<in> set ss. mget helps (so_Name s) \<in> {None, Some (so_Help s)}"
  shows "help_check helps ss = None"
  using assms
proof (induction ss arbitrary: helps)
  case (Cons s ss)
  have 1: "\<forall>x \<in> set ss. \<forall>y \<in> set ss. so_Name x = so_Name y \<longrightarrow> so_Help x = so_Help y"
    using Cons.prems(1) by (meson list.set_intros(2))
  have 2: "\<forall>x \<in> set ss. mget (mput (so_Name s) (so_Help s) helps) (so_Name x) \<in> {None, Some (so_Help x)}"
  proof
    fix x assume x: "x \<in> set ss"
    then have "so_Name x = so_Name s \<longrightarrow> so_Help x = so_Help s" "mget helps (so_Name x) \<in> {None, Some (so_Help x)}"
      using Cons.prems by (meson list.set_intros)+
    then show "mget (mput (so_Name s) (so_Help s) helps) (so_Name x) \<in> {None, Some (so_Help x)}" by auto
  qed
  have "mget helps (so_Name s) \<in> {None, Some (so_Help s)}" using Cons.prems(2) by (meson list.set_intros(1))
  with Cons.IH [OF 1 2] show ?case by (auto split: option.split)
qed simp

lemmas sources_defs = base_sources_def index_sources_def repair_sources_def

text \<open>What the checks see of all sources: decided by evaluation.\<close>

definition same_series :: "Source \<Rightarrow> Source \<Rightarrow> bool" where
  "same_series s s' \<longleftrightarrow> so_Name s = so_Name s' \<and>
     (so_Help s \<noteq> so_Help s' \<or> mkeys (so_Labels s) \<noteq> mkeys (so_Labels s') \<or> so_Labels s = so_Labels s')"

fun no_clash :: "Source list \<Rightarrow> bool" where
  "no_clash [] = True"
| "no_clash (s # ss) = (list_all (\<lambda>s'. \<not> same_series s' s) ss \<and> no_clash ss)"

text \<open>The names of all series, with \<open>hits_total\<close>, the one that is registered twice, listed once.\<close>

definition metric_names :: "string list" where
  "metric_names = [''bytes_in_total'', ''bytes_out_total'', ''puts_total'', ''puts_rejected_total'',
     ''puts_already_stored_total'', ''verify_failures_total'', ''hits_total'', ''misses_total'',
     ''read_fallbacks_total'', ''replication_attempts_total'', ''replication_failures_total'',
     ''insufficient_replicas_total'', ''proxied_puts_total'', ''repair_declined_over_quota_total'',
     ''quota_bytes'', ''high_water_bytes'', ''low_water_bytes'', ''evictions_total'',
     ''evicted_bytes_total'', ''eviction_sweeps_total'', ''eviction_failures_total'', ''stored_bytes'',
     ''stored_objects'', ''index_touches_written_total'', ''index_touches_dropped_total'',
     ''repair_queue_depth'', ''repair_queue_capacity'', ''repair_completed_total'', ''repair_bytes_total'',
     ''repair_failed_total'', ''repair_audited_total'', ''repair_dropped_full_queue_total'']"

lemma metric_names_distinct: "distinct metric_names"
  by code_simp

lemma no_clash_distinct: "distinct (map so_Name ss) \<Longrightarrow> no_clash ss"
  by (induction ss) (auto simp: list_all_iff same_series_def image_iff)

lemma no_clash_twice:
  assumes "distinct (map so_Name (a @ h # b))" "so_Name h' = so_Name h" "\<not> same_series h' h"
  shows "no_clash (a @ h # h' # b)"
  using assms
proof (induction a)
  case Nil
  then show ?case using no_clash_distinct [of b] by (auto simp: list_all_iff same_series_def image_iff)
next
  case (Cons s a)
  then show ?case by (auto simp: list_all_iff same_series_def image_iff)
qed

lemma base_sources_split:
  "\<exists>h h'. base_sources = take 6 base_sources @ h # h' # drop 8 base_sources \<and> so_Name h' = so_Name h \<and> \<not> same_series h' h \<and>
     map so_Name (take 6 base_sources @ h # drop 8 base_sources @ index_sources @ repair_sources) = metric_names"
  by (simp add: sources_defs metric_names_def same_series_def)

lemma all_no_clash: "no_clash (base_sources @ index_sources @ repair_sources)"
proof -
  obtain h h' where h: "base_sources = take 6 base_sources @ h # h' # drop 8 base_sources" "so_Name h' = so_Name h" "\<not> same_series h' h"
    "map so_Name (take 6 base_sources @ h # drop 8 base_sources @ index_sources @ repair_sources) = metric_names"
    using base_sources_split by blast
  have "no_clash (take 6 base_sources @ h # h' # drop 8 base_sources @ index_sources @ repair_sources)"
    by (rule no_clash_twice) (use h metric_names_distinct in auto)
  then show ?thesis using h(1) by (metis append.assoc append_Cons)
qed

lemma no_clash_appendD: "no_clash (a @ b) \<Longrightarrow> no_clash a \<and> no_clash b"
  by (induction a) auto

lemma no_clash_drop_middle: "no_clash (a @ b @ c) \<Longrightarrow> no_clash (a @ c)"
  by (induction a) (auto dest: no_clash_appendD)

lemma metricSources_no_clash: "no_clash (metricSources n)"
  using all_no_clash no_clash_appendD [of "base_sources @ index_sources" repair_sources]
    no_clash_drop_middle [of base_sources index_sources repair_sources] no_clash_appendD [of base_sources index_sources]
  by (auto simp: metricSources_def)

lemma same_series_sym: "same_series s s' \<longleftrightarrow> same_series s' s"
  by (auto simp: same_series_def)

lemma no_clash_member: "no_clash ss \<Longrightarrow> s \<in> set ss \<Longrightarrow> s' \<in> set ss \<Longrightarrow> s \<noteq> s' \<Longrightarrow> \<not> same_series s s'"
  by (induction ss) (auto simp: list_all_iff same_series_sym)

lemma no_clash_help:
  assumes "no_clash ss"
  shows "help_check [] ss = None"
proof (rule help_check_None)
  have "so_Help s = so_Help s'" if "s \<in> set ss" "s' \<in> set ss" "so_Name s = so_Name s'" for s s'
    using no_clash_member [OF assms that(1,2)] that(3) by (cases "s = s'") (simp_all add: same_series_def)
  then show "\<forall>s \<in> set ss. \<forall>s' \<in> set ss. so_Name s = so_Name s' \<longrightarrow> so_Help s = so_Help s'" by blast
qed simp

lemma compatible_describe: "compatible (describe_source node s) (describe_source node s') \<longleftrightarrow> \<not> same_series s s'"
  by (auto simp: compatible_def describe_source_def same_series_def)

lemma no_clash_pairwise: "no_clash ss \<Longrightarrow> pairwise_compatible (map (describe_source node) ss)"
  by (induction ss) (simp_all add: list_all_iff compatible_describe)

lemma metricSources_names: "s \<in> set (metricSources n) \<Longrightarrow> so_Name s \<in> set metric_names"
proof -
  assume "s \<in> set (metricSources n)"
  then have "s \<in> set (base_sources @ index_sources @ repair_sources)" by (auto simp: metricSources_def split: if_splits)
  then have "so_Name s \<in> set (map so_Name (base_sources @ index_sources @ repair_sources))" unfolding set_map by (rule imageI)
  also have "map so_Name (base_sources @ index_sources @ repair_sources) =
      take 7 metric_names @ drop 6 metric_names" by (simp add: sources_defs metric_names_def)
  finally show "so_Name s \<in> set metric_names" by (auto dest: in_set_takeD in_set_dropD)
qed

lemma metric_names_fresh: "list_all (\<lambda>x. ''kilncache_'' @ x \<notin> set request_metrics) metric_names"
  by code_simp

section \<open>Properties\<close>

text \<open>The node's derived metrics always register, so they never fail a start. Under the documented rule
  of the registry, and on the registry that \<^verbatim>\<open>metrics.New\<close> leaves (the four request metrics and the
  collectors of the Go runtime), \<^verbatim>\<open>RegisterSources\<close> accepts the sources of every node, with or without
  an index and a repair worker, and registers each of them.\<close>

theorem metric_sources_register:
  assumes "registry_rule register descs" "fresh_registry (descs reg)"
  shows "\<exists>reg'. RegisterSources register node (metricSources n) reg = Inr reg' \<and>
     descs reg' = descs reg \<union> describe_source node ` set (metricSources n)"
proof -
  have "compatible (describe_source node s) d" if s: "s \<in> set (metricSources n)" and d: "d \<in> descs reg" for s d
  proof -
    have "''kilncache_'' @ so_Name s \<notin> set request_metrics"
      using metricSources_names [OF s] metric_names_fresh by (auto simp: list_all_iff)
    moreover have "fst d \<in> set request_metrics \<or> \<not> has_prefix (fst d) ''kilncache_''"
      using assms(2) d by (auto simp: fresh_registry_def)
    ultimately have "''kilncache_'' @ so_Name s \<noteq> fst d" using has_prefix_append by metis
    then show ?thesis by (simp add: compatible_def describe_source_def)
  qed
  with register_all_ok [OF assms(1) no_clash_pairwise [OF metricSources_no_clash]] no_clash_help [OF metricSources_no_clash]
  show ?thesis by (simp add: RegisterSources_def)
qed

section \<open>Witnesses\<close>

text \<open>A registry that is the list of its descriptors and refuses an incompatible one.\<close>

definition ex_register :: "descriptor list \<Rightarrow> descriptor \<Rightarrow> descriptor list result" where
  "ex_register r d = (if list_all (compatible d) r then Inr (d # r) else Inl (NewError ''duplicate metrics collector registration attempted''))"

lemma ex_registry_rule: "registry_rule ex_register set"
  by (auto simp: registry_rule_def ex_register_def list_all_iff)

definition ex_view :: metric_view where
  "ex_view = \<lparr>mv_fe = ex_fe, mv_fault = None, mv_coord = ex_auditor, mv_evictor = ex_evictor 1, mv_repair = Some ex_worker\<rparr>"

end
