(* ===== verification/NodeLife.thy ===== *)
theory NodeLife
  imports MetricSources ClusterTheorems "HOL-Library.Signed_Division"
begin

text \<open>
  A node from its assembly to its end: the health state and the probe handlers
  (\<^verbatim>\<open>internal/httpapi/health.go\<close>), the server
  (\<^verbatim>\<open>server.go\<close>), and \<^verbatim>\<open>New\<close>, \<^verbatim>\<open>Run\<close> and \<^verbatim>\<open>Close\<close> of \<^verbatim>\<open>internal/node/node.go\<close> in the order in which
  \<^verbatim>\<open>cmd/kilncache\<close> calls them.

  \<^verbatim>\<open>New\<close> is a function. Running is a step relation, because handlers and background workers run beside
  the goroutine of \<^verbatim>\<open>Run\<close>: a step is one action of that goroutine, a request that arrives or ends, some
  work of a handler or worker, a worker that ends, or the signal to stop.
\<close>

section \<open>Health\<close>

record Health =
  h_live :: bool
  h_ready :: bool
  h_started :: time
  h_readyErr :: "string option"

definition SetReady :: "Health \<Rightarrow> Health" where
  "SetReady h = h\<lparr>h_readyErr := None, h_ready := True\<rparr>"

definition SetNotReady :: "string \<Rightarrow> Health \<Rightarrow> Health" where
  "SetNotReady reason h = h\<lparr>h_readyErr := Some reason, h_ready := False\<rparr>"

definition SetDead :: "string \<Rightarrow> Health \<Rightarrow> Health" where
  "SetDead reason h = (SetNotReady reason h)\<lparr>h_live := False\<rparr>"

definition NewHealth :: "time \<Rightarrow> Health" where
  "NewHealth now = SetNotReady ''starting up'' \<lparr>h_live = True, h_ready = False, h_started = now, h_readyErr = None\<rparr>"

definition Ready :: "Health \<Rightarrow> bool \<times> string" where
  "Ready h =
     (if h_ready h then (True, '''')
      else case h_readyErr h of Some r \<Rightarrow> (False, r) | None \<Rightarrow> (False, ''not ready''))"

text \<open>\<^verbatim>\<open>Duration.Seconds\<close>: whole seconds and the rest, divided and added as doubles.\<close>

definition Seconds :: "time \<Rightarrow> f64" where
  "Seconds d = f64_add (f64_of_int (d sdiv 1000000000)) (f64_div (f64_of_int (d smod 1000000000)) (Fin 1000000000))"

record healthResponse =
  hr_Status :: string
  hr_Node :: string
  hr_Version :: string
  hr_UptimeS :: f64
  hr_Reason :: string

definition HealthzHandler :: "string \<Rightarrow> string \<Rightarrow> time \<Rightarrow> Health \<Rightarrow> nat \<times> healthResponse" where
  "HealthzHandler node version now h =
     (let resp = \<lparr>hr_Status = ''ok'', hr_Node = node, hr_Version = version, hr_UptimeS = Seconds (now - h_started h), hr_Reason = ''''\<rparr> in
      if \<not> h_live h
      then (503, resp\<lparr>hr_Status := ''dead'', hr_Reason := (case h_readyErr h of Some r \<Rightarrow> r | None \<Rightarrow> '''')\<rparr>)
      else (200, resp))"

definition ReadyzHandler :: "string \<Rightarrow> string \<Rightarrow> time \<Rightarrow> Health \<Rightarrow> nat \<times> healthResponse" where
  "ReadyzHandler node version now h =
     (let resp = \<lparr>hr_Status = ''ready'', hr_Node = node, hr_Version = version, hr_UptimeS = Seconds (now - h_started h), hr_Reason = ''''\<rparr> in
      case Ready h of
        (True, _) \<Rightarrow> (200, resp)
      | (False, reason) \<Rightarrow> (503, resp\<lparr>hr_Status := ''not ready'', hr_Reason := reason\<rparr>))"

text \<open>\<open>enc\<close> is the JSON text of the value, which the encoder ends with a line feed.\<close>

definition writeJSON :: "nat \<Rightarrow> string \<Rightarrow> http_resp" where
  "writeJSON code enc =
     \<lparr>rs_status = code, rs_headers = [(''Content-Type'', ''application/json''), (''Cache-Control'', ''no-store'')],
      rs_length = int (length enc + 1), rs_body = (enc @ [CHR 0x0A], None)\<rparr>"

section \<open>The node\<close>

text \<open>
  \<open>n_peers\<close>, \<open>n_store\<close> and \<open>n_bgCancel\<close> say that the pointers of these names are not nil. The store itself
  is \<open>co_local\<close> of the coordinator, where the handlers reach it also after \<^verbatim>\<open>n.store\<close> is nil.
\<close>

record Node =
  n_cfg :: Config
  n_health :: Health
  n_peers :: bool
  n_store :: bool
  n_coord :: coord
  n_evictor :: Evictor
  n_repair :: "Worker option"
  n_bgCancel :: bool

text \<open>The errors of closing the store: of the last flush and of the two database handles.\<close>

type_synonym close_env = "tx_fault option \<times> go_error option \<times> go_error option"

definition close_store :: "close_env \<Rightarrow> Store \<Rightarrow> go_error option \<times> Store" where
  "close_store ce s = (case ce of (tf, cr, cw) \<Rightarrow> store_Close tf cr cw s)"

record 'r new_env =
  ne_url :: "string \<Rightarrow> (string \<times> string) result"
  ne_abs :: "string \<Rightarrow> path"
  ne_open :: open_env
  ne_fs :: fsys
  ne_tables :: "(objRef, idx_row) gomap \<times> (string, string) gomap"
  ne_float :: float_env
  ne_totals :: "go_error option"
  ne_register :: "'r \<Rightarrow> descriptor \<Rightarrow> 'r result"
  ne_registry :: 'r
  ne_listen :: "go_error option"
  ne_close :: close_env
  ne_now :: time

definition node_quota :: "Config \<Rightarrow> Quota" where
  "node_quota cfg = \<lparr>q_MaxBytes = c_MaxBytes cfg, q_HighWater = c_HighWater cfg, q_LowWater = c_LowWater cfg\<rparr>"

definition no_policy :: EvictionPolicy where
  "no_policy = \<lparr>ep_SizeWeight = 0, ep_SizeUnit = 0\<rparr>"

definition NewServer :: "go_error option \<Rightarrow> Config \<Rightarrow> go_error option" where
  "NewServer listen cfg = map_option (Wrapped (''listen on '' @ c_ListenAddr cfg)) listen"

text \<open>
  \<^verbatim>\<open>New\<close>: the node or the error, and the store if it was opened, as it is left behind. Each failure after the
  opening closes everything (\<^verbatim>\<open>closeAll\<close>).
\<close>

definition node_New :: "(bytes \<Rightarrow> bytes) \<Rightarrow> 'r new_env \<Rightarrow> Config \<Rightarrow> Node result \<times> Store option" where
  "node_New sha env cfg =
     (case Validate (ne_url env) cfg of
        Some e \<Rightarrow> (Inl (Wrapped ''config'' e), None)
      | None \<Rightarrow>
        let health = SetNotReady ''reconciling the index against disk'' (SetNotReady ''opening object store'' (NewHealth (ne_now env))) in
        case Open \<lparr>op_Root = ne_abs env (c_DataDir cfg), op_MaxObjectBytes = c_MaxObjectBytes cfg,
                    op_VerifyReads = c_VerifyReads cfg, op_DisableIndex = False\<rparr> (ne_open env) (ne_fs env) (ne_tables env) of
          Inl e \<Rightarrow> (Inl (Wrapped ''open store'' e), None)
        | Inr store \<Rightarrow>
          let fail = (\<lambda>s e. (Inl e, Some (snd (close_store (ne_close env) s)))) in
          case New sha (c_Peers cfg) (c_NodeName cfg) of
            Inl e \<Rightarrow> fail store (Wrapped ''build ring'' e)
          | Inr ring \<Rightarrow>
          case NewCoordinator (Some ring) (Some store) True (c_ReplicaCount cfg) of
            Inl e \<Rightarrow> fail store (Wrapped ''build coordinator'' e)
          | Inr coord0 \<Rightarrow>
          case NewEvictor True (s_index store \<noteq> None) (node_quota cfg) no_policy 0 of
            Inl e \<Rightarrow> fail store (Wrapped ''build evictor'' e)
          | Inr evictor \<Rightarrow>
          let store1 = AttachEvictor store;
              coord1 = SetQuotaProbe (HighBytes (ne_float env) (ev_quota evictor)) (coord0\<lparr>co_local := store1\<rparr>) in
          case (if c_RepairWorkers cfg > 0
                then map_sum id Some (NewWorker (Some coord1) (c_RepairWorkers cfg) (c_RepairQueue cfg) 0) else Inr None) of
            Inl e \<Rightarrow> fail store1 (Wrapped ''build repair worker'' e)
          | Inr rw \<Rightarrow>
          case RegisterSources (ne_register env) (c_NodeName cfg)
                 (metricSources \<lparr>mv_fe = ne_float env, mv_fault = ne_totals env, mv_coord = coord1, mv_evictor = evictor, mv_repair = rw\<rparr>)
                 (ne_registry env) of
            Inl e \<Rightarrow> fail store1 (Wrapped ''register metrics'' e)
          | Inr reg \<Rightarrow>
          case NewServer (ne_listen env) cfg of
            Some e \<Rightarrow> fail store1 e
          | None \<Rightarrow>
              (Inr \<lparr>n_cfg = cfg, n_health = health, n_peers = True, n_store = True, n_coord = coord1, n_evictor = evictor,
                    n_repair = rw, n_bgCancel = False\<rparr>, Some store1))"

section \<open>Running and closing\<close>

text \<open>Where the goroutine that runs \<^verbatim>\<open>n.Run\<close> and then \<^verbatim>\<open>n.Close\<close> is.\<close>

datatype run_pc =
    Assembled | Started | Announced | Serving | Unready | Draining | ServerDone | Stopping | RunReturned | ServerClosed | PeersClosed | Closed

datatype bg_worker = BgEvictor | BgFlusher | BgRepair

text \<open>
  \<open>lf_ctx\<close>: the signal's context is cancelled. \<open>lf_accepting\<close>: the server accepts requests. \<open>lf_inflight\<close>:
  handlers that run. \<open>lf_workers\<close>: background workers that run. \<open>lf_bgctx\<close>: their context is cancelled.
  \<open>lf_err\<close>: the error \<^verbatim>\<open>Run\<close> returns. \<open>lf_cut\<close>: the server stopped waiting for its handlers. In the step
  \<open>stopped\<close> below, \<open>waited\<close> says that the thirty seconds for the workers are over; \<open>grace_over\<close> is a
  \<^verbatim>\<open>Shutdown\<close> that fails, as it does with an expired deadline when the grace period ends.
\<close>

record life =
  lf_node :: Node
  lf_pc :: run_pc
  lf_ctx :: bool
  lf_accepting :: bool
  lf_inflight :: nat
  lf_workers :: "bg_worker set"
  lf_bgctx :: bool
  lf_err :: "go_error option"
  lf_cut :: bool

definition init_life :: "Node \<Rightarrow> life" where
  "init_life n = \<lparr>lf_node = n, lf_pc = Assembled, lf_ctx = False, lf_accepting = False, lf_inflight = 0, lf_workers = {},
     lf_bgctx = False, lf_err = None, lf_cut = False\<rparr>"

definition all_workers :: "Node \<Rightarrow> bg_worker set" where
  "all_workers n = {BgEvictor, BgFlusher} \<union> (if n_repair n \<noteq> None then {BgRepair} else {})"

definition on_node :: "(Node \<Rightarrow> Node) \<Rightarrow> life \<Rightarrow> life" where
  "on_node f s = s\<lparr>lf_node := f (lf_node s)\<rparr>"

definition on_health :: "(Health \<Rightarrow> Health) \<Rightarrow> Node \<Rightarrow> Node" where
  "on_health f n = n\<lparr>n_health := f (n_health n)\<rparr>"

definition on_store :: "(Store \<Rightarrow> Store) \<Rightarrow> Node \<Rightarrow> Node" where
  "on_store f n = n\<lparr>n_coord := (n_coord n)\<lparr>co_local := f (co_local (n_coord n))\<rparr>\<rparr>"

text \<open>The start of \<^verbatim>\<open>Run\<close>: the context of the workers and the workers themselves.\<close>

definition start_background :: "life \<Rightarrow> life" where
  "start_background s = s\<lparr>lf_node := (lf_node s)\<lparr>n_bgCancel := True\<rparr>, lf_workers := all_workers (lf_node s), lf_pc := Started\<rparr>"

text \<open>A turn of \<^verbatim>\<open>flushTouches\<close>; an error is logged only.\<close>

definition flush_turn :: "tx_fault option \<Rightarrow> Store \<Rightarrow> Store" where
  "flush_turn fault s = on_index (\<lambda>i. snd (FlushTouches fault i)) s"

text \<open>What a worker does when it sees the cancelled context: the evictor returns, the flusher flushes once
  more, and the repair worker closes its queue and drains it.\<close>

definition end_worker :: "tx_fault option \<Rightarrow> bg_worker \<Rightarrow> Node \<Rightarrow> Node" where
  "end_worker fault b n =
     (case b of
        BgEvictor \<Rightarrow> n\<lparr>n_evictor := (n_evictor n)\<lparr>ev_done := True\<rparr>\<rparr>
      | BgFlusher \<Rightarrow> on_store (flush_turn fault) n
      | BgRepair \<Rightarrow> n\<lparr>n_repair := map_option (\<lambda>rw. finish_Run (rw\<lparr>rw_qclosed := True, rw_queue := []\<rparr>)) (n_repair n)\<rparr>)"

text \<open>The end of \<^verbatim>\<open>stopBackground\<close>.\<close>

definition close_workers :: "Node \<Rightarrow> Node" where
  "close_workers n = n\<lparr>n_evictor := ev_Close (n_evictor n), n_repair := map_option rw_Close (n_repair n)\<rparr>"

text \<open>The error that \<^verbatim>\<open>Server.Run\<close> returns after a shutdown: the one of \<^verbatim>\<open>Serve\<close>, or that of \<^verbatim>\<open>Shutdown\<close>
  unless it is the expired grace period.\<close>

definition shutdown_result :: "go_error option \<Rightarrow> go_error option \<Rightarrow> go_error option" where
  "shutdown_result serveErr shutdownErr =
     (if serveErr \<noteq> None then serveErr
      else case shutdownErr of
             None \<Rightarrow> None
           | Some e \<Rightarrow> if errors_is e SDeadlineExceeded then None else Some e)"

inductive life_step :: "life \<Rightarrow> life \<Rightarrow> bool" where
  signal: "life_step s (s\<lparr>lf_ctx := True\<rparr>)"
| arrive: "lf_accepting s \<Longrightarrow> life_step s (s\<lparr>lf_inflight := Suc (lf_inflight s)\<rparr>)"
| complete: "lf_inflight s = Suc k \<Longrightarrow> life_step s (s\<lparr>lf_inflight := k\<rparr>)"
| work: "lf_inflight s \<noteq> 0 \<or> lf_workers s \<noteq> {} \<Longrightarrow> node_setup c = node_setup (n_coord (lf_node s)) \<Longrightarrow>
    life_step s (on_node (\<lambda>n. n\<lparr>n_coord := c\<rparr>) s)"
| flush: "BgFlusher \<in> lf_workers s \<Longrightarrow> life_step s (on_node (on_store (flush_turn fault)) s)"
| worker_ends: "b \<in> lf_workers s \<Longrightarrow> lf_bgctx s \<Longrightarrow>
    life_step s (on_node (end_worker fault b) (s\<lparr>lf_workers := lf_workers s - {b}\<rparr>))"
| run: "lf_pc s = Assembled \<Longrightarrow> life_step s (start_background s)"
| announce: "lf_pc s = Started \<Longrightarrow> life_step s (on_node (on_health SetReady) (s\<lparr>lf_pc := Announced\<rparr>))"
| serve: "lf_pc s = Announced \<Longrightarrow> life_step s (s\<lparr>lf_accepting := True, lf_pc := Serving\<rparr>)"
| serve_fails: "lf_pc s = Serving \<Longrightarrow> life_step s (s\<lparr>lf_accepting := False, lf_err := Some e, lf_pc := ServerDone\<rparr>)"
| cancelled: "lf_pc s = Serving \<Longrightarrow> lf_ctx s \<Longrightarrow>
    life_step s (on_node (on_health (SetNotReady ''shutting down'')) (s\<lparr>lf_pc := Unready\<rparr>))"
| shutdown: "lf_pc s = Unready \<Longrightarrow> life_step s (s\<lparr>lf_accepting := False, lf_pc := Draining\<rparr>)"
| drained: "lf_pc s = Draining \<Longrightarrow> lf_inflight s = 0 \<Longrightarrow>
    life_step s (s\<lparr>lf_err := shutdown_result serveErr None, lf_pc := ServerDone\<rparr>)"
| grace_over: "lf_pc s = Draining \<Longrightarrow>
    life_step s (s\<lparr>lf_err := shutdown_result serveErr (Some e), lf_cut := True, lf_pc := ServerDone\<rparr>)"
| stop_background: "lf_pc s = ServerDone \<Longrightarrow>
    life_step s (on_node (\<lambda>n. n\<lparr>n_bgCancel := False\<rparr>) (s\<lparr>lf_bgctx := True, lf_pc := Stopping\<rparr>))"
| stopped: "lf_pc s = Stopping \<Longrightarrow> lf_workers s = {} \<or> waited \<Longrightarrow> life_step s (on_node close_workers (s\<lparr>lf_pc := RunReturned\<rparr>))"
| close_server: "lf_pc s = RunReturned \<Longrightarrow> life_step s (s\<lparr>lf_accepting := False, lf_pc := ServerClosed\<rparr>)"
| close_peers: "lf_pc s = ServerClosed \<Longrightarrow> life_step s (on_node (\<lambda>n. n\<lparr>n_peers := False\<rparr>) (s\<lparr>lf_pc := PeersClosed\<rparr>))"
| close_storage: "lf_pc s = PeersClosed \<Longrightarrow>
    life_step s (on_node (\<lambda>n. (on_store (\<lambda>st. snd (close_store ce st)) n)\<lparr>n_store := False\<rparr>) (s\<lparr>lf_pc := Closed\<rparr>))"

abbreviation life_steps :: "life \<Rightarrow> life \<Rightarrow> bool" where
  "life_steps \<equiv> life_step\<^sup>*\<^sup>*"

section \<open>Lemmas: assembly\<close>

text \<open>A node that can run: a ring with this node in it, a replica count the ring can meet, a valid quota, an
  open store with its index and evictor, a repair queue with room, and not ready yet.\<close>

definition node_ok :: "(bytes \<Rightarrow> bytes) \<Rightarrow> Node \<Rightarrow> bool" where
  "node_ok sha n \<longleftrightarrow>
     (let c = n_coord n; s = co_local c in
      config_ok (n_cfg n) \<and> ring_ok sha (co_ring c) \<and> r_self (co_ring c) = c_NodeName (n_cfg n) \<and>
      Size (co_ring c) = length (c_Peers (n_cfg n)) \<and> co_replicaCount c = c_ReplicaCount (n_cfg n) \<and>
      quota_Valid (ev_quota (n_evictor n)) = None \<and> 0 < ev_batchSize (n_evictor n) \<and>
      \<not> s_closed s \<and> s_evictor s \<and> s_index s \<noteq> None \<and> 0 < s_maxObject s \<and>
      (n_repair n \<noteq> None \<longleftrightarrow> 0 < c_RepairWorkers (n_cfg n)) \<and>
      (\<forall>rw. n_repair n = Some rw \<longrightarrow> 0 < rw_cap rw \<and> 0 < rw_auditBudget rw \<and> rw_nWorkers rw = c_RepairWorkers (n_cfg n)) \<and>
      h_live (n_health n) \<and> \<not> h_ready (n_health n))"

lemma sweepTemps_frame:
  "sweepTemps rd rm s = (err, s') \<Longrightarrow> s_closed s' = s_closed s \<and> s_maxObject s' = s_maxObject s \<and> s_index s' = s_index s"
  by (auto simp: sweepTemps_def split: option.splits prod.splits)

lemma Reconcile_frame:
  assumes "Reconcile env s = (Inr res, s')" "s_index s \<noteq> None"
  shows "s_closed s' = s_closed s \<and> s_maxObject s' = s_maxObject s \<and> s_index s' \<noteq> None"
  using assms by (auto simp: Reconcile_def bump_def Let_def split: option.splits sum.splits prod.splits)

lemma Open_fields:
  assumes "Open opts env fs tables = Inr s" "\<not> op_DisableIndex opts"
  shows "\<not> s_closed s" "s_maxObject s = op_MaxObjectBytes opts" "s_index s \<noteq> None"
  using assms Reconcile_frame sweepTemps_frame
  by (fastforce simp: Open_def Let_def split: if_splits option.splits sum.splits prod.splits)+

lemma close_store_closed: "s_closed (snd (close_store ce s))"
  by (cases ce) (auto simp: close_store_def store_Close_def split: option.splits prod.splits)

text \<open>What \<^verbatim>\<open>New\<close> built when it succeeds.\<close>

lemma node_New_Inr:
  assumes "node_New sha env cfg = (Inr n, st)"
  obtains store ring coord0 evictor where
    "Validate (ne_url env) cfg = None"
    "Open \<lparr>op_Root = ne_abs env (c_DataDir cfg), op_MaxObjectBytes = c_MaxObjectBytes cfg, op_VerifyReads = c_VerifyReads cfg,
       op_DisableIndex = False\<rparr> (ne_open env) (ne_fs env) (ne_tables env) = Inr store"
    "New sha (c_Peers cfg) (c_NodeName cfg) = Inr ring"
    "NewCoordinator (Some ring) (Some store) True (c_ReplicaCount cfg) = Inr coord0"
    "NewEvictor True (s_index store \<noteq> None) (node_quota cfg) no_policy 0 = Inr evictor"
    "n_cfg n = cfg" "n_evictor n = evictor" "h_live (n_health n)" "\<not> h_ready (n_health n)" "n_store n" "n_peers n"
    "n_coord n = SetQuotaProbe (HighBytes (ne_float env) (ev_quota evictor)) (coord0\<lparr>co_local := AttachEvictor store\<rparr>)"
    "if c_RepairWorkers cfg > 0
     then map_sum id Some (NewWorker (Some (n_coord n)) (c_RepairWorkers cfg) (c_RepairQueue cfg) 0) = Inr (n_repair n) else n_repair n = None"
    "st = Some (AttachEvictor store)"
proof -
  from assms obtain store where s: "Validate (ne_url env) cfg = None"
    "Open \<lparr>op_Root = ne_abs env (c_DataDir cfg), op_MaxObjectBytes = c_MaxObjectBytes cfg, op_VerifyReads = c_VerifyReads cfg,
       op_DisableIndex = False\<rparr> (ne_open env) (ne_fs env) (ne_tables env) = Inr store"
    by (auto simp: node_New_def Let_def split: option.splits sum.splits)
  from assms s obtain ring where r: "New sha (c_Peers cfg) (c_NodeName cfg) = Inr ring"
    by (auto simp: node_New_def Let_def split: sum.splits)
  from assms s r obtain coord0 where c: "NewCoordinator (Some ring) (Some store) True (c_ReplicaCount cfg) = Inr coord0"
    by (auto simp: node_New_def Let_def split: sum.splits)
  from assms s r c obtain ev where e: "NewEvictor True (s_index store \<noteq> None) (node_quota cfg) no_policy 0 = Inr ev"
    by (auto simp: node_New_def Let_def split: sum.splits)
  show ?thesis
    by (rule that [OF s r c e])
      (use assms s r c e in \<open>auto simp: node_New_def Let_def NewHealth_def SetNotReady_def split: sum.splits option.splits if_splits\<close>)
qed

lemma Size_New: "New sha ps self = Inr r \<Longrightarrow> Size r = length ps"
  by (auto simp: New_Inr Size_def)



lemma NewCoordinator_ok:
  assumes "NewCoordinator (Some r) (Some s) p rf = Inr c" "1 \<le> rf" "rf \<le> int (Size r)"
  shows "co_ring c = r" "co_replicaCount c = rf" "co_local c = s" "co_peers c = p"
  using assms by (auto simp: NewCoordinator_def Let_def)

lemma NewEvictor_ok:
  assumes "NewEvictor hs hi q p b = Inr ev"
  shows "ev_quota ev = q" "quota_Valid q = None" "0 < ev_batchSize ev"
  using assms by (auto simp: NewEvictor_def defaultEvictBatch_def split: if_splits option.splits)

lemma AttachEvictor_sel [simp]:
  "s_closed (AttachEvictor s) = s_closed s" "s_evictor (AttachEvictor s)" "s_index (AttachEvictor s) = s_index s"
  "s_maxObject (AttachEvictor s) = s_maxObject s" "s_fs (AttachEvictor s) = s_fs s" "s_root (AttachEvictor s) = s_root s"
  by (simp_all add: AttachEvictor_def)

lemma SetQuotaProbe_sel [simp]:
  "co_ring (SetQuotaProbe h c) = co_ring c" "co_local (SetQuotaProbe h c) = co_local c" "co_peers (SetQuotaProbe h c) = co_peers c"
  "co_replicaCount (SetQuotaProbe h c) = co_replicaCount c" "co_high (SetQuotaProbe h c) = Some h"
  by (simp_all add: SetQuotaProbe_def)

lemma node_New_ok:
  assumes "node_New sha env cfg = (Inr n, st)"
  shows "node_ok sha n" "n_cfg n = cfg" "co_peers (n_coord n)" "co_high (n_coord n) = Some (HighBytes (ne_float env) (node_quota cfg))"
    "New sha (c_Peers cfg) (c_NodeName cfg) = Inr (co_ring (n_coord n))"
proof -
  from assms show "node_ok sha n" "n_cfg n = cfg" "co_peers (n_coord n)" "co_high (n_coord n) = Some (HighBytes (ne_float env) (node_quota cfg))"
    "New sha (c_Peers cfg) (c_NodeName cfg) = Inr (co_ring (n_coord n))"
  proof (rule_tac [!] node_New_Inr [OF assms], goal_cases)
    case (1 store ring coord0 ev)
    note cfg = Validate_None_config_ok [OF 1(2)] and o = Open_fields [OF 1(3)] and e = NewEvictor_ok [OF 1(6)]
    have rf: "1 \<le> c_ReplicaCount cfg" "c_ReplicaCount cfg \<le> int (Size ring)" "0 < c_RepairQueue cfg" "0 < c_MaxObjectBytes cfg"
      using cfg Size_New [OF 1(4)] by (simp_all add: config_ok_def)
    note c = NewCoordinator_ok [OF 1(5) rf(1,2)]
    have w: "0 < c_RepairWorkers cfg \<longleftrightarrow> n_repair n \<noteq> None"
      "n_repair n = Some rw \<Longrightarrow> 0 < rw_cap rw \<and> 0 < rw_auditBudget rw \<and> rw_nWorkers rw = c_RepairWorkers cfg" for rw
      using 1(14) rf(3) by (cases "n_repair n"; auto simp: NewWorker_def defaultAuditBudget_def split: if_splits)+
    have self: "r_self ring = c_NodeName cfg" using 1(4) by (simp add: New_Inr)
    show ?case unfolding node_ok_def Let_def 1(7,8,13)
      using cfg o e c w rf New_ring_ok [OF 1(4)] Size_New [OF 1(4)] self 1(9,10) by simp
  next
    case (4 store ring coord0 ev)
    then show ?case using NewEvictor_ok(1) [OF 4(6)] by simp
  next
    case (5 store ring coord0 ev)
    have "1 \<le> c_ReplicaCount cfg" "c_ReplicaCount cfg \<le> int (Size ring)"
      using Validate_None_config_ok [OF 5(2)] Size_New [OF 5(4)] by (simp_all add: config_ok_def)
    with 5 NewCoordinator_ok(1) [OF 5(5)] show ?case by simp
  qed (auto simp: NewCoordinator_def Let_def)
qed

lemma node_New_named: "node_New sha env cfg = (Inr n, st) \<Longrightarrow> c_NodeName cfg \<noteq> ''''"
  by (erule node_New_Inr) (auto simp: Validate_def trim_space_def)

section \<open>Lemmas: the life of a node\<close>

text \<open>The order of the main goroutine's places.\<close>

fun pc_rank :: "run_pc \<Rightarrow> nat" where
  "pc_rank Assembled = 0"
| "pc_rank Started = 1"
| "pc_rank Announced = 2"
| "pc_rank Serving = 3"
| "pc_rank Unready = 4"
| "pc_rank Draining = 5"
| "pc_rank ServerDone = 6"
| "pc_rank Stopping = 7"
| "pc_rank RunReturned = 8"
| "pc_rank ServerClosed = 9"
| "pc_rank PeersClosed = 10"
| "pc_rank Closed = 11"

abbreviation pc_at :: "life \<Rightarrow> nat" where
  "pc_at s \<equiv> pc_rank (lf_pc s)"

abbreviation store_of :: "life \<Rightarrow> Store" where
  "store_of s \<equiv> co_local (n_coord (lf_node s))"

definition life_inv :: "life \<Rightarrow> bool" where
  "life_inv s \<longleftrightarrow>
     (pc_at s < 3 \<longrightarrow> \<not> lf_accepting s \<and> lf_inflight s = 0) \<and> (5 \<le> pc_at s \<longrightarrow> \<not> lf_accepting s) \<and>
     (lf_bgctx s \<longleftrightarrow> 7 \<le> pc_at s) \<and> (\<not> lf_bgctx s \<and> 1 \<le> pc_at s \<longrightarrow> lf_workers s = all_workers (lf_node s)) \<and>
     (s_closed (store_of s) \<longleftrightarrow> lf_pc s = Closed) \<and>
     (6 \<le> pc_at s \<and> \<not> lf_cut s \<and> lf_err s = None \<longrightarrow> lf_inflight s = 0) \<and>
     (lf_err s = None \<longrightarrow> (h_ready (n_health (lf_node s)) \<longleftrightarrow> lf_pc s = Announced \<or> lf_pc s = Serving)) \<and>
     (lf_err s \<noteq> None \<or> lf_cut s \<longrightarrow> 6 \<le> pc_at s)"

lemmas life_defs = on_node_def on_health_def on_store_def start_background_def end_worker_def close_workers_def flush_turn_def
  on_index_def SetReady_def SetNotReady_def all_workers_def

lemma init_life_inv: "\<not> s_closed (co_local (n_coord n)) \<Longrightarrow> \<not> h_ready (n_health n) \<Longrightarrow> life_inv (init_life n)"
  by (simp add: life_inv_def init_life_def)

lemma life_step_inv:
  assumes "life_step s s'" "life_inv s"
  shows "life_inv s'"
  using assms
proof (cases rule: life_step.cases)
  case signal
  then show ?thesis using assms(2) by (simp add: life_inv_def)
next
  case arrive
  then show ?thesis using assms(2) by (cases "lf_err s"; cases "lf_cut s") (simp_all add: life_inv_def)
next
  case (complete k)
  then show ?thesis using assms(2) by (cases "lf_err s"; cases "lf_cut s") (simp_all add: life_inv_def)
next
  case (work c)
  then have "s_closed (co_local c) = s_closed (store_of s)" by (simp add: node_setup_def)
  with work assms(2) show ?thesis by (simp add: life_inv_def life_defs)
next
  case (flush fault)
  then show ?thesis using assms(2) by (simp add: life_inv_def life_defs)
next
  case (worker_ends b fault)
  then show ?thesis using assms(2) by (cases b) (simp_all add: life_inv_def life_defs)
next
  case (close_storage ce)
  then show ?thesis using assms(2) by (simp add: life_inv_def life_defs close_store_closed)
qed (simp_all add: life_inv_def life_defs shutdown_result_def split: if_splits option.splits)

lemma life_steps_inv: "life_steps s s' \<Longrightarrow> life_inv s \<Longrightarrow> life_inv s'"
  by (induction rule: rtranclp_induct) (auto intro: life_step_inv)

lemma life_step_mono: "life_step s s' \<Longrightarrow> pc_at s \<le> pc_at s' \<and> (lf_ctx s \<longrightarrow> lf_ctx s')"
  by (erule life_step.cases) (simp_all add: on_node_def start_background_def)

text \<open>Once the signal has come, the main goroutine can always take its next step.\<close>

lemma main_progress:
  assumes "lf_ctx s" "lf_pc s \<noteq> Closed"
  shows "\<exists>s'. life_step s s' \<and> pc_at s' = Suc (pc_at s)"
proof (cases "lf_pc s")
  case Assembled
  then show ?thesis using life_step.run [of s] by (auto simp: start_background_def)
next
  case Started
  then show ?thesis using life_step.announce [of s] by (auto simp: on_node_def)
next
  case Announced
  then show ?thesis using life_step.serve [of s] by auto
next
  case Serving
  then show ?thesis using life_step.cancelled [of s] assms(1) by (auto simp: on_node_def)
next
  case Unready
  then show ?thesis using life_step.shutdown [of s] by auto
next
  case Draining
  then show ?thesis using life_step.grace_over [of s None CtxDeadlineExceeded] by auto
next
  case ServerDone
  then show ?thesis using life_step.stop_background [of s] by (auto simp: on_node_def)
next
  case Stopping
  then show ?thesis using life_step.stopped [of s True] by (auto simp: on_node_def)
next
  case RunReturned
  then show ?thesis using life_step.close_server [of s] by auto
next
  case ServerClosed
  then show ?thesis using life_step.close_peers [of s] by (auto simp: on_node_def)
next
  case PeersClosed
  then show ?thesis using life_step.close_storage [of s "(None, None, None)"] by (auto simp: on_node_def)
qed (use assms in simp)

lemma pc_at_le: "pc_at s \<le> 11"
  by (cases "lf_pc s") simp_all

text \<open>A run in which a step of the main goroutine follows after finitely many others.\<close>

lemma reaches_Closed:
  assumes "lf_ctx s"
  shows "\<exists>s'. life_steps s s' \<and> lf_pc s' = Closed"
  using assms
proof (induction "11 - pc_at s" arbitrary: s rule: less_induct)
  case less
  show ?case
  proof (cases "lf_pc s = Closed")
    case False
    then obtain s1 where s1: "life_step s s1" "pc_at s1 = Suc (pc_at s)" using main_progress less.prems by blast
    have "11 - pc_at s1 < 11 - pc_at s" using s1(2) pc_at_le [of s1] by simp
    with less.hyps [of s1] life_step_mono [OF s1(1)] less.prems obtain s' where "life_steps s1 s'" "lf_pc s' = Closed" by blast
    with s1(1) show ?thesis by (blast intro: converse_rtranclp_into_rtranclp)
  qed blast
qed

section \<open>Properties\<close>


text \<open>An assembly that fails leaves nothing open: if \<^verbatim>\<open>New\<close> returns an error, the store was never opened or has
  been closed again; and it fails with a bad configuration before it touches the disk.\<close>

theorem node_New_releases:
  assumes "node_New sha env cfg = (Inl e, st)"
  shows "(\<forall>s. st = Some s \<longrightarrow> s_closed s) \<and> (Validate (ne_url env) cfg \<noteq> None \<longrightarrow> st = None)"
  using assms by (auto simp: node_New_def Let_def close_store_closed split: option.splits sum.splits if_splits)

text \<open>C28: Nodes that \<^verbatim>\<open>New\<close> assembles from a consistent deployment form the cluster the replication properties
  are about: if every node's configuration carries its own name and the URLs of its peers lead to the
  nodes of these names, then the cluster is wired, every node has a peer client and an open store, and
  each keeps the configured number of copies.\<close>

theorem assembled_cluster_wired:
  assumes "\<forall>n \<in> N. node_New (sy_sha sys) (env n) (cfg n) = (Inr (nd n), st n) \<and> c_NodeName (cfg n) = n \<and>
      (\<forall>p \<in> set (c_Peers (cfg n)). sy_hosts sys (m_URL (mk_member (sy_sha sys) p)) = Some (m_Name (mk_member (sy_sha sys) p)))"
    "\<forall>h n. sy_hosts sys h = Some n \<longrightarrow> n \<in> N"
  shows "wired sys N (\<lambda>n. n_coord (nd n)) \<and>
     (\<forall>n \<in> N. co_peers (n_coord (nd n)) \<and> \<not> s_closed (co_local (n_coord (nd n))) \<and>
        (\<forall>key. int (length (holders_at sys (\<lambda>n. n_coord (nd n)) n key)) = c_ReplicaCount (cfg n)))"
proof -
  have ok: "node_ok (sy_sha sys) (nd n)" "n_cfg (nd n) = cfg n" "co_peers (n_coord (nd n))"
    "New (sy_sha sys) (c_Peers (cfg n)) (c_NodeName (cfg n)) = Inr (co_ring (n_coord (nd n)))" if "n \<in> N" for n
    using node_New_ok [of "sy_sha sys" "env n" "cfg n" "nd n" "st n"] assms(1) that by simp_all
  have "'''' \<notin> N"
  proof
    assume e: "'''' \<in> N"
    with assms(1) have "node_New (sy_sha sys) (env '''') (cfg '''') = (Inr (nd ''''), st '''')" "c_NodeName (cfg '''') = ''''" by auto
    from node_New_named [OF this(1)] this(2) show False by simp
  qed
  moreover have "sy_hosts sys (m_URL m) = Some (m_Name m)" if n: "n \<in> N" and m: "m \<in> set (r_members (co_ring (n_coord (nd n))))" for n m
  proof -
    have "m \<in> mk_member (sy_sha sys) ` set (c_Peers (cfg n))" using m ok(4) [OF n] by (simp add: New_Inr)
    with assms(1) n show ?thesis by blast
  qed
  moreover have f: "r_self (co_ring (n_coord (nd n))) = n" "ring_ok (sy_sha sys) (co_ring (n_coord (nd n)))"
    "\<not> s_closed (co_local (n_coord (nd n)))" "co_replicaCount (n_coord (nd n)) = c_ReplicaCount (cfg n)"
    "Size (co_ring (n_coord (nd n))) = length (c_Peers (cfg n))" "1 \<le> c_ReplicaCount (cfg n)"
    "c_ReplicaCount (cfg n) \<le> int (length (c_Peers (cfg n)))" if "n \<in> N" for n
    using ok(1,2) [OF that] assms(1) that by (simp_all add: node_ok_def Let_def config_ok_def)
  moreover have "int (length (holders_at sys (\<lambda>n. n_coord (nd n)) n key)) = c_ReplicaCount (cfg n)" if "n \<in> N" for n key
    using f [OF that] rdv.owners_length [of "sy_sha sys" "co_ring (n_coord (nd n))" key] by (simp add: Holders_take Size_def)
  ultimately show ?thesis using assms(2) ok(3) unfolding wired_def by blast
qed



text \<open>The grace period does not end the handlers: a node can close its store while a request is still in
  flight, whatever node it is.\<close>

lemma cut_requests_outlive_store: "\<exists>s. life_steps (init_life n) s \<and> s_closed (store_of s) \<and> lf_inflight s = 1 \<and> lf_err s = None"
proof -
  define s1 where "s1 = (init_life n)\<lparr>lf_ctx := True\<rparr>"
  define s2 where "s2 = on_node (on_health SetReady) ((start_background s1)\<lparr>lf_pc := Announced\<rparr>)"
  define s3 where "s3 = s2\<lparr>lf_accepting := True, lf_pc := Serving\<rparr>"
  define s4 where "s4 = on_node (on_health (SetNotReady ''shutting down'')) ((s3\<lparr>lf_inflight := Suc (lf_inflight s3)\<rparr>)\<lparr>lf_pc := Unready\<rparr>)"
  define s5 where "s5 = s4\<lparr>lf_accepting := False, lf_pc := Draining\<rparr>"
  define s6 where "s6 = s5\<lparr>lf_err := shutdown_result None (Some CtxDeadlineExceeded), lf_cut := True, lf_pc := ServerDone\<rparr>"
  define s7 where "s7 = on_node (\<lambda>n. n\<lparr>n_bgCancel := False\<rparr>) (s6\<lparr>lf_bgctx := True, lf_pc := Stopping\<rparr>)"
  define s8 where "s8 = on_node close_workers (s7\<lparr>lf_pc := RunReturned\<rparr>)"
  define s9 where "s9 = on_node (\<lambda>n. n\<lparr>n_peers := False\<rparr>) ((s8\<lparr>lf_accepting := False, lf_pc := ServerClosed\<rparr>)\<lparr>lf_pc := PeersClosed\<rparr>)"
  define s10 where "s10 = on_node (\<lambda>n. (on_store (\<lambda>st. snd (close_store (None, None, None) st)) n)\<lparr>n_store := False\<rparr>) (s9\<lparr>lf_pc := Closed\<rparr>)"
  have "life_step (init_life n) s1" unfolding s1_def by (rule signal)
  moreover have "life_step s1 (start_background s1)" by (rule life_step.run) (simp add: s1_def init_life_def)
  moreover have "life_step (start_background s1) s2" unfolding s2_def by (rule announce) (simp add: start_background_def)
  moreover have "life_step s2 s3" unfolding s3_def by (rule serve) (simp add: s2_def on_node_def)
  moreover have "life_step s3 (s3\<lparr>lf_inflight := Suc (lf_inflight s3)\<rparr>)" by (rule arrive) (simp add: s3_def)
  moreover have "life_step (s3\<lparr>lf_inflight := Suc (lf_inflight s3)\<rparr>) s4" unfolding s4_def
    by (rule cancelled) (simp_all add: s3_def s2_def s1_def on_node_def start_background_def)
  moreover have "life_step s4 s5" unfolding s5_def by (rule shutdown) (simp add: s4_def on_node_def)
  moreover have "life_step s5 s6" unfolding s6_def by (rule grace_over) (simp add: s5_def)
  moreover have "life_step s6 s7" unfolding s7_def by (rule stop_background) (simp add: s6_def)
  moreover have "life_step s7 s8" unfolding s8_def by (rule stopped [where waited = True]) (simp_all add: s7_def on_node_def)
  moreover have "life_step s8 (s8\<lparr>lf_accepting := False, lf_pc := ServerClosed\<rparr>)" by (rule close_server) (simp add: s8_def on_node_def)
  moreover have "life_step (s8\<lparr>lf_accepting := False, lf_pc := ServerClosed\<rparr>) s9" unfolding s9_def by (rule close_peers) simp
  moreover have "life_step s9 s10" unfolding s10_def by (rule close_storage) (simp add: s9_def on_node_def)
  ultimately have "life_steps (init_life n) s10" by (meson rtranclp.rtrancl_refl converse_rtranclp_into_rtranclp)
  moreover have "s_closed (store_of s10)" "lf_inflight s10 = 1" "lf_err s10 = None"
    by (simp_all add: s10_def s9_def s8_def s7_def s6_def s5_def s4_def s3_def s2_def s1_def init_life_def on_node_def on_store_def
        start_background_def close_store_closed shutdown_result_def)
  ultimately show ?thesis by blast
qed

section \<open>Witnesses\<close>

text \<open>Three configurations over one peer list, on empty disks.\<close>

definition ex_cfg :: "string \<Rightarrow> Config" where
  "ex_cfg n = ex_config\<lparr>c_NodeName := n, c_Peers := ex_peers, c_ReplicaCount := 2\<rparr>"

definition ex_open_env :: open_env where
  "ex_open_env = \<lparr>oe_abs = None, oe_mkdir = None, oe_readdir = None, oe_rm = (\<lambda>_. None), oe_index = None, oe_reconcile = ex_renv\<rparr>"

definition ex_new_env :: "go_error option \<Rightarrow> descriptor list new_env" where
  "ex_new_env listen = \<lparr>ne_url = cv_url ex_converters, ne_abs = (\<lambda>d. [d]), ne_open = ex_open_env,
     ne_fs = [], ne_tables = ([], []), ne_float = ex_fe, ne_totals = None, ne_register = (\<lambda>r d. Inr (d # r)), ne_registry = [],
     ne_listen = listen, ne_close = (None, None, None), ne_now = 0\<rparr>"

lemma register_all_total: "\<exists>r'. register_all (\<lambda>r d. Inr (d # r)) node ss r = Inr r'"
  by (induction ss arbitrary: r) auto

lemma ex_opened: "\<exists>s. Open \<lparr>op_Root = [d], op_MaxObjectBytes = m, op_VerifyReads = v, op_DisableIndex = False\<rparr>
     ex_open_env [] ([], []) = Inr s \<and> s_index s \<noteq> None"
  by (simp add: Open_def ex_open_env_def sweepTemps_def stale_temps_def OpenIndex_def indexPath_def Reconcile_def reconcile_walk_def
      Walk_def walk_files_def ReplaceAll_def Totals_def All_def entries_def db_err_def tx_fault_of_def ex_renv_def exec_fault_def
      bump_def Let_def)

lemma ex_cfg_valid: "n \<in> {''a'', ''b'', ''c''} \<Longrightarrow> Validate (cv_url ex_converters) (ex_cfg n) = None"
  by (auto simp: Validate_def ex_cfg_def ex_config_def ex_converters_def Defaults_def trim_space_def is_space_def ex_peers_def)

lemma ex_assembled:
  assumes "n \<in> {''a'', ''b'', ''c''}"
  shows "\<exists>nd st. node_New ex_sha (ex_new_env None) (ex_cfg n) = (Inr nd, Some st)"
    "\<exists>e st. node_New ex_sha (ex_new_env (Some (IoErr ''address already in use''))) (ex_cfg n) = (Inl e, Some st)"
proof -
  obtain s where s: "Open \<lparr>op_Root = [c_DataDir (ex_cfg n)], op_MaxObjectBytes = c_MaxObjectBytes (ex_cfg n), op_VerifyReads = c_VerifyReads (ex_cfg n),
      op_DisableIndex = False\<rparr> ex_open_env [] ([], []) = Inr s" "s_index s \<noteq> None" using ex_opened by blast
  have r: "New ex_sha (c_Peers (ex_cfg n)) (c_NodeName (ex_cfg n)) = Inr (ex_node_ring n)"
    using assms by (auto simp: New_Inr ex_cfg_def ex_node_ring_def ex_ring_def ex_peers_def peer_key_def trim_space_def is_space_def)
  have q: "quota_Valid (node_quota (ex_cfg n)) = None"
    by (simp add: quota_Valid_def node_quota_def ex_cfg_def ex_config_def Defaults_def)
  obtain c0 where c: "NewCoordinator (Some (ex_node_ring n)) (Some s) True (c_ReplicaCount (ex_cfg n)) = Inr c0"
    by (simp add: NewCoordinator_def Let_def)
  obtain ev where e: "NewEvictor True (s_index s \<noteq> None) (node_quota (ex_cfg n)) no_policy 0 = Inr ev"
    using s(2) q by (simp add: NewEvictor_def)
  obtain rw where w: "NewWorker (Some x) (c_RepairWorkers (ex_cfg n)) (c_RepairQueue (ex_cfg n)) 0 = Inr rw" "0 < c_RepairWorkers (ex_cfg n)" for x
    by (simp add: NewWorker_def ex_cfg_def ex_config_def Defaults_def)
  have h: "\<exists>r'. RegisterSources (\<lambda>r d. Inr (d # r)) node (metricSources v) r = Inr r'" for node v r
    using register_all_total no_clash_help [OF metricSources_no_clash] by (simp add: RegisterSources_def)
  have env: "ne_open (ex_new_env l) = ex_open_env" "ne_url (ex_new_env l) = cv_url ex_converters" "ne_abs (ex_new_env l) = (\<lambda>d. [d])"
    "ne_fs (ex_new_env l) = []" "ne_tables (ex_new_env l) = ([], [])" "ne_register (ex_new_env l) = (\<lambda>r d. Inr (d # r))" "ne_listen (ex_new_env l) = l"
    for l by (simp_all add: ex_new_env_def)
  have split: "\<exists>x y. (case R of Inl z \<Rightarrow> f z | Inr z \<Rightarrow> g) = (h' x, Some y)" if "\<exists>r'. R = Inr r'" "\<exists>x y. g = (h' x, Some y)"
    for R :: "descriptor list result" and f g and h' :: "'x \<Rightarrow> Node result"
    using that by auto
  show "\<exists>nd st. node_New ex_sha (ex_new_env None) (ex_cfg n) = (Inr nd, Some st)"
    unfolding node_New_def Let_def env ex_cfg_valid [OF assms] option.case s(1) r c e sum.case w(1) if_P [OF w(2)] map_sum.simps NewServer_def option.map
    by (rule split [OF h]) blast
  show "\<exists>e st. node_New ex_sha (ex_new_env (Some (IoErr ''address already in use''))) (ex_cfg n) = (Inl e, Some st)"
    unfolding node_New_def Let_def env ex_cfg_valid [OF assms] option.case s(1) r c e sum.case w(1) if_P [OF w(2)] map_sum.simps NewServer_def option.map
    by (rule split [OF h]) blast
qed


definition ex_nodes :: "string \<Rightarrow> Node" where
  "ex_nodes n = projr (fst (node_New ex_sha (ex_new_env None) (ex_cfg n)))"

lemma ex_nodes_New:
  "n \<in> {''a'', ''b'', ''c''} \<Longrightarrow> node_New ex_sha (ex_new_env None) (ex_cfg n) = (Inr (ex_nodes n), snd (node_New ex_sha (ex_new_env None) (ex_cfg n)))"
proof -
  assume "n \<in> {''a'', ''b'', ''c''}"
  then obtain nd st where "node_New ex_sha (ex_new_env None) (ex_cfg n) = (Inr nd, st)" using ex_assembled(1) [of n] by blast
  then show ?thesis by (simp only: ex_nodes_def fst_conv snd_conv sum.sel)
qed

lemma ex_peer_hosts:
  "p \<in> set ex_peers \<Longrightarrow> ex_hosts (m_URL (mk_member ex_sha p)) = Some (m_Name (mk_member ex_sha p))"
  by (auto simp: ex_peers_def mk_member_def ex_hosts_def Let_def trim_right_def trim_space_def is_space_def)

theorem assembled_cluster_wired_witness: "wired (ex_sys (\<lambda>x y. NetOk)) {''a'', ''b'', ''c''} (\<lambda>n. n_coord (ex_nodes n))"
proof -
  have "c_NodeName (ex_cfg n) = n" "c_Peers (ex_cfg n) = ex_peers" for n by (simp_all add: ex_cfg_def)
  then have 1: "\<forall>n \<in> {''a'', ''b'', ''c''}. node_New (sy_sha (ex_sys (\<lambda>x y. NetOk))) (ex_new_env None) (ex_cfg n) =
      (Inr (ex_nodes n), snd (node_New ex_sha (ex_new_env None) (ex_cfg n))) \<and> c_NodeName (ex_cfg n) = n \<and>
      (\<forall>p \<in> set (c_Peers (ex_cfg n)). sy_hosts (ex_sys (\<lambda>x y. NetOk)) (m_URL (mk_member (sy_sha (ex_sys (\<lambda>x y. NetOk))) p)) =
         Some (m_Name (mk_member (sy_sha (ex_sys (\<lambda>x y. NetOk))) p)))"
    using ex_nodes_New ex_peer_hosts by simp
  have 2: "\<forall>h n. sy_hosts (ex_sys (\<lambda>x y. NetOk)) h = Some n \<longrightarrow> n \<in> {''a'', ''b'', ''c''}"
    by (simp add: ex_hosts_def)
  show ?thesis using assembled_cluster_wired [OF 1 2] by blast
qed



end
