(* ===== verification/Drivers.thy ===== *)
theory Drivers
  imports NodeLife
begin

text \<open>
  What the two drivers \<^verbatim>\<open>cmd/chaos\<close> and \<^verbatim>\<open>cmd/bench\<close> share: the requests they send, the random numbers they
  draw, the JSON values they read back, and how they wait for nodes to become ready.

  The HTTP client is a \<open>transport\<close> as in the peer client; \<open>bad\<close> says which URLs do not parse. Random
  numbers come from the record \<open>rng\<close>, the functions of \<^verbatim>\<open>math/rand\<close> on an explicit state; what the
  drivers rely on is \<open>rng_ok\<close>. Reading the clock is consuming a list of readings.
\<close>

section \<open>Requests\<close>

text \<open>\<^verbatim>\<open>http.NewRequestWithContext\<close> for a base URL and a path, with the content as its body.\<close>

definition NewRequest :: "(string \<Rightarrow> go_error option) \<Rightarrow> string \<Rightarrow> string \<Rightarrow> string \<Rightarrow> bytes \<Rightarrow> http_req result" where
  "NewRequest bad method base path content =
     (case bad (base @ path) of
        Some e \<Rightarrow> Inl e
      | None \<Rightarrow> Inr \<lparr>rq_method = method, rq_host = base, rq_path = path, rq_headers = [],
                     rq_length = int (length content), rq_body = (content, None)\<rparr>)"

definition cas_path :: "key \<Rightarrow> string" where
  "cas_path key = ''/cas/'' @ key"

section \<open>Random numbers\<close>

record 's rng =
  rg_Seed :: "int \<Rightarrow> 's"
  rg_Intn :: "nat \<Rightarrow> 's \<Rightarrow> nat \<times> 's"
  rg_Uint32 :: "'s \<Rightarrow> 32 word \<times> 's"
  rg_Float64 :: "'s \<Rightarrow> f64 \<times> 's"
  rg_Read :: "nat \<Rightarrow> 's \<Rightarrow> bytes \<times> 's"

definition rng_ok :: "'s rng \<Rightarrow> bool" where
  "rng_ok g \<longleftrightarrow> (\<forall>n s. 0 < n \<longrightarrow> fst (rg_Intn g n s) < n) \<and> (\<forall>n s. length (fst (rg_Read g n s)) = n)"

text \<open>The loop that fills a slice with \<^verbatim>\<open>byte(r.Uint32())\<close>.\<close>

fun draw_bytes :: "'s rng \<Rightarrow> nat \<Rightarrow> 's \<Rightarrow> bytes \<times> 's" where
  "draw_bytes g 0 s = ([], s)"
| "draw_bytes g (Suc n) s =
     (case rg_Uint32 g s of (u, s1) \<Rightarrow>
        (case draw_bytes g n s1 of (bs, s2) \<Rightarrow> (char_of (unat u) # bs, s2)))"

section \<open>JSON values\<close>

datatype json = JNull | JBool bool | JNum f64 | JStr string | JArr "json list" | JObj "(string \<times> json) list"

type_synonym json_object = "(string, json) gomap"

text \<open>The field of an object that is itself an object.\<close>

definition json_section :: "json_object \<Rightarrow> string \<Rightarrow> json_object option" where
  "json_section m k = (case mget m k of Some (JObj fs) \<Rightarrow> Some fs | _ \<Rightarrow> None)"

section \<open>Waiting for nodes\<close>

text \<open>
  Polling one node until it is ready or the deadline has passed. The clock gives the time of each check
  and whether the context is done then; \<open>None\<close> means that the poll goes on after the last reading.
  The result is the error that ends the wait, or whether the node became ready.
\<close>

fun poll_ready ::
  "(string \<Rightarrow> go_error option) \<Rightarrow> 'w transport \<Rightarrow> time \<Rightarrow> string \<Rightarrow> (time \<times> go_error option) list \<Rightarrow> 'w \<Rightarrow>
     (bool result \<times> (time \<times> go_error option) list \<times> 'w) option" where
  "poll_ready bad tr deadline url [] w = None"
| "poll_ready bad tr deadline url ((now, ctx) # clock) w =
     (if \<not> now < deadline then Some (Inr False, clock, w)
      else case ctx of
        Some e \<Rightarrow> Some (Inl e, clock, w)
      | None \<Rightarrow>
        (case NewRequest bad ''GET'' url ''/readyz'' [] of
           Inl e \<Rightarrow> Some (Inl e, clock, w)
         | Inr req \<Rightarrow>
           (case tr req w of
              (Inl e, w') \<Rightarrow> poll_ready bad tr deadline url clock w'
            | (Inr resp, w') \<Rightarrow>
                if rs_status resp = 200 then Some (Inr True, clock, w') else poll_ready bad tr deadline url clock w')))"

section \<open>Lemmas\<close>

lemma NewRequest_Inr:
  assumes "NewRequest bad method base path content = Inr req"
  shows "rq_method req = method" "rq_host req = base" "rq_path req = path" "rq_headers req = []"
    "rq_length req = int (length content)" "rq_body req = (content, None)" "sent_body req = (content, None)" "write_error req = None"
  using assms by (auto simp: NewRequest_def sent_body_def write_error_def split: option.splits)

lemma length_draw_bytes: "length (fst (draw_bytes g n s)) = n"
  by (induction n arbitrary: s) (auto split: prod.splits, metis fst_conv)

text \<open>The wait ends: a reading of the clock that is not before the deadline ends it.\<close>

lemma poll_ready_ends:
  "\<exists>(now, ctx) \<in> set clock. \<not> now < deadline \<Longrightarrow> \<exists>r. poll_ready bad tr deadline url clock w = Some r"
  by (induction bad tr deadline url clock w rule: poll_ready.induct)
    (auto split: option.splits sum.splits prod.splits)

end
