(* ===== verification/BenchLatency.thy ===== *)
theory BenchLatency
  imports Drivers
begin

text \<open>
  \<^verbatim>\<open>cmd/bench/latency.go\<close>: the collector of latencies and the summary of their distribution. The
  percentiles are computed in floating point; the theorem at the end says that they are the exact
  nearest ranks.
\<close>

section \<open>Floating-point operations\<close>

text \<open>\<^verbatim>\<open>math.Ceil\<close>.\<close>

fun f64_ceil :: "f64 \<Rightarrow> f64" where
  "f64_ceil (Fin q) = Fin (of_int \<lceil>q\<rceil>)"
| "f64_ceil f = f"

section \<open>Latencies\<close>

record Latencies =
  lt_samples :: "time list"

definition NewLatencies :: Latencies where
  "NewLatencies = \<lparr>lt_samples = []\<rparr>"

definition lat_Add :: "time \<Rightarrow> Latencies \<Rightarrow> Latencies" where
  "lat_Add d l = l\<lparr>lt_samples := lt_samples l @ [d]\<rparr>"

definition lat_Merge :: "Latencies \<Rightarrow> Latencies \<Rightarrow> Latencies" where
  "lat_Merge l r = l\<lparr>lt_samples := lt_samples l @ lt_samples r\<rparr>"

definition lat_Len :: "Latencies \<Rightarrow> nat" where
  "lat_Len l = length (lt_samples l)"

record Summary =
  sm_Count :: nat
  sm_MinMs :: f64
  sm_MeanMs :: f64
  sm_P50Ms :: f64
  sm_P90Ms :: f64
  sm_P95Ms :: f64
  sm_P99Ms :: f64
  sm_P999Ms :: f64
  sm_MaxMs :: f64

definition zero_summary :: Summary where
  "zero_summary = \<lparr>sm_Count = 0, sm_MinMs = Fin 0, sm_MeanMs = Fin 0, sm_P50Ms = Fin 0, sm_P90Ms = Fin 0, sm_P95Ms = Fin 0,
     sm_P99Ms = Fin 0, sm_P999Ms = Fin 0, sm_MaxMs = Fin 0\<rparr>"

text \<open>\<open>ovf\<close> is what a conversion to \<^verbatim>\<open>int\<close> gives outside its range.\<close>

definition percentile :: "(f64 \<Rightarrow> int) \<Rightarrow> Latencies \<Rightarrow> f64 \<Rightarrow> time" where
  "percentile ovf l p =
     (let n = int (length (lt_samples l)) in
      if lt_samples l = [] then 0
      else let r = f64_to_int64 ovf (f64_ceil (f64_mul p (f64_of_int n)));
               r1 = (if r < 1 then 1 else r);
               r2 = (if r1 > n then n else r1)
           in lt_samples l ! nat (r2 - 1))"

text \<open>Milliseconds, from whole microseconds.\<close>

definition ms :: "time \<Rightarrow> f64" where
  "ms d = f64_div (f64_of_int (d sdiv 1000)) (Fin 1000)"

definition Summarize :: "(f64 \<Rightarrow> int) \<Rightarrow> Latencies \<Rightarrow> Summary" where
  "Summarize ovf l0 =
     (if lt_samples l0 = [] then zero_summary
      else let l = l0\<lparr>lt_samples := sort (lt_samples l0)\<rparr>;
               total = foldl (\<lambda>t d. wrap64 (t + d)) 0 (lt_samples l);
               n = length (lt_samples l)
           in \<lparr>sm_Count = n, sm_MinMs = ms (lt_samples l ! 0), sm_MeanMs = ms (total sdiv int n),
               sm_P50Ms = ms (percentile ovf l (f64_of_rat (50 / 100))), sm_P90Ms = ms (percentile ovf l (f64_of_rat (90 / 100))),
               sm_P95Ms = ms (percentile ovf l (f64_of_rat (95 / 100))), sm_P99Ms = ms (percentile ovf l (f64_of_rat (99 / 100))),
               sm_P999Ms = ms (percentile ovf l (f64_of_rat (999 / 1000))), sm_MaxMs = ms (lt_samples l ! (n - 1))\<rparr>)"

section \<open>Lemmas: rounding\<close>

lemma ulp_nonzero [simp]: "ulp q \<noteq> 0"
  using ulp_pos [of q] by (intro notI) simp

lemma powi_less: "(2 :: rat) powi a < 2 powi b \<Longrightarrow> a < b"
  using power_int_increasing [of b a "2 :: rat"] by (cases "a < b") auto

lemma rnd_pos_close:
  assumes "0 < q"
  shows "\<bar>rnd_pos q - q\<bar> \<le> ulp q / 2"
proof -
  let ?k = "rat_of_int (rne (q / ulp q))"
  have "?k * ulp q \<le> (q / ulp q + 1 / 2) * ulp q" "(q / ulp q - 1 / 2) * ulp q \<le> ?k * ulp q"
    using rne_close [of "q / ulp q"] by (intro mult_right_mono; simp add: less_imp_le)+
  then have k: "?k * ulp q \<le> q + ulp q / 2" "q - ulp q / 2 \<le> ?k * ulp q" by (simp_all add: distrib_right left_diff_distrib)
  have "rnd_pos q = ?k * ulp q" using assms by (simp add: rnd_pos_def)
  then show ?thesis unfolding abs_le_iff using k by (intro conjI) linarith+
qed

lemma ilog2_unique:
  assumes "2 powi e \<le> q" "q < 2 powi (e + 1)"
  shows "ilog2 q = e"
proof -
  have q: "0 < q" using assms(1) by (rule less_le_trans [rotated]) simp
  have "(2 :: rat) powi e < 2 powi (ilog2 q + 1)" "(2 :: rat) powi (ilog2 q) < 2 powi (e + 1)"
    using assms ilog2_bounds [OF q] by linarith+
  then have "e < ilog2 q + 1" "ilog2 q < e + 1" by (simp_all only: powi_less)
  then show ?thesis by simp
qed

lemma ulp_less:
  assumes "0 < q" "q < 2 ^ k"
  shows "ulp q \<le> 2 ^ k / 2 ^ 53"
proof -
  have "(2 :: rat) powi (ilog2 q) < 2 powi int k" using ilog2_bounds(1) [OF assms(1)] assms(2) by simp
  then have "ilog2 q < int k" by (rule powi_less)
  then have "max (ilog2 q) (- 1022) - 52 \<le> int k - 53" by simp
  then have "ulp q \<le> 2 powi (int k - 53)" unfolding ulp_def by (intro power_int_increasing) auto
  then show ?thesis by (simp add: power_int_diff)
qed

text \<open>A value less than half a unit above an integer rounds to the integer.\<close>

lemma rnd_pos_just_above:
  assumes "0 < m" "m < 2 ^ 53" "of_int m \<le> y" "y - of_int m \<le> of_int m / 2 ^ 53 / 4"
  shows "rnd_pos y = of_int m"
proof -
  let ?q = "rat_of_int m"
  let ?u = "ulp ?q"
  define j where "j = rne (?q / ?u)"
  have q: "0 < ?q" "1 \<le> ?q" using assms(1) by simp_all
  have m: "?q = of_int j * ?u" using rnd_pos_of_int [of m] assms(1,2) q by (simp add: rnd_pos_def j_def)
  have e: "0 \<le> ilog2 ?q"
  proof (rule ccontr)
    assume "\<not> 0 \<le> ilog2 ?q"
    then have "(2 :: rat) powi (ilog2 ?q + 1) \<le> 2 powi 0" by (intro power_int_increasing) auto
    with q ilog2_bounds(2) [of ?q] show False by simp
  qed
  have u: "2 powi (ilog2 ?q + 1) = 2 ^ 53 * ?u" using e by (simp add: ulp_eq power_int_add max_def)
  have d: "?q / 2 ^ 53 < ?u" using ilog2_bounds(2) [OF q(1)] u by (simp add: field_simps)
  have "of_int j * ?u < 2 ^ 53 * ?u" using ilog2_bounds(2) [OF q(1)] u m by simp
  then have "rat_of_int j < 2 ^ 53" by simp
  then have "rat_of_int j < rat_of_int (2 ^ 53)" by simp
  then have "j + 1 \<le> 2 ^ 53" unfolding of_int_less_iff by simp
  then have "rat_of_int (j + 1) \<le> rat_of_int (2 ^ 53)" unfolding of_int_le_iff .
  then have "of_int (j + 1) * ?u \<le> 2 ^ 53 * ?u" by (intro mult_right_mono) (simp_all add: less_imp_le)
  then have top: "?q + ?u \<le> 2 powi (ilog2 ?q + 1)" using u m by (simp add: algebra_simps)
  have y: "y - ?q < ?u / 4" using assms(4) d by simp
  have "ilog2 y = ilog2 ?q"
    using ilog2_bounds(1) [OF q(1)] assms(3) y top ulp_pos [of ?q] by (intro ilog2_unique) linarith+
  then have uy: "ulp y = ?u" by (simp add: ulp_def)
  define t where "t = (y - ?q) / ?u"
  have t: "0 \<le> t" "t < 1 / 2" using y assms(3) ulp_pos [of ?q] by (simp_all add: t_def field_simps)
  have "?q / ?u = of_int j" using m by (metis nonzero_mult_div_cancel_right ulp_nonzero)
  then have yq: "y / ?u = of_int j + t" by (simp add: t_def diff_divide_distrib)
  have "\<lfloor>y / ?u\<rfloor> = j" using yq t by (intro floor_unique) simp_all
  then have "rne (y / ?u) = j" using yq t by (simp add: rne_def Let_def)
  then show ?thesis using assms(3) q m by (simp add: rnd_pos_def uy)
qed

section \<open>Lemmas: nearest ranks in floating point\<close>

text \<open>A double \<open>x\<close> close enough to the fraction \<open>a / b\<close>: the rounded product with a count has the ceiling of the
  exact one.\<close>

definition good_double :: "rat \<Rightarrow> int \<Rightarrow> int \<Rightarrow> bool" where
  "good_double x a b \<longleftrightarrow> 0 < b \<and> b \<le> 1000 \<and> b \<le> 2 * a \<and> a < b \<and> \<bar>x - of_int a / of_int b\<bar> \<le> 1 / 2 ^ 54 \<and> 0 < x \<and> x < 1 \<and>
     (x \<le> of_int a / of_int b \<or> x - of_int a / of_int b \<le> of_int a / of_int b / 2 ^ 53 / 4)"

lemma product_close:
  assumes "good_double x a b" "0 < n" "n \<le> 2 ^ 40"
  shows "\<bar>rnd_pos (x * of_int n) - of_int (a * n) / of_int b\<bar> \<le> 1 / 8192"
proof -
  let ?n = "rat_of_int n" and ?p = "rat_of_int a / of_int b"
  have n: "0 < ?n" "?n \<le> 2 ^ 40" using assms(2,3) of_int_le_iff [of n "2 ^ 40", where 'a = rat] by simp_all
  have x: "0 < x" "x < 1" "\<bar>x - ?p\<bar> \<le> 1 / 2 ^ 54" using assms(1) by (simp_all add: good_double_def)
  have y: "0 < x * ?n" using x n by simp
  have "x * ?n < 1 * ?n" using x n by (intro mult_strict_right_mono) simp_all
  then have "x * ?n < 2 ^ 40" using n by linarith
  from ulp_less [OF y this] have u: "ulp (x * ?n) / 2 \<le> 1 / 16384" by simp
  have "\<bar>x * ?n - ?p * ?n\<bar> = \<bar>(x - ?p) * ?n\<bar>" by (simp only: left_diff_distrib)
  also have "\<dots> = \<bar>x - ?p\<bar> * ?n" using n by (simp only: abs_mult abs_of_pos)
  also have "\<dots> \<le> 1 / 2 ^ 54 * 2 ^ 40" using x n by (intro mult_mono) simp_all
  finally have "\<bar>x * ?n - ?p * ?n\<bar> \<le> 1 / 16384" by simp
  moreover have "?p * ?n = of_int (a * n) / of_int b" by simp
  ultimately show ?thesis using rnd_pos_close [OF y] u by linarith
qed

lemma ceil_product:
  assumes "good_double x a b" "0 < n" "n \<le> 2 ^ 40"
  shows "\<lceil>rnd_pos (x * of_int n)\<rceil> = \<lceil>rat_of_int (a * n) / of_int b\<rceil>"
proof -
  let ?n = "rat_of_int n" and ?p = "rat_of_int a / of_int b"
  define r where "r = rnd_pos (x * ?n)"
  define m where "m = \<lceil>rat_of_int (a * n) / of_int b\<rceil>"
  note close = product_close [OF assms, folded r_def]
  have b: "0 < b" "b \<le> 1000" "0 < a" "a < b" using assms(1) by (auto simp: good_double_def)
  have an: "0 < a * n" "a * n < b * n" using b assms(2) by simp_all
  have "\<lceil>r\<rceil> = m"
  proof (cases "b dvd a * n")
    case False
    have bq: "0 < rat_of_int b" "rat_of_int b \<le> 1000" using b by simp_all
    have mb: "(m - 1) * b < a * n" "a * n < m * b"
    proof -
      have "rat_of_int (m - 1) < of_int (a * n) / of_int b" "of_int (a * n) / of_int b \<le> rat_of_int m"
        unfolding m_def by linarith+
      then have "rat_of_int (m - 1) * of_int b < of_int (a * n)" "of_int (a * n) \<le> rat_of_int m * of_int b"
        using bq by (simp_all only: pos_less_divide_eq pos_divide_le_eq)
      then have "rat_of_int ((m - 1) * b) < of_int (a * n)" "rat_of_int (a * n) \<le> of_int (m * b)" by simp_all
      then show "(m - 1) * b < a * n" "a * n < m * b" using False unfolding of_int_less_iff of_int_le_iff
        by (simp, metis dvd_triv_right order_le_imp_less_or_eq)
    qed
    then have f: "rat_of_int ((m - 1) * b + 1) \<le> of_int (a * n)" "rat_of_int (a * n + 1) \<le> of_int (m * b)"
      unfolding of_int_le_iff by simp_all
    have "rat_of_int ((m - 1) * b + 1) / of_int b \<le> of_int (a * n) / of_int b" "rat_of_int (a * n + 1) / of_int b \<le> of_int (m * b) / of_int b"
      by (rule divide_right_mono [OF f(1)] divide_right_mono [OF f(2)], use bq in simp)+
    then have "rat_of_int m - 1 + 1 / of_int b \<le> of_int (a * n) / of_int b" "rat_of_int (a * n) / of_int b + 1 / of_int b \<le> of_int m"
      using bq by (simp_all add: add_divide_distrib)
    moreover have "1 / 1000 \<le> 1 / rat_of_int b" using bq by (simp add: frac_le)
    ultimately show ?thesis using close by (intro ceiling_unique) linarith+
  next
    case True
    then obtain k where k: "a * n = b * k" by (rule dvdE)
    have pk: "rat_of_int (a * n) / of_int b = of_int k" using k b by simp
    have k0: "0 < k" "k < n" using an k b by (simp_all add: zero_less_mult_iff)
    have m: "m = k" unfolding m_def pk by simp
    have k53: "k < 2 ^ 53" using k0 assms(3) by simp
    have xn: "?p * ?n = of_int k" using pk by simp
    have n: "0 < ?n" using assms(2) by simp
    have "r \<le> of_int k"
    proof (cases "x \<le> ?p")
      case True
      then have "x * ?n \<le> of_int k" unfolding xn [symmetric] using n by (intro mult_right_mono) simp_all
      from rnd_pos_mono [OF this] rnd_pos_of_int [of k] k0 k53 show ?thesis by (simp add: r_def)
    next
      case False
      then have d: "x - ?p \<le> ?p / 2 ^ 53 / 4" "?p \<le> x" using assms(1) by (auto simp: good_double_def)
      have "(x - ?p) * ?n \<le> ?p / 2 ^ 53 / 4 * ?n" "?p * ?n \<le> x * ?n" using d n by (intro mult_right_mono; simp)+
      then have "x * ?n - of_int k \<le> of_int k / 2 ^ 53 / 4" "of_int k \<le> x * ?n"
        using xn by (simp_all add: left_diff_distrib)
      with rnd_pos_just_above [OF k0(1) k53] show ?thesis by (simp add: r_def)
    qed
    then show ?thesis unfolding m using close pk by (intro ceiling_unique) linarith+
  qed
  then show ?thesis by (simp add: r_def m_def)
qed

lemma good_doubles:
  "good_double (rnd_pos (1 / 2)) 1 2" "good_double (rnd_pos (9 / 10)) 9 10" "good_double (rnd_pos (19 / 20)) 19 20"
  "good_double (rnd_pos (99 / 100)) 99 100" "good_double (rnd_pos (999 / 1000)) 999 1000"
  by code_simp+

text \<open>The reference: the least observed value that at least \<open>a / b\<close> of the observations do not exceed.\<close>

definition nearest_rank :: "int \<Rightarrow> int \<Rightarrow> time list \<Rightarrow> time" where
  "nearest_rank a b xs = Min {x \<in> set xs. a * int (length xs) \<le> b * int (length (filter (\<lambda>y. y \<le> x) xs))}"

lemma nearest_rank_mset: "mset xs = mset ys \<Longrightarrow> nearest_rank a b xs = nearest_rank a b ys"
proof -
  assume m: "mset xs = mset ys"
  have "length (filter P xs) = length (filter P ys)" for P using m by (metis mset_filter size_mset)
  then show ?thesis using mset_eq_setD [OF m] mset_eq_length [OF m] by (simp add: nearest_rank_def)
qed

lemma sorted_count_ge:
  assumes "sorted xs" "k < length xs"
  shows "k < length (filter (\<lambda>y. y \<le> xs ! k) xs)"
proof -
  have "\<forall>y \<in> set (take (Suc k) xs). y \<le> xs ! k"
    using assms by (auto simp: in_set_conv_nth less_Suc_eq_le sorted_nth_mono)
  then have "filter (\<lambda>y. y \<le> xs ! k) (take (Suc k) xs) = take (Suc k) xs" by (simp add: filter_id_conv)
  then have "length (filter (\<lambda>y. y \<le> xs ! k) (take (Suc k) xs)) = Suc k" using assms(2) by simp
  moreover have "filter (\<lambda>y. y \<le> xs ! k) xs = filter (\<lambda>y. y \<le> xs ! k) (take (Suc k) xs) @ filter (\<lambda>y. y \<le> xs ! k) (drop (Suc k) xs)"
    by (metis append_take_drop_id filter_append)
  ultimately show ?thesis by simp
qed

lemma sorted_count_le:
  assumes "sorted xs" "k < length xs" "x < xs ! k"
  shows "length (filter (\<lambda>y. y \<le> x) xs) \<le> k"
proof -
  have "\<not> y \<le> x" if y: "y \<in> set (drop k xs)" for y
  proof -
    obtain i where "i < length (drop k xs)" "y = drop k xs ! i" using y unfolding in_set_conv_nth by blast
    then have i: "k + i < length xs" "y = xs ! (k + i)" by simp_all
    then have "xs ! k \<le> y" using assms(1) by (simp add: sorted_nth_mono)
    with assms(3) show ?thesis by simp
  qed
  then have "filter (\<lambda>y. y \<le> x) (drop k xs) = []" by (simp add: filter_empty_conv)
  moreover have "filter (\<lambda>y. y \<le> x) xs = filter (\<lambda>y. y \<le> x) (take k xs) @ filter (\<lambda>y. y \<le> x) (drop k xs)"
    by (metis append_take_drop_id filter_append)
  moreover have "length (filter (\<lambda>y. y \<le> x) (take k xs)) \<le> k" using length_filter_le [of _ "take k xs"] by (rule order_trans) simp
  ultimately show ?thesis by simp
qed

lemma rank_bounds:
  assumes "0 < a" "a < b" "0 < n"
  shows "1 \<le> \<lceil>rat_of_int (a * n) / of_int b\<rceil>" "\<lceil>rat_of_int (a * n) / of_int b\<rceil> \<le> n"
    "a * n \<le> b * j \<longleftrightarrow> \<lceil>rat_of_int (a * n) / of_int b\<rceil> \<le> j"
proof -
  have b: "0 < rat_of_int b" using assms by simp
  have "0 < rat_of_int (a * n) / of_int b" using assms by (intro divide_pos_pos) (simp_all only: of_int_0_less_iff mult_pos_pos)
  then show "1 \<le> \<lceil>rat_of_int (a * n) / of_int b\<rceil>" by linarith
  show e: "a * n \<le> b * j \<longleftrightarrow> \<lceil>rat_of_int (a * n) / of_int b\<rceil> \<le> j" for j
  proof -
    have "\<lceil>rat_of_int (a * n) / of_int b\<rceil> \<le> j \<longleftrightarrow> rat_of_int (a * n) \<le> of_int j * of_int b"
      unfolding ceiling_le_iff using b by (simp only: pos_divide_le_eq)
    also have "\<dots> \<longleftrightarrow> rat_of_int (a * n) \<le> of_int (j * b)" by simp
    finally show ?thesis unfolding of_int_le_iff by (simp add: mult.commute)
  qed
  show "\<lceil>rat_of_int (a * n) / of_int b\<rceil> \<le> n" using e [of n] assms by simp
qed

lemma nearest_rank_sorted:
  assumes "sorted xs" "xs \<noteq> []" "0 < a" "a < b" "k = \<lceil>rat_of_int (a * int (length xs)) / of_int b\<rceil>"
  shows "xs ! nat (k - 1) = nearest_rank a b xs"
proof -
  let ?S = "{x \<in> set xs. a * int (length xs) \<le> b * int (length (filter (\<lambda>y. y \<le> x) xs))}"
  have n: "0 < int (length xs)" using assms(2) by simp
  note r = rank_bounds [OF assms(3,4) n, folded assms(5)]
  have i: "nat (k - 1) < length xs" using r(1,2) by linarith
  have "k \<le> int (length (filter (\<lambda>y. y \<le> xs ! nat (k - 1)) xs))"
    using sorted_count_ge [OF assms(1) i] r(1) by linarith
  then have "xs ! nat (k - 1) \<in> ?S" using i r(3) by simp
  moreover have "xs ! nat (k - 1) \<le> x" if "x \<in> ?S" for x
  proof (rule ccontr)
    assume "\<not> xs ! nat (k - 1) \<le> x"
    then have "length (filter (\<lambda>y. y \<le> x) xs) \<le> nat (k - 1)" using sorted_count_le [OF assms(1) i] by simp
    moreover have "k \<le> int (length (filter (\<lambda>y. y \<le> x) xs))" using that r(3) by simp
    ultimately show False using r(1) by linarith
  qed
  ultimately show ?thesis unfolding nearest_rank_def by (intro Min_eqI [symmetric]) auto
qed

lemma f64_of_rat_small:
  assumes "0 \<le> q" "q \<le> 2 ^ 40"
  shows "f64_of_rat q = Fin (rnd_pos q)"
proof -
  have "rnd_pos q \<le> rnd_pos (of_int (2 ^ 40))" using assms(2) by (intro rnd_pos_mono) simp
  also have "\<dots> = of_int (2 ^ 40)" by (rule rnd_pos_of_int) simp_all
  finally have r: "rnd_pos q \<le> 2 ^ 40" by simp
  have "(2 :: rat) ^ 40 < 2 ^ 1024" by simp
  with r rnd_pos_nonneg [of q] assms(1) show ?thesis by (simp add: f64_of_rat_def Let_def)
qed

text \<open>The floating-point rank is the exact one.\<close>

lemma percentile_exact:
  assumes "good_double (rnd_pos (of_int a / of_int b)) a b" "sorted (lt_samples l)" "lt_samples l \<noteq> []" "length (lt_samples l) \<le> 2 ^ 40"
  shows "percentile ovf l (f64_of_rat (of_int a / of_int b)) = nearest_rank a b (lt_samples l)"
proof -
  let ?n = "int (length (lt_samples l))" and ?x = "rnd_pos (of_int a / of_int b)"
  have ab: "0 < a" "a < b" "0 < ?x" "?x < 1" using assms(1) by (auto simp: good_double_def)
  have n: "0 < ?n" "?n \<le> 2 ^ 40" using assms(3,4) by simp_all
  have nq: "rat_of_int ?n \<le> 2 ^ 40" using n(2) of_int_le_iff [of ?n "2 ^ 40", where 'a = rat] by simp
  define k where "k = \<lceil>rat_of_int (a * ?n) / of_int b\<rceil>"
  note r = rank_bounds [OF ab(1,2) n(1), folded k_def]
  have p: "f64_of_rat (of_int a / of_int b) = Fin ?x"
    using ab by (intro f64_of_rat_small) (auto simp: divide_le_eq)
  have "?x * of_int ?n \<le> 1 * of_int ?n" using ab n by (intro mult_right_mono) simp_all
  then have y: "0 \<le> ?x * of_int ?n" "?x * of_int ?n \<le> 2 ^ 40" using ab nq by simp_all
  have m: "f64_mul (Fin ?x) (f64_of_int ?n) = Fin (rnd_pos (?x * of_int ?n))"
    using n f64_of_rat_small [OF y] by (simp add: f64_of_int_exact)
  have "f64_to_int64 ovf (f64_ceil (f64_mul (f64_of_rat (of_int a / of_int b)) (f64_of_int ?n))) = k"
    unfolding p m f64_ceil.simps ceil_product [OF assms(1) n] k_def [symmetric] using r(1,2) n(2) by (simp add: trunc_rat_def)
  then have "percentile ovf l (f64_of_rat (of_int a / of_int b)) = lt_samples l ! nat (k - 1)"
    using assms(3) r(1,2) by (simp add: percentile_def Let_def)
  then show ?thesis using nearest_rank_sorted [OF assms(2,3) ab(1,2) k_def] by simp
qed

lemma wrapped_total:
  assumes "\<forall>x \<in> set xs. 0 \<le> x" "0 \<le> t" "t + sum_list xs < 2 ^ 63"
  shows "foldl (\<lambda>t d. wrap64 (t + d)) t xs = t + sum_list xs"
  using assms
proof (induction xs arbitrary: t)
  case (Cons x xs)
  have "0 \<le> sum_list xs" using Cons.prems(1) by (intro sum_list_nonneg) simp
  then have "wrap64 (t + x) = t + x" using Cons.prems by (simp add: wrap64_def)
  with Cons.IH [of "t + x"] Cons.prems show ?case by simp
qed simp

lemma sort_ends:
  fixes xs :: "int list"
  assumes "xs \<noteq> []"
  shows "sort xs ! 0 = Min (set xs)" "sort xs ! (length xs - 1) = Max (set xs)"
proof -
  define ys where "ys = sort xs"
  have ys: "sorted ys" "set ys = set xs" "length ys = length xs" "0 < length xs" using assms by (simp_all add: ys_def)
  have mem: "ys ! 0 \<in> set xs" "ys ! (length xs - 1) \<in> set xs"
    using nth_mem [of 0 ys] nth_mem [of "length xs - 1" ys] ys(3,4) unfolding ys(2) by simp_all
  have le: "ys ! 0 \<le> x" "x \<le> ys ! (length xs - 1)" if x: "x \<in> set xs" for x
  proof -
    obtain i where i: "i < length ys" "x = ys ! i" using x unfolding ys(2) [symmetric] in_set_conv_nth by blast
    have "i \<le> length xs - 1" "length xs - 1 < length ys" using i(1) ys(3,4) by linarith+
    then show "ys ! 0 \<le> x" "x \<le> ys ! (length xs - 1)"
      using sorted_nth_mono [OF ys(1), of 0 i] sorted_nth_mono [OF ys(1), of i "length xs - 1"] i by simp_all
  qed
  show "sort xs ! 0 = Min (set xs)" unfolding ys_def [symmetric] by (rule Min_eqI [symmetric, OF finite_set le(1) mem(1)])
  show "sort xs ! (length xs - 1) = Max (set xs)" unfolding ys_def [symmetric] by (rule Max_eqI [symmetric, OF finite_set le(2) mem(2)])
qed

section \<open>The summary\<close>

text \<open>C38: The summary of a latency distribution is exact. Although the ranks are computed in floating point, with
  constants such as 0.9 that are not doubles, for up to \<open>2^40\<close> observations every percentile is the
  nearest rank: the least observed value that at least that share of the observations do not exceed. Minimum,
  maximum and mean are those of the observations, as long as their sum fits a duration.\<close>

theorem Summarize_exact:
  assumes "lt_samples l \<noteq> []" "length (lt_samples l) \<le> 2 ^ 40" "\<forall>d \<in> set (lt_samples l). 0 \<le> d" "sum_list (lt_samples l) < 2 ^ 63"
  shows "Summarize ovf l =
    \<lparr>sm_Count = length (lt_samples l), sm_MinMs = ms (Min (set (lt_samples l))),
     sm_MeanMs = ms (sum_list (lt_samples l) sdiv int (length (lt_samples l))),
     sm_P50Ms = ms (nearest_rank 1 2 (lt_samples l)), sm_P90Ms = ms (nearest_rank 9 10 (lt_samples l)),
     sm_P95Ms = ms (nearest_rank 19 20 (lt_samples l)), sm_P99Ms = ms (nearest_rank 99 100 (lt_samples l)),
     sm_P999Ms = ms (nearest_rank 999 1000 (lt_samples l)), sm_MaxMs = ms (Max (set (lt_samples l)))\<rparr>"
proof -
  let ?l = "l\<lparr>lt_samples := sort (lt_samples l)\<rparr>"
  have ne: "sort (lt_samples l) \<noteq> []" using assms(1) by (metis length_0_conv length_sort)
  have p: "percentile ovf ?l (f64_of_rat (of_int a / of_int b)) = nearest_rank a b (lt_samples l)"
    if "good_double (rnd_pos (of_int a / of_int b)) a b" for a b
    using percentile_exact [OF that, of ?l ovf] ne assms(2) nearest_rank_mset [of "sort (lt_samples l)" "lt_samples l" a b] by simp
  note q = p [of 1 2] p [of 9 10] p [of 19 20] p [of 99 100] p [of 999 1000]
  have "sum_list (sort (lt_samples l)) = sum_list (lt_samples l)" by (metis mset_sort sum_mset_sum_list)
  then have t: "foldl (\<lambda>t d. wrap64 (t + d)) 0 (sort (lt_samples l)) = sum_list (lt_samples l)"
    using wrapped_total [of "sort (lt_samples l)" 0] assms(3,4) by simp
  show ?thesis
    using assms(1) q good_doubles sort_ends [OF assms(1)] t by (simp add: Summarize_def Let_def)
qed

theorem Summarize_exact_witness:
  "Summarize (\<lambda>f. 0) \<lparr>lt_samples = [3000000, 1000000, 2000000, 10000000]\<rparr> =
    \<lparr>sm_Count = 4, sm_MinMs = ms 1000000, sm_MeanMs = ms 4000000, sm_P50Ms = ms 2000000, sm_P90Ms = ms 10000000,
     sm_P95Ms = ms 10000000, sm_P99Ms = ms 10000000, sm_P999Ms = ms 10000000, sm_MaxMs = ms 10000000\<rparr>"
proof -
  let ?xs = "[3000000, 1000000, 2000000, 10000000] :: int list"
  have s: "{x \<in> set ?xs. a * int (length ?xs) \<le> b * int (length (filter (\<lambda>y. y \<le> x) ?xs))} =
      set (filter (\<lambda>x. a * 4 \<le> b * int (length (filter (\<lambda>y. y \<le> x) ?xs))) ?xs)" for a b :: int
    by auto
  have nr: "nearest_rank a b ?xs = Min (set (filter (\<lambda>x. a * 4 \<le> b * int (length (filter (\<lambda>y. y \<le> x) ?xs))) ?xs))" for a b
    unfolding nearest_rank_def s ..
  have "Summarize (\<lambda>f. 0) \<lparr>lt_samples = ?xs\<rparr> =
    \<lparr>sm_Count = length ?xs, sm_MinMs = ms (Min (set ?xs)), sm_MeanMs = ms (sum_list ?xs sdiv int (length ?xs)),
     sm_P50Ms = ms (nearest_rank 1 2 ?xs), sm_P90Ms = ms (nearest_rank 9 10 ?xs),
     sm_P95Ms = ms (nearest_rank 19 20 ?xs), sm_P99Ms = ms (nearest_rank 99 100 ?xs),
     sm_P999Ms = ms (nearest_rank 999 1000 ?xs), sm_MaxMs = ms (Max (set ?xs))\<rparr>"
    using Summarize_exact [of "\<lparr>lt_samples = ?xs\<rparr>" "\<lambda>f. 0"] by simp
  then show ?thesis unfolding nr by (simp add: signed_divide_int_def)
qed

end
