(* ===== verification/BenchRun.thy ===== *)
theory BenchRun
  imports BenchLatency
begin

text \<open>
  \<^verbatim>\<open>cmd/bench\<close> without its text rendering: the corpus, the requests of a worker, the accounting of a measured
  run, the summary of repeated runs, the memory samples, the preload and its confirmation, and the
  scenarios that put them together.

  The record \<open>bench_env\<close> holds what is outside the program. A run is a sequence of events: a worker finishes
  a request, measuring begins, or the cluster changes on its own. \<open>None\<close> is a panic of a worker.
\<close>

section \<open>Corpus\<close>

record BenchObject =
  ob_Key :: key
  ob_Content :: bytes

record Corpus =
  cp_Name :: string
  cp_Seed :: int
  cp_Size :: nat
  cp_Objects :: "BenchObject list"

fun corpus_objects :: "(bytes \<Rightarrow> bytes) \<Rightarrow> 's rng \<Rightarrow> nat \<Rightarrow> nat \<Rightarrow> 's \<Rightarrow> BenchObject list" where
  "corpus_objects sha g sz 0 s = []"
| "corpus_objects sha g sz (Suc n) s =
     (case rg_Read g sz s of (buf, s') \<Rightarrow>
        \<lparr>ob_Key = hex_encode (sha buf), ob_Content = buf\<rparr> # corpus_objects sha g sz n s')"

definition NewCorpus :: "(bytes \<Rightarrow> bytes) \<Rightarrow> 's rng \<Rightarrow> string \<Rightarrow> nat \<Rightarrow> nat \<Rightarrow> int \<Rightarrow> Corpus" where
  "NewCorpus sha g name cnt sz seed =
     \<lparr>cp_Name = name, cp_Seed = seed, cp_Size = sz, cp_Objects = corpus_objects sha g sz cnt (rg_Seed g seed)\<rparr>"

definition corpus_Bytes :: "Corpus \<Rightarrow> int" where
  "corpus_Bytes c = int (length (cp_Objects c)) * int (cp_Size c)"

fun miss_keys :: "(bytes \<Rightarrow> bytes) \<Rightarrow> 's rng \<Rightarrow> nat \<Rightarrow> 's \<Rightarrow> key list" where
  "miss_keys sha g 0 s = []"
| "miss_keys sha g (Suc n) s =
     (case rg_Read g 32 s of (buf, s') \<Rightarrow> hex_encode (sha (''kilncache/bench/miss/'' @ buf)) # miss_keys sha g n s')"

definition MissKeys :: "(bytes \<Rightarrow> bytes) \<Rightarrow> 's rng \<Rightarrow> nat \<Rightarrow> int \<Rightarrow> key list" where
  "MissKeys sha g cnt seed = miss_keys sha g cnt (rg_Seed g (xor seed 0x6d1553))"

section \<open>Requests\<close>

datatype Op = OpGet | OpPut | OpMixed

fun op_String :: "Op \<Rightarrow> string" where
  "op_String OpGet = ''get''"
| "op_String OpPut = ''put''"
| "op_String OpMixed = ''mixed''"

record ('s, 'w) bench_env =
  be_sha :: "bytes \<Rightarrow> bytes"
  be_rng :: "'s rng"
  be_bad :: "string \<Rightarrow> go_error option"
  be_do :: "'w transport"
  be_ovf :: "f64 \<Rightarrow> int"
  be_parseFloat :: "string \<Rightarrow> f64 option"
  be_replicas :: "body \<Rightarrow> int option"

text \<open>What a request returns: the bytes, whether it was a miss, and the error.\<close>

type_synonym outcome = "int \<times> bool \<times> go_error option"

definition get_outcome :: "(bytes \<Rightarrow> bytes) \<Rightarrow> key \<Rightarrow> bool \<Rightarrow> nat \<Rightarrow> http_resp result \<Rightarrow> outcome" where
  "get_outcome sha key verify wantSize r =
     (case r of
        Inl e \<Rightarrow> (0, False, Some e)
      | Inr resp \<Rightarrow>
          if rs_status resp = 404 then (0, True, None)
          else if rs_status resp \<noteq> 200
          then (0, False, Some (NewError (''GET '' @ take 8 key @ '': status '' @ show_nat (rs_status resp))))
          else case rs_body resp of
            (b, Some e) \<Rightarrow> (int (length b), False, Some e)
          | (b, None) \<Rightarrow>
              if verify
              then (int (length b), False,
                    if hex_encode (sha b) \<noteq> key then Some (NewError (''GET '' @ take 8 key @ '': digest mismatch'')) else None)
              else (int (length b), False,
                    if wantSize > 0 \<and> length b \<noteq> wantSize
                    then Some (NewError (''GET '' @ take 8 key @ '': got '' @ show_nat (length b) @ '' bytes, want '' @ show_nat wantSize))
                    else None))"

definition doGet :: "('s, 'w) bench_env \<Rightarrow> string \<Rightarrow> key \<Rightarrow> bool \<Rightarrow> nat \<Rightarrow> 'w \<Rightarrow> outcome \<times> 'w" where
  "doGet env base key verify wantSize w =
     (case NewRequest (be_bad env) ''GET'' base (cas_path key) [] of
        Inl e \<Rightarrow> ((0, False, Some e), w)
      | Inr req \<Rightarrow> (case be_do env req w of (r, w') \<Rightarrow> (get_outcome (be_sha env) key verify wantSize r, w')))"

definition put_outcome :: "BenchObject \<Rightarrow> http_resp result \<Rightarrow> outcome" where
  "put_outcome obj r =
     (case r of
        Inl e \<Rightarrow> (0, False, Some e)
      | Inr resp \<Rightarrow>
          if rs_status resp < 200 \<or> rs_status resp \<ge> 300
          then (0, False, Some (NewError (''PUT '' @ take 8 (ob_Key obj) @ '': status '' @ show_nat (rs_status resp))))
          else (int (length (ob_Content obj)), False, None))"

definition doPut :: "('s, 'w) bench_env \<Rightarrow> string \<Rightarrow> BenchObject \<Rightarrow> 'w \<Rightarrow> outcome \<times> 'w" where
  "doPut env base obj w =
     (case NewRequest (be_bad env) ''PUT'' base (cas_path (ob_Key obj)) (ob_Content obj) of
        Inl e \<Rightarrow> ((0, False, Some e), w)
      | Inr req \<Rightarrow> (case be_do env req w of (r, w') \<Rightarrow> (put_outcome obj r, w')))"

section \<open>Fresh objects\<close>

text \<open>\<^verbatim>\<open>binary.BigEndian.PutUint64\<close>.\<close>

definition put_uint64 :: "u64 \<Rightarrow> bytes" where
  "put_uint64 v = map (\<lambda>i. char_of (unat (drop_bit (56 - 8 * i) v) mod 256)) [0..<8]"

record uniqueGen =
  ug_buf :: bytes
  ug_worker :: nat
  ug_counter :: u64

definition newUniqueGen :: "nat \<Rightarrow> Corpus \<Rightarrow> uniqueGen" where
  "newUniqueGen worker c =
     (let base = replicate (cp_Size c) (CHR 0x00);
          content = ob_Content (cp_Objects c ! (worker mod length (cp_Objects c)))
      in \<lparr>ug_buf = (if cp_Objects c \<noteq> [] then take (cp_Size c) content @ drop (length content) base else base),
          ug_worker = worker, ug_counter = 0\<rparr>)"

text \<open>\<^verbatim>\<open>next\<close>: the panic for a buffer shorter than the stamp is \<open>None\<close>.\<close>

definition gen_next :: "(bytes \<Rightarrow> bytes) \<Rightarrow> uniqueGen \<Rightarrow> (BenchObject \<times> uniqueGen) option" where
  "gen_next sha g =
     (let counter = ug_counter g + 1;
          buf = put_uint64 (of_nat (ug_worker g)) @ put_uint64 counter @ drop 16 (ug_buf g)
      in if length (ug_buf g) < 16 then None
         else Some (\<lparr>ob_Key = hex_encode (sha buf), ob_Content = buf\<rparr>, g\<lparr>ug_buf := buf, ug_counter := counter\<rparr>))"

section \<open>A measured run\<close>

record RunSpec =
  sp_Scenario :: string
  sp_Op :: Op
  sp_Concurrency :: int
  sp_Duration :: time
  sp_Warmup :: time
  sp_Corpus :: Corpus
  sp_MissKeys :: "key list"
  sp_HitRatio :: f64
  sp_Targets :: "string list"
  sp_Verify :: bool

record RunResult =
  rr_Scenario :: string
  rr_Op :: string
  rr_Concurrency :: int
  rr_DurationS :: f64
  rr_Operations :: int
  rr_Errors :: int
  rr_Misses :: int
  rr_Bytes :: int
  rr_OpsPerSec :: f64
  rr_MiBPerSec :: f64
  rr_ErrorRate :: f64
  rr_Latency :: Summary
  rr_VerifyFails :: int
  rr_ErrorSamples :: "(string, int) gomap"
  rr_ObjectSizeBytes :: nat

text \<open>One request. The result has the worker's random state and generator.\<close>

definition get_object :: "('s, 'w) bench_env \<Rightarrow> RunSpec \<Rightarrow> string \<Rightarrow> uniqueGen \<Rightarrow> 's \<Rightarrow> 'w \<Rightarrow> (outcome \<times> 's \<times> uniqueGen \<times> 'w) option" where
  "get_object env spec base g s w =
     (let objs = cp_Objects (sp_Corpus spec) in
      if objs = [] then None
      else case rg_Intn (be_rng env) (length objs) s of (i, s') \<Rightarrow>
        (case doGet env base (ob_Key (objs ! i)) (sp_Verify spec) (length (ob_Content (objs ! i))) w of
           (r, w') \<Rightarrow> Some (r, s', g, w')))"

definition doOne :: "('s, 'w) bench_env \<Rightarrow> RunSpec \<Rightarrow> 's \<Rightarrow> uniqueGen \<Rightarrow> 'w \<Rightarrow> (outcome \<times> 's \<times> uniqueGen \<times> 'w) option" where
  "doOne env spec s g w =
     (if sp_Targets spec = [] then None
      else case rg_Intn (be_rng env) (length (sp_Targets spec)) s of (t, s1) \<Rightarrow>
        let base = sp_Targets spec ! t in
        (case sp_Op spec of
           OpPut \<Rightarrow>
             (case gen_next (be_sha env) g of
                None \<Rightarrow> None
              | Some (obj, g') \<Rightarrow> (case doPut env base obj w of (r, w') \<Rightarrow> Some (r, s1, g', w')))
         | OpMixed \<Rightarrow>
             (case rg_Float64 (be_rng env) s1 of (f, s2) \<Rightarrow>
                if f64_lt f (sp_HitRatio spec) then get_object env spec base g s2 w
                else if sp_MissKeys spec = [] then None
                else case rg_Intn (be_rng env) (length (sp_MissKeys spec)) s2 of (i, s3) \<Rightarrow>
                  (case doGet env base (sp_MissKeys spec ! i) False 0 w of (r, w') \<Rightarrow> Some (r, s3, g, w')))
         | OpGet \<Rightarrow> get_object env spec base g s1 w))"

record ('s, 'w) bench_run =
  br_world :: 'w
  br_rngs :: "nat \<Rightarrow> 's"
  br_gens :: "nat \<Rightarrow> uniqueGen"
  br_lats :: "nat \<Rightarrow> Latencies"
  br_measuring :: bool
  br_ops :: int
  br_errs :: int
  br_misses :: int
  br_bytes :: int
  br_verifyNG :: int
  br_errSamples :: "(string, int) gomap"

definition noteErr :: "go_error \<Rightarrow> (string, int) gomap \<Rightarrow> (string, int) gomap" where
  "noteErr e m =
     (case mget m (error_text e) of
        Some n \<Rightarrow> mput (error_text e) (n + 1) m
      | None \<Rightarrow> if length m < 32 then mput (error_text e) 1 m else m)"

text \<open>What the loop of a worker does with an outcome; \<open>dn\<close> says that the context of the run is done by then.\<close>

definition account :: "nat \<Rightarrow> time \<Rightarrow> bool \<Rightarrow> outcome \<Rightarrow> ('s, 'w) bench_run \<Rightarrow> ('s, 'w) bench_run" where
  "account i elapsed dn r st =
     (case r of (n, miss, err) \<Rightarrow>
        if \<not> br_measuring st then st
        else if (case err of Some e \<Rightarrow> errors_is e SCanceled | None \<Rightarrow> False) \<and> dn then st
        else let st1 = st\<lparr>br_ops := br_ops st + 1\<rparr>; lat = (br_lats st)(i := lat_Add elapsed (br_lats st i)) in
          (case err of
             Some e \<Rightarrow> st1\<lparr>br_errs := br_errs st + 1, br_errSamples := noteErr e (br_errSamples st)\<rparr>
           | None \<Rightarrow> if miss then st1\<lparr>br_misses := br_misses st + 1, br_lats := lat\<rparr>
                     else st1\<lparr>br_bytes := br_bytes st + n, br_lats := lat\<rparr>))"

datatype 'w bench_event = Request nat time bool | Measure | Outside "'w \<Rightarrow> 'w"

fun bench_turn :: "('s, 'w) bench_env \<Rightarrow> RunSpec \<Rightarrow> 'w bench_event \<Rightarrow> ('s, 'w) bench_run \<Rightarrow> ('s, 'w) bench_run option" where
  "bench_turn env spec (Request i elapsed dn) st =
     (if \<not> int i < sp_Concurrency spec then Some st
      else case doOne env spec (br_rngs st i) (br_gens st i) (br_world st) of
        None \<Rightarrow> None
      | Some (r, s', g', w') \<Rightarrow>
          Some (account i elapsed dn r (st\<lparr>br_world := w', br_rngs := (br_rngs st)(i := s'), br_gens := (br_gens st)(i := g')\<rparr>)))"
| "bench_turn env spec Measure st = Some (st\<lparr>br_measuring := True\<rparr>)"
| "bench_turn env spec (Outside f) st = Some (st\<lparr>br_world := f (br_world st)\<rparr>)"

fun bench_turns :: "('s, 'w) bench_env \<Rightarrow> RunSpec \<Rightarrow> 'w bench_event list \<Rightarrow> ('s, 'w) bench_run \<Rightarrow> ('s, 'w) bench_run option" where
  "bench_turns env spec [] st = Some st"
| "bench_turns env spec (e # es) st = Option.bind (bench_turn env spec e st) (bench_turns env spec es)"

definition start_run :: "('s, 'w) bench_env \<Rightarrow> RunSpec \<Rightarrow> 'w \<Rightarrow> ('s, 'w) bench_run" where
  "start_run env spec w =
     \<lparr>br_world = w, br_rngs = (\<lambda>i. rg_Seed (be_rng env) (wrap64 (int i * 7919 + cp_Seed (sp_Corpus spec)))),
      br_gens = (\<lambda>i. newUniqueGen i (sp_Corpus spec)), br_lats = (\<lambda>i. NewLatencies), br_measuring = False,
      br_ops = 0, br_errs = 0, br_misses = 0, br_bytes = 0, br_verifyNG = 0, br_errSamples = []\<rparr>"

definition run_result :: "(f64 \<Rightarrow> int) \<Rightarrow> RunSpec \<Rightarrow> time \<Rightarrow> ('s, 'w) bench_run \<Rightarrow> RunResult" where
  "run_result ovf spec measured st =
     (let all = foldl lat_Merge NewLatencies (map (br_lats st) [0..<nat (sp_Concurrency spec)]) in
      \<lparr>rr_Scenario = sp_Scenario spec, rr_Op = op_String (sp_Op spec), rr_Concurrency = sp_Concurrency spec,
       rr_DurationS = Seconds measured, rr_Operations = br_ops st, rr_Errors = br_errs st, rr_Misses = br_misses st,
       rr_Bytes = br_bytes st,
       rr_OpsPerSec = (if measured > 0 then f64_div (f64_of_int (br_ops st)) (Seconds measured) else Fin 0),
       rr_MiBPerSec = (if measured > 0 then f64_div (f64_div (f64_of_int (br_bytes st)) (Seconds measured)) (Fin 1048576) else Fin 0),
       rr_ErrorRate = (if br_ops st > 0 then f64_div (f64_of_int (br_errs st)) (f64_of_int (br_ops st)) else Fin 0),
       rr_Latency = Summarize ovf all, rr_VerifyFails = br_verifyNG st, rr_ErrorSamples = br_errSamples st,
       rr_ObjectSizeBytes = cp_Size (sp_Corpus spec)\<rparr>)"

definition Run :: "('s, 'w) bench_env \<Rightarrow> RunSpec \<Rightarrow> 'w bench_event list \<Rightarrow> time \<Rightarrow> 'w \<Rightarrow> (RunResult result \<times> 'w) option" where
  "Run env spec events measured w =
     (if sp_Targets spec = [] then Some (Inl (NewError ''bench: no targets''), w)
      else if sp_Concurrency spec < 0 then None
      else map_option (\<lambda>st. (Inr (run_result (be_ovf env) spec measured st), br_world st))
             (bench_turns env spec events (start_run env spec w)))"

end
