(* ===== verification/BenchScenarios.thy ===== *)
theory BenchScenarios
  imports BenchRun
begin

text \<open>
  \<^verbatim>\<open>cmd/bench\<close>: what surrounds the measured runs. The summary of repetitions, the memory samples, the
  preload with its confirmation, the list of scenarios and their execution, and the command line.
\<close>

section \<open>Summary of repetitions\<close>

fun f64_neg :: "f64 \<Rightarrow> f64" where
  "f64_neg FNaN = FNaN"
| "f64_neg (FInf b) = FInf (\<not> b)"
| "f64_neg (Fin q) = Fin (- q)"

record Spread =
  sd_OpsPerSecMin :: f64
  sd_OpsPerSecMax :: f64
  sd_MiBPerSecMin :: f64
  sd_MiBPerSecMax :: f64
  sd_P99MsMin :: f64
  sd_P99MsMax :: f64
  sd_RelativeRange :: f64

text \<open>The body of the loop over the sorted runs.\<close>

definition widen :: "Spread \<Rightarrow> RunResult \<Rightarrow> Spread" where
  "widen sp r =
     (let p = sm_P99Ms (rr_Latency r); m = rr_MiBPerSec r in
      sp\<lparr>sd_P99MsMin := (if f64_lt p (sd_P99MsMin sp) then p else sd_P99MsMin sp),
         sd_P99MsMax := (if f64_lt (sd_P99MsMax sp) p then p else sd_P99MsMax sp),
         sd_MiBPerSecMin := (if f64_lt m (sd_MiBPerSecMin sp) then m else sd_MiBPerSecMin sp),
         sd_MiBPerSecMax := (if f64_lt (sd_MiBPerSecMax sp) m then m else sd_MiBPerSecMax sp)\<rparr>)"

text \<open>\<^verbatim>\<open>summarise\<close>; the panic without runs is \<open>None\<close>. Runs of equal throughput keep their order, as \<^verbatim>\<open>sort.Slice\<close>
  leaves them for up to twelve runs.\<close>

definition summarise :: "RunResult list \<Rightarrow> (RunResult \<times> Spread) option" where
  "summarise runs =
     (if runs = [] then None
      else let sorted = sort_by (\<lambda>a b. f64_lt (rr_OpsPerSec a) (rr_OpsPerSec b)) runs;
               median = sorted ! (length sorted div 2);
               lo = sorted ! 0;
               hi = sorted ! (length sorted - 1);
               sp = foldl widen
                      \<lparr>sd_OpsPerSecMin = rr_OpsPerSec lo, sd_OpsPerSecMax = rr_OpsPerSec hi, sd_MiBPerSecMin = rr_MiBPerSec lo,
                       sd_MiBPerSecMax = rr_MiBPerSec hi, sd_P99MsMin = sm_P99Ms (rr_Latency lo),
                       sd_P99MsMax = sm_P99Ms (rr_Latency hi), sd_RelativeRange = Fin 0\<rparr> sorted
           in Some (median,
                    if f64_lt (Fin 0) (rr_OpsPerSec median)
                    then sp\<lparr>sd_RelativeRange := f64_div (f64_add (sd_OpsPerSecMax sp) (f64_neg (sd_OpsPerSecMin sp))) (rr_OpsPerSec median)\<rparr>
                    else sp))"

section \<open>Memory samples\<close>

record NodeSample =
  ns_Node :: string
  ns_RSSBytes :: f64
  ns_HeapBytes :: f64
  ns_Goroutines :: f64
  ns_OpenFDs :: f64

definition no_sample :: "string \<Rightarrow> NodeSample" where
  "no_sample t = \<lparr>ns_Node = t, ns_RSSBytes = Fin 0, ns_HeapBytes = Fin 0, ns_Goroutines = Fin 0, ns_OpenFDs = Fin 0\<rparr>"

text \<open>The text after the last space, the name before it without its labels.\<close>

definition splitMetric :: "(string \<Rightarrow> f64 option) \<Rightarrow> string \<Rightarrow> (string \<times> f64) option" where
  "splitMetric parse line =
     (if CHR '' '' \<notin> set line then None
      else let value = rev (takeWhile (\<lambda>c. c \<noteq> CHR '' '') (rev line));
               name = take (length line - length value - 1) line
           in map_option (\<lambda>v. (takeWhile (\<lambda>c. c \<noteq> CHR ''{'') name, v)) (parse (trim_space value)))"

definition sample_line :: "(string \<Rightarrow> f64 option) \<Rightarrow> NodeSample \<Rightarrow> string \<Rightarrow> NodeSample" where
  "sample_line parse s line =
     (if has_prefix line ''#'' \<or> line = '''' then s
      else case splitMetric parse line of
        None \<Rightarrow> s
      | Some (name, value) \<Rightarrow>
          if name = ''process_resident_memory_bytes'' then s\<lparr>ns_RSSBytes := value\<rparr>
          else if name = ''go_memstats_heap_alloc_bytes'' then s\<lparr>ns_HeapBytes := value\<rparr>
          else if name = ''go_goroutines'' then s\<lparr>ns_Goroutines := value\<rparr>
          else if name = ''process_open_fds'' then s\<lparr>ns_OpenFDs := value\<rparr>
          else s)"

fun sampleNodes :: "('s, 'w) bench_env \<Rightarrow> string list \<Rightarrow> 'w \<Rightarrow> NodeSample list \<times> 'w" where
  "sampleNodes env [] w = ([], w)"
| "sampleNodes env (t # ts) w =
     (case (case NewRequest (be_bad env) ''GET'' t ''/metrics'' [] of
              Inl e \<Rightarrow> (no_sample t, w)
            | Inr req \<Rightarrow>
                (case be_do env req w of
                   (Inl e, w') \<Rightarrow> (no_sample t, w')
                 | (Inr resp, w') \<Rightarrow>
                     (foldl (sample_line (be_parseFloat env)) (no_sample t)
                        (split_on (CHR 0x0A) (take (2 ^ 22) (fst (rs_body resp)))), w'))) of
        (s, w1) \<Rightarrow> (case sampleNodes env ts w1 of (ss, w2) \<Rightarrow> (s # ss, w2)))"

text \<open>\<^verbatim>\<open>watchMemory\<close>: the samples of every tick, and the peak that is kept of them.\<close>

definition watch_tick :: "NodeSample list \<Rightarrow> NodeSample list \<Rightarrow> NodeSample list" where
  "watch_tick peak now =
     map (\<lambda>(p, n). if f64_lt (ns_RSSBytes p) (ns_RSSBytes n) then n else p) (zip peak now) @ drop (length now) peak"

definition watchMemory :: "string list \<Rightarrow> NodeSample list list \<Rightarrow> NodeSample list" where
  "watchMemory targets ticks = foldl watch_tick (map no_sample targets) ticks"

definition PeakRSSMiB :: "NodeSample list \<Rightarrow> f64" where
  "PeakRSSMiB peak =
     foldl (\<lambda>m s. let mib = f64_div (ns_RSSBytes s) (Fin 1048576) in if f64_lt m mib then mib else m) (Fin 0) peak"

section \<open>Preload\<close>

text \<open>The concurrent uploads, in the order \<open>sched\<close> in which they take effect.\<close>

fun preload_puts :: "('s, 'w) bench_env \<Rightarrow> string list \<Rightarrow> BenchObject list \<Rightarrow> nat list \<Rightarrow> go_error list \<Rightarrow> 'w \<Rightarrow> go_error list \<times> 'w" where
  "preload_puts env targets objs [] errs w = (errs, w)"
| "preload_puts env targets objs (i # is) errs w =
     (case doPut env (targets ! (i mod length targets)) (objs ! i) w of
        ((n, miss, err), w') \<Rightarrow> preload_puts env targets objs is (case err of Some e \<Rightarrow> errs @ [e] | None \<Rightarrow> errs) w')"

fun preload_checks :: "('s, 'w) bench_env \<Rightarrow> string \<Rightarrow> BenchObject list \<Rightarrow> 'w \<Rightarrow> go_error option \<times> 'w" where
  "preload_checks env base [] w = (None, w)"
| "preload_checks env base (obj # objs) w =
     (case doGet env base (ob_Key obj) True (length (ob_Content obj)) w of
        ((n, miss, Some e), w') \<Rightarrow> (Some (Wrapped ''preload verification'' e), w')
      | ((n, miss, None), w') \<Rightarrow>
          if miss \<or> n \<noteq> int (length (ob_Content obj))
          then (Some (NewError (''preload verification: object '' @ take 8 (ob_Key obj) @ '' is not readable after preload'')), w')
          else preload_checks env base objs w')"

text \<open>\<^verbatim>\<open>preload\<close>; the panics without objects or targets are \<open>None\<close>.\<close>

definition preload :: "('s, 'w) bench_env \<Rightarrow> string list \<Rightarrow> Corpus \<Rightarrow> nat list \<Rightarrow> 'w \<Rightarrow> (go_error option \<times> 'w) option" where
  "preload env targets c sched w =
     (let objs = cp_Objects c; n = length objs in
      if targets = [] \<or> objs = [] then None
      else case preload_puts env targets objs sched [] w of
        (e # es, w') \<Rightarrow> Some (Some (Wrapped ''preload'' e), w')
      | ([], w') \<Rightarrow> Some (preload_checks env (targets ! 0) [objs ! 0, objs ! (n div 2), objs ! (n - 1)] w'))"

text \<open>\<^verbatim>\<open>waitReady\<close>, which does not look at its context.\<close>

fun waitReady :: "('s, 'w) bench_env \<Rightarrow> time \<Rightarrow> string list \<Rightarrow> (time \<times> go_error option) list \<Rightarrow> 'w \<Rightarrow> (go_error option \<times> 'w) option" where
  "waitReady env deadline [] clock w = Some (None, w)"
| "waitReady env deadline (t # ts) clock w =
     (case poll_ready (be_bad env) (be_do env) deadline t clock w of
        None \<Rightarrow> None
      | Some (Inl e, clock', w') \<Rightarrow> Some (Some e, w')
      | Some (Inr False, clock', w') \<Rightarrow> Some (Some (NewError (''node '' @ t @ '' is not ready'')), w')
      | Some (Inr True, clock', w') \<Rightarrow> waitReady env deadline ts clock' w')"

definition replicaCountOf :: "('s, 'w) bench_env \<Rightarrow> string \<Rightarrow> 'w \<Rightarrow> int \<times> 'w" where
  "replicaCountOf env target0 w =
     (case NewRequest (be_bad env) ''GET'' target0 ''/stats'' [] of
        Inl e \<Rightarrow> (0, w)
      | Inr req \<Rightarrow>
        (case be_do env req w of
           (Inl e, w') \<Rightarrow> (0, w')
         | (Inr resp, w') \<Rightarrow>
             (case be_replicas env (take (2 ^ 20) (fst (rs_body resp)),
                                    if length (fst (rs_body resp)) \<ge> 2 ^ 20 then None else snd (rs_body resp)) of
                None \<Rightarrow> (0, w')
              | Some n \<Rightarrow> (n, w'))))"

section \<open>Notes\<close>

text \<open>The formats \<^verbatim>\<open>%.0f\<close>, \<^verbatim>\<open>%.1f\<close> and so on, with \<open>d\<close> digits after the point.\<close>

fun show_fixed :: "nat \<Rightarrow> f64 \<Rightarrow> string" where
  "show_fixed d FNaN = ''NaN''"
| "show_fixed d (FInf b) = (if b then ''+Inf'' else ''-Inf'')"
| "show_fixed d (Fin q) =
     (let k = nat (rne (\<bar>q\<bar> * 10 ^ d)); f = show_nat (k mod 10 ^ d)
      in (if q < 0 then ''-'' else '''') @ show_nat (k div 10 ^ d)
         @ (if d = 0 then '''' else CHR ''.'' # replicate (d - length f) (CHR ''0'') @ f))"

definition humanBytes :: "int \<Rightarrow> string" where
  "humanBytes n =
     (if n \<ge> 2 ^ 30 then show_fixed 1 (f64_div (f64_of_int n) (Fin (2 ^ 30))) @ '' GiB''
      else if n \<ge> 2 ^ 20 then show_fixed 0 (f64_div (f64_of_int n) (Fin (2 ^ 20))) @ '' MiB''
      else if n \<ge> 2 ^ 10 then show_fixed 0 (f64_div (f64_of_int n) (Fin (2 ^ 10))) @ '' KiB''
      else show_int n @ '' B'')"

definition pageCacheNote :: "int \<Rightarrow> int \<Rightarrow> string" where
  "pageCacheNote corpusBytes ramBytes =
     (if ramBytes \<le> 0 then ''host memory unknown; whether the corpus fits in the page cache could not be determined''
      else let ratio = f64_div (f64_of_int corpusBytes) (f64_of_int ramBytes);
               host = '' of the host'' @ [CHR 0x27] @ ''s '' @ humanBytes ramBytes in
        if f64_lt ratio (Fin (1 / 2))
        then ''WARM: the '' @ humanBytes corpusBytes @ '' corpus is '' @ show_fixed 1 (f64_mul ratio (Fin 100)) @ ''%'' @ host
             @ '' of RAM, so it can be served entirely from the page cache. These are warm-cache numbers and do not measure the disk. ''
             @ ''The cold-path floor is the fio device baseline in device-baseline.json.''
        else if f64_lt ratio (Fin (3 / 2))
        then ''MIXED: the '' @ humanBytes corpusBytes @ '' corpus is '' @ show_fixed 0 (f64_mul ratio (Fin 100)) @ ''%'' @ host
             @ '' of RAM, so reads are partly served from the page cache and partly from the device.''
        else ''COLD-ISH: the '' @ humanBytes corpusBytes @ '' corpus is '' @ show_fixed 1 ratio @ ''x the host'' @ [CHR 0x27] @ ''s ''
             @ humanBytes ramBytes @ '' of RAM, so most reads reach the device.'')"

definition maxInt :: "int list \<Rightarrow> int" where
  "maxInt xs = foldl (\<lambda>m x. if x > m then x else m) 0 xs"

definition minInt :: "int \<Rightarrow> int \<Rightarrow> int" where
  "minInt a b = (if a < b then a else b)"

section \<open>Scenarios\<close>

record Scenario =
  sc_Name :: string
  sc_Description :: string
  sc_Op :: Op
  sc_ObjectSize :: nat
  sc_ObjectCount :: nat
  sc_HitRatio :: f64
  sc_Preload :: bool
  sc_Verify :: bool

definition scenarios :: "Scenario list" where
  "scenarios =
     [\<lparr>sc_Name = ''get-64k'', sc_Description = ''64 KiB cache hits: the common case, a Bazel action fetching a small output.'',
       sc_Op = OpGet, sc_ObjectSize = 64 * 2 ^ 10, sc_ObjectCount = 4000, sc_HitRatio = Fin 0, sc_Preload = True, sc_Verify = False\<rparr>,
      \<lparr>sc_Name = ''get-8m'', sc_Description = ''8 MiB cache hits: large object throughput, a static library or a debug binary.'',
       sc_Op = OpGet, sc_ObjectSize = 8 * 2 ^ 20, sc_ObjectCount = 120, sc_HitRatio = Fin 0, sc_Preload = True, sc_Verify = False\<rparr>,
      \<lparr>sc_Name = ''put-replicated'',
       sc_Description = ''1 MiB writes with replica count 2: every PUT places a second copy before it returns.'',
       sc_Op = OpPut, sc_ObjectSize = 2 ^ 20, sc_ObjectCount = 2000, sc_HitRatio = Fin 0, sc_Preload = False, sc_Verify = False\<rparr>,
      \<lparr>sc_Name = ''mixed-80-20'', sc_Description = ''64 KiB reads, 80% hits and 20% misses: the shape of a partially warm cache.'',
       sc_Op = OpMixed, sc_ObjectSize = 64 * 2 ^ 10, sc_ObjectCount = 4000, sc_HitRatio = f64_of_rat (8 / 10), sc_Preload = True,
       sc_Verify = False\<rparr>,
      \<lparr>sc_Name = ''get-64k-verified'',
       sc_Description = ''64 KiB hits with every response body re-hashed by the client. The cost of proving correctness.'',
       sc_Op = OpGet, sc_ObjectSize = 64 * 2 ^ 10, sc_ObjectCount = 4000, sc_HitRatio = Fin 0, sc_Preload = True, sc_Verify = True\<rparr>]"

definition select_scenarios :: "string list \<Rightarrow> Scenario list result" where
  "select_scenarios want =
     (if want = [] then Inr scenarios
      else let filtered = filter (\<lambda>s. sc_Name s \<in> set want) scenarios in
        if filtered = [] then Inl (NewError (''no scenario matched ['' @ join '' '' want @ '']'')) else Inr filtered)"

record bench_options =
  bo_targets :: "string list"
  bo_out :: string
  bo_runs :: int
  bo_duration :: time
  bo_warmup :: time
  bo_concurrency :: "int list"
  bo_scenarios :: "string list"
  bo_smoke :: bool
  bo_verify :: bool
  bo_seed :: int
  bo_netem :: string
  bo_colocated :: bool
  bo_profileDir :: string
  bo_label :: string
  bo_ramBytes :: int
  bo_peakMemory :: "NodeSample list"

record Point =
  pt_Concurrency :: int
  pt_Runs :: "RunResult list"
  pt_Median :: RunResult
  pt_Spread :: Spread

record MemoryObservation =
  mo_Scenario :: string
  mo_ObjectSize :: nat
  mo_Concurrency :: int
  mo_Before :: "NodeSample list"
  mo_Peak :: "NodeSample list"
  mo_After :: "NodeSample list"
  mo_PeakRSSMiB :: f64

record ScenarioResult =
  sr_Name :: string
  sr_Description :: string
  sr_Corpus :: Corpus
  sr_Points :: "Point list"
  sr_Memory :: MemoryObservation
  sr_PageCacheNote :: string

text \<open>What the schedule gives a repetition, with whether the session was interrupted before it; and a
  concurrency level: its repetitions, one for each of \<^verbatim>\<open>opts.runs\<close>, and the samples of the memory watch.\<close>

record 'w run_input =
  ri_done :: bool
  ri_events :: "'w bench_event list"
  ri_measured :: time

record 'w point_input =
  pi_runs :: "'w run_input list"
  pi_ticks :: "NodeSample list list"

fun bench_runs :: "('s, 'w) bench_env \<Rightarrow> RunSpec \<Rightarrow> 'w run_input list \<Rightarrow> RunResult list \<Rightarrow> 'w \<Rightarrow> (RunResult list result \<times> 'w) option" where
  "bench_runs env spec [] runs w = Some (Inr runs, w)"
| "bench_runs env spec (r # rs) runs w =
     (if ri_done r then Some (Inr runs, w)
      else case Run env spec (ri_events r) (ri_measured r) w of
        None \<Rightarrow> None
      | Some (Inl e, w') \<Rightarrow> Some (Inl e, w')
      | Some (Inr x, w') \<Rightarrow> bench_runs env spec rs (runs @ [x]) w')"

definition run_spec :: "('s, 'w) bench_env \<Rightarrow> bench_options \<Rightarrow> Scenario \<Rightarrow> Corpus \<Rightarrow> int \<Rightarrow> RunSpec" where
  "run_spec env opts sc corpus conc =
     \<lparr>sp_Scenario = sc_Name sc, sp_Op = sc_Op sc, sp_Concurrency = conc, sp_Duration = bo_duration opts, sp_Warmup = bo_warmup opts,
      sp_Corpus = corpus, sp_MissKeys = MissKeys (be_sha env) (be_rng env) 1024 (bo_seed opts), sp_HitRatio = sc_HitRatio sc,
      sp_Targets = bo_targets opts, sp_Verify = (sc_Verify sc \<or> bo_verify opts)\<rparr>"

fun bench_points ::
  "('s, 'w) bench_env \<Rightarrow> bench_options \<Rightarrow> Scenario \<Rightarrow> Corpus \<Rightarrow> (int \<times> 'w point_input) list \<Rightarrow> NodeSample list \<Rightarrow> Point list \<Rightarrow> 'w \<Rightarrow>
     ((Point list \<times> NodeSample list) result \<times> 'w) option" where
  "bench_points env opts sc corpus [] peak points w = Some (Inr (points, peak), w)"
| "bench_points env opts sc corpus ((conc, pin) # ps) peak points w =
     (case bench_runs env (run_spec env opts sc corpus conc) (take (nat (bo_runs opts)) (pi_runs pin)) [] w of
        None \<Rightarrow> None
      | Some (Inl e, w') \<Rightarrow> Some (Inl e, w')
      | Some (Inr runs, w') \<Rightarrow>
          let peak' = (if conc = maxInt (bo_concurrency opts) then watchMemory (bo_targets opts) (pi_ticks pin) else peak) in
          (case summarise runs of
             None \<Rightarrow> bench_points env opts sc corpus ps peak' points w'
           | Some (median, spread) \<Rightarrow>
               bench_points env opts sc corpus ps peak'
                 (points @ [\<lparr>pt_Concurrency = conc, pt_Runs = runs, pt_Median = median, pt_Spread = spread\<rparr>]) w'))"

definition runScenario ::
  "('s, 'w) bench_env \<Rightarrow> bench_options \<Rightarrow> Scenario \<Rightarrow> nat list \<Rightarrow> 'w point_input list \<Rightarrow> 'w \<Rightarrow>
     ((ScenarioResult \<times> bench_options) result \<times> 'w) option" where
  "runScenario env opts sc sched pins w =
     (let cnt = (if bo_smoke opts then nat (minInt (int (sc_ObjectCount sc)) 64) else sc_ObjectCount sc);
          corpus = NewCorpus (be_sha env) (be_rng env) (sc_Name sc) cnt (sc_ObjectSize sc) (bo_seed opts) in
      case (if sc_Preload sc then preload env (bo_targets opts) corpus sched w else Some (None, w)) of
        None \<Rightarrow> None
      | Some (Some e, w1) \<Rightarrow> Some (Inl e, w1)
      | Some (None, w1) \<Rightarrow>
        (case sampleNodes env (bo_targets opts) w1 of (memBefore, w2) \<Rightarrow>
         (case bench_points env opts sc corpus (zip (bo_concurrency opts) pins) (bo_peakMemory opts) [] w2 of
            None \<Rightarrow> None
          | Some (Inl e, w3) \<Rightarrow> Some (Inl e, w3)
          | Some (Inr (points, peak), w3) \<Rightarrow>
             (case sampleNodes env (bo_targets opts) w3 of (memAfter, w4) \<Rightarrow>
                Some (Inr
                  (\<lparr>sr_Name = sc_Name sc, sr_Description = sc_Description sc, sr_Corpus = corpus, sr_Points = points,
                    sr_Memory = \<lparr>mo_Scenario = sc_Name sc, mo_ObjectSize = sc_ObjectSize sc,
                      mo_Concurrency = maxInt (bo_concurrency opts), mo_Before = memBefore, mo_Peak = peak, mo_After = memAfter,
                      mo_PeakRSSMiB = PeakRSSMiB peak\<rparr>,
                    sr_PageCacheNote = pageCacheNote (corpus_Bytes corpus) (bo_ramBytes opts)\<rparr>,
                   opts\<lparr>bo_peakMemory := peak\<rparr>), w4)))))"

text \<open>The loop of \<^verbatim>\<open>execute\<close>: for every selected scenario its inputs, and whether the session is interrupted
  after it.\<close>

fun run_scenarios ::
  "('s, 'w) bench_env \<Rightarrow> bench_options \<Rightarrow> (Scenario \<times> nat list \<times> 'w point_input list \<times> bool) list \<Rightarrow> ScenarioResult list \<Rightarrow> 'w \<Rightarrow>
     (ScenarioResult list result \<times> 'w) option" where
  "run_scenarios env opts [] res w = Some (Inr res, w)"
| "run_scenarios env opts ((sc, sched, pins, dn) # scs) res w =
     (case runScenario env opts sc sched pins w of
        None \<Rightarrow> None
      | Some (Inl e, w') \<Rightarrow> Some (Inl (Wrapped (''scenario '' @ sc_Name sc) e), w')
      | Some (Inr (r, opts'), w') \<Rightarrow>
          if dn then Some (Inr (res @ [r]), w') else run_scenarios env opts' scs (res @ [r]) w')"

section \<open>Command line\<close>

fun parse_concurrency :: "(string \<Rightarrow> int option) \<Rightarrow> string list \<Rightarrow> int list \<Rightarrow> int list result" where
  "parse_concurrency atoi [] acc = Inr acc"
| "parse_concurrency atoi (c # cs) acc =
     (let c = trim_space c in
      if c = '''' then parse_concurrency atoi cs acc
      else case atoi c of
        None \<Rightarrow> Inl (NewError (''bad concurrency '' @ quoted c))
      | Some n \<Rightarrow> if n < 1 then Inl (NewError (''bad concurrency '' @ quoted c)) else parse_concurrency atoi cs (acc @ [n]))"

text \<open>\<^verbatim>\<open>run\<close> after the flags, up to the call of \<^verbatim>\<open>execute\<close>.\<close>

definition bench_setup :: "(string \<Rightarrow> int option) \<Rightarrow> string \<Rightarrow> string \<Rightarrow> string \<Rightarrow> bench_options \<Rightarrow> bench_options result" where
  "bench_setup atoi targetsRaw concurrency scens opts =
     (if bo_out opts = '''' then Inl (NewError ''-out is required: a benchmark whose raw output is not written is not a measurement'')
      else let targets = filter (\<lambda>t. t \<noteq> '''') (map (\<lambda>t. trim_right (CHR ''/'') (trim_space t)) (split_on (CHR '','') targetsRaw)) in
        if targets = [] then Inl (NewError ''no targets'')
        else case parse_concurrency atoi (split_on (CHR '','') concurrency) [] of
          Inl e \<Rightarrow> Inl e
        | Inr conc \<Rightarrow>
            let names = (if scens = '''' then [] else filter (\<lambda>s. s \<noteq> '''') (map trim_space (split_on (CHR '','') scens)));
                opts1 = opts\<lparr>bo_targets := targets, bo_concurrency := conc, bo_scenarios := names, bo_ramBytes := 0, bo_peakMemory := []\<rparr>
            in Inr (if bo_smoke opts
                    then opts1\<lparr>bo_runs := 1, bo_duration := 3 * second, bo_warmup := second, bo_concurrency := [8]\<rparr> else opts1))"

end
