(* ===== verification/ChaosRun.thy ===== *)
theory ChaosRun
  imports Drivers
begin

text \<open>
  \<^verbatim>\<open>cmd/chaos\<close>: the driver that sends mixed traffic to a cluster while it stops and starts nodes, and then
  judges what it saw. Its bookkeeping (the ledger and the counters), every kind of request it sends,
  the fault injector, the convergence measurement, the final verification and the verdict.

  The cluster behind the HTTP client is the type variable \<open>'w\<close>. The record \<open>chaos_env\<close> holds what is
  outside the program: SHA-256, the random numbers, the HTTP client, \<^verbatim>\<open>docker compose\<close>, and the JSON
  decoder. Traffic is a sequence of events: a turn of a worker, a stop or a start of the fault
  injector, or a change of the cluster that the driver does not cause. The panics of a worker (an
  object size outside its buffer, no nodes) are the result \<open>None\<close>.
\<close>

section \<open>Options and nodes\<close>

record target =
  tg_Name :: string
  tg_URL :: string

record chaos_options =
  cx_nodes :: "string list"
  cx_duration :: time
  cx_workers :: int
  cx_readRatio :: f64
  cx_objectMin :: int
  cx_objectMax :: int
  cx_faultEvery :: time
  cx_faultDown :: time
  cx_convergeWait :: time
  cx_out :: string
  cx_composeFile :: string
  cx_composeProject :: string
  cx_seed :: int
  cx_noFaults :: bool

text \<open>\<^verbatim>\<open>parseNodes\<close>: the global \<^verbatim>\<open>nodeOrder\<close> that it leaves, and the names or the error.\<close>

fun parse_node_parts :: "string list \<Rightarrow> target list \<Rightarrow> target list \<times> go_error option" where
  "parse_node_parts [] order = (order, None)"
| "parse_node_parts (p # ps) order =
     (let part = trim_space p in
      if part = '''' then parse_node_parts ps order
      else case cut part (CHR ''='') of (name, url, ok) \<Rightarrow>
        if \<not> ok then (order, Some (NewError (''node '' @ quoted part @ '' is not in name=url form'')))
        else parse_node_parts ps (order @ [\<lparr>tg_Name = trim_space name, tg_URL = trim_right (CHR ''/'') (trim_space url)\<rparr>]))"

definition parseNodes :: "string \<Rightarrow> target list \<times> string list result" where
  "parseNodes s =
     (case parse_node_parts (split_on (CHR '','') s) [] of
        (order, Some e) \<Rightarrow> (order, Inl e)
      | (order, None) \<Rightarrow> (order, Inr (map tg_Name order)))"

text \<open>\<^verbatim>\<open>run\<close> after the flags are parsed: \<open>nodesRaw\<close> is the value of \<^verbatim>\<open>-nodes\<close>, \<open>now\<close> the clock that seeds the
  random numbers when no seed is given.\<close>

definition chaos_setup :: "time \<Rightarrow> string \<Rightarrow> chaos_options \<Rightarrow> (chaos_options \<times> target list) result" where
  "chaos_setup now nodesRaw opts =
     (if cx_out opts = '''' then Inl (NewError ''-out is required: a chaos run whose report is not written is not evidence'')
      else case parseNodes nodesRaw of
        (order, Inl e) \<Rightarrow> Inl e
      | (order, Inr nodes) \<Rightarrow>
          if length nodes = 0 then Inl (NewError ''no nodes given'')
          else Inr (opts\<lparr>cx_nodes := nodes, cx_seed := (if cx_seed opts = 0 then now else cx_seed opts)\<rparr>, order))"

section \<open>The ledger\<close>

record ledger =
  l_keys :: "string list"
  l_want :: "(string, string) gomap"
  l_size :: "(string, int) gomap"
  l_refused :: "string list"
  l_refusedSet :: "(string, unit) gomap"

definition newLedger :: ledger where
  "newLedger = \<lparr>l_keys = [], l_want = [], l_size = [], l_refused = [], l_refusedSet = []\<rparr>"

definition led_addRefused :: "string \<Rightarrow> ledger \<Rightarrow> ledger" where
  "led_addRefused key l =
     (if mget (l_refusedSet l) key \<noteq> None then l
      else if mget (l_want l) key \<noteq> None then l
      else l\<lparr>l_refusedSet := mput key () (l_refusedSet l), l_refused := l_refused l @ [key]\<rparr>)"

definition refusedKeys :: "ledger \<Rightarrow> string list" where
  "refusedKeys l = filter (\<lambda>k. mget (l_want l) k = None) (l_refused l)"

definition led_add :: "string \<Rightarrow> int \<Rightarrow> ledger \<Rightarrow> ledger" where
  "led_add key sz l =
     (if mget (l_want l) key \<noteq> None then l
      else l\<lparr>l_want := mput key key (l_want l), l_size := mput key sz (l_size l), l_keys := l_keys l @ [key]\<rparr>)"

definition led_random :: "'s rng \<Rightarrow> ledger \<Rightarrow> 's \<Rightarrow> (string \<times> int) option \<times> 's" where
  "led_random g l s =
     (if length (l_keys l) = 0 then (None, s)
      else case rg_Intn g (length (l_keys l)) s of (i, s') \<Rightarrow>
        let k = l_keys l ! i in
        (Some (k, case mget (l_size l) k of Some n \<Rightarrow> n | None \<Rightarrow> 0), s'))"

section \<open>Counters\<close>

record counters =
  k_Writes :: int
  k_WriteOK :: int
  k_WriteRefused :: int
  k_WriteError :: int
  k_Reads :: int
  k_ReadHits :: int
  k_ReadMisses :: int
  k_ReadErrors :: int
  k_ReadsVerified :: int
  k_CorruptedReads :: int
  k_BytesWritten :: int
  k_BytesRead :: int
  k_ConnRefused :: int
  k_Timeouts :: int
  k_ServerErrors :: int

definition zero_counters :: counters where
  "zero_counters = \<lparr>k_Writes = 0, k_WriteOK = 0, k_WriteRefused = 0, k_WriteError = 0, k_Reads = 0, k_ReadHits = 0,
     k_ReadMisses = 0, k_ReadErrors = 0, k_ReadsVerified = 0, k_CorruptedReads = 0, k_BytesWritten = 0, k_BytesRead = 0,
     k_ConnRefused = 0, k_Timeouts = 0, k_ServerErrors = 0\<rparr>"

definition classify :: "go_error \<Rightarrow> counters \<Rightarrow> counters" where
  "classify err c =
     (let msg = to_lower (error_text err) in
      if contains msg ''connection refused'' \<or> contains msg ''no such host'' \<or> contains msg ''connection reset''
      then c\<lparr>k_ConnRefused := k_ConnRefused c + 1\<rparr>
      else if contains msg ''timeout'' \<or> contains msg ''deadline exceeded'' then c\<lparr>k_Timeouts := k_Timeouts c + 1\<rparr>
      else c)"

section \<open>Traffic\<close>

record ('s, 'w) chaos_env =
  xe_sha :: "bytes \<Rightarrow> bytes"
  xe_rng :: "'s rng"
  xe_bad :: "string \<Rightarrow> go_error option"
  xe_do :: "'w transport"
  xe_compose :: "string list \<Rightarrow> 'w \<Rightarrow> (string \<times> go_error option) \<times> 'w"
  xe_decode :: "body \<Rightarrow> json_object result"
  xe_ovf :: "f64 \<Rightarrow> int"

record 'w chaos =
  ch_world :: 'w
  ch_led :: ledger
  ch_cnt :: counters

text \<open>The size of the next object, and its bytes; \<open>None\<close> when \<^verbatim>\<open>buf[:size]\<close> is out of range.\<close>

definition next_content :: "'s rng \<Rightarrow> chaos_options \<Rightarrow> 's \<Rightarrow> (bytes \<times> 's) option" where
  "next_content g opts s =
     (case (if cx_objectMax opts > cx_objectMin opts
            then (case rg_Intn g (nat (cx_objectMax opts - cx_objectMin opts)) s of (n, s') \<Rightarrow> (cx_objectMin opts + int n, s'))
            else (cx_objectMin opts, s)) of
        (sz, s1) \<Rightarrow>
          if 0 \<le> sz \<and> sz \<le> cx_objectMax opts then Some (draw_bytes g (nat sz) s1) else None)"

definition write_outcome :: "http_resp result \<Rightarrow> string \<Rightarrow> int \<Rightarrow> ledger \<Rightarrow> counters \<Rightarrow> ledger \<times> counters" where
  "write_outcome r key sz l c =
     (case r of
        Inl e \<Rightarrow> (l, (classify e c)\<lparr>k_WriteError := k_WriteError c + 1\<rparr>)
      | Inr resp \<Rightarrow>
          if rs_status resp \<ge> 200 \<and> rs_status resp < 300
          then (led_add key sz l, c\<lparr>k_WriteOK := k_WriteOK c + 1, k_BytesWritten := k_BytesWritten c + sz\<rparr>)
          else if rs_status resp = 503 then (led_addRefused key l, c\<lparr>k_WriteRefused := k_WriteRefused c + 1\<rparr>)
          else (l, c\<lparr>k_WriteError := k_WriteError c + 1,
                     k_ServerErrors := k_ServerErrors c + (if rs_status resp \<ge> 500 then 1 else 0)\<rparr>))"

definition doWrite ::
  "('s, 'w) chaos_env \<Rightarrow> chaos_options \<Rightarrow> target list \<Rightarrow> 's \<Rightarrow> 'w chaos \<Rightarrow> ('s \<times> 'w chaos) option" where
  "doWrite env opts order s x =
     (case next_content (xe_rng env) opts s of
        None \<Rightarrow> None
      | Some (content, s1) \<Rightarrow>
        let key = hex_encode (xe_sha env content) in
        if order = [] then None
        else case rg_Intn (xe_rng env) (length order) s1 of (i, s2) \<Rightarrow>
          (case NewRequest (xe_bad env) ''PUT'' (tg_URL (order ! i)) (cas_path key) content of
             Inl e \<Rightarrow> Some (s2, x)
           | Inr req \<Rightarrow>
             (case xe_do env req (ch_world x) of (r, w') \<Rightarrow>
                (case write_outcome r key (int (length content)) (ch_led x) ((ch_cnt x)\<lparr>k_Writes := k_Writes (ch_cnt x) + 1\<rparr>) of
                   (l, c) \<Rightarrow> Some (s2, \<lparr>ch_world = w', ch_led = l, ch_cnt = c\<rparr>)))))"

definition read_outcome :: "(bytes \<Rightarrow> bytes) \<Rightarrow> http_resp result \<Rightarrow> string \<Rightarrow> int \<Rightarrow> counters \<Rightarrow> counters" where
  "read_outcome sha r key sz c =
     (case r of
        Inl e \<Rightarrow> (classify e c)\<lparr>k_ReadErrors := k_ReadErrors c + 1\<rparr>
      | Inr resp \<Rightarrow>
          if rs_status resp = 200
          then (case rs_body resp of
                  (b, Some e) \<Rightarrow> c\<lparr>k_ReadErrors := k_ReadErrors c + 1\<rparr>
                | (b, None) \<Rightarrow>
                    c\<lparr>k_ReadHits := k_ReadHits c + 1, k_BytesRead := k_BytesRead c + int (length b),
                      k_ReadsVerified := k_ReadsVerified c + 1,
                      k_CorruptedReads := k_CorruptedReads c + (if hex_encode (sha b) \<noteq> key \<or> int (length b) \<noteq> sz then 1 else 0)\<rparr>)
          else if rs_status resp = 404 then c\<lparr>k_ReadMisses := k_ReadMisses c + 1\<rparr>
          else c\<lparr>k_ReadErrors := k_ReadErrors c + 1,
                 k_ServerErrors := k_ServerErrors c + (if rs_status resp \<ge> 500 then 1 else 0)\<rparr>)"

definition doRead ::
  "('s, 'w) chaos_env \<Rightarrow> target list \<Rightarrow> 's \<Rightarrow> 'w chaos \<Rightarrow> ('s \<times> 'w chaos) option" where
  "doRead env order s x =
     (case led_random (xe_rng env) (ch_led x) s of
        (None, s1) \<Rightarrow> Some (s1, x)
      | (Some (key, sz), s1) \<Rightarrow>
        if order = [] then None
        else case rg_Intn (xe_rng env) (length order) s1 of (i, s2) \<Rightarrow>
          (case NewRequest (xe_bad env) ''GET'' (tg_URL (order ! i)) (cas_path key) [] of
             Inl e \<Rightarrow> Some (s2, x)
           | Inr req \<Rightarrow>
             (case xe_do env req (ch_world x) of (r, w') \<Rightarrow>
                Some (s2, x\<lparr>ch_world := w',
                  ch_cnt := read_outcome (xe_sha env) r key sz ((ch_cnt x)\<lparr>k_Reads := k_Reads (ch_cnt x) + 1\<rparr>)\<rparr>))))"

text \<open>One iteration of \<^verbatim>\<open>worker\<close>, whose buffer has the size of the largest object.\<close>

definition worker_turn ::
  "('s, 'w) chaos_env \<Rightarrow> chaos_options \<Rightarrow> target list \<Rightarrow> 's \<Rightarrow> 'w chaos \<Rightarrow> ('s \<times> 'w chaos) option" where
  "worker_turn env opts order s x =
     (case rg_Float64 (xe_rng env) s of (f, s1) \<Rightarrow>
        if cx_objectMax opts < 0 then None
        else if f64_lt f (cx_readRatio opts) then doRead env order s1 x else doWrite env opts order s1 x)"

section \<open>Faults\<close>

record faultEvent =
  fe_Node :: string
  fe_StoppedAt :: time
  fe_StartedAt :: "time option"
  fe_DownFor :: "time option"
  fe_StopErr :: string
  fe_StartErr :: string

text \<open>The command line of \<^verbatim>\<open>compose\<close>, and its error as the events record it.\<close>

definition compose :: "('s, 'w) chaos_env \<Rightarrow> chaos_options \<Rightarrow> string list \<Rightarrow> 'w \<Rightarrow> string option \<times> 'w" where
  "compose env opts args w =
     (case xe_compose env ([''compose'', ''-p'', cx_composeProject opts, ''-f'', cx_composeFile opts] @ args) w of
        ((out, e), w') \<Rightarrow> (map_option (\<lambda>e. error_text e @ '': '' @ trim_space out) e, w'))"

text \<open>\<^verbatim>\<open>Duration.Round(time.Millisecond)\<close>: to the nearest, halves away from zero.\<close>

definition round_ms :: "time \<Rightarrow> time" where
  "round_ms d =
     (let m = 1000000; r = \<bar>d\<bar> mod m; a = (if r + r < m then \<bar>d\<bar> - r else \<bar>d\<bar> + m - r) in if d < 0 then - a else a)"

text \<open>
  \<^verbatim>\<open>injectFaults\<close> as a machine with two states: no fault is pending, or one node is stopped and will be
  started again. A tick stops a node; the end of the down time, or of the run, starts it.
\<close>

record 's injector =
  ij_rng :: 's
  ij_pending :: "faultEvent option"
  ij_events :: "faultEvent list"

definition fault_stop ::
  "('s, 'w) chaos_env \<Rightarrow> chaos_options \<Rightarrow> target list \<Rightarrow> time \<Rightarrow> 's injector \<Rightarrow> 'w \<Rightarrow> 's injector \<times> 'w" where
  "fault_stop env opts order now j w =
     (if ij_pending j \<noteq> None \<or> order = [] then (j, w)
      else case rg_Intn (xe_rng env) (length order) (ij_rng j) of (i, s') \<Rightarrow>
        let victim = tg_Name (order ! i);
            ev = \<lparr>fe_Node = victim, fe_StoppedAt = now, fe_StartedAt = None, fe_DownFor = None, fe_StopErr = '''', fe_StartErr = ''''\<rparr> in
        (case compose env opts [''stop'', ''-t'', ''3'', victim] w of
           (Some e, w') \<Rightarrow> (j\<lparr>ij_rng := s', ij_events := ij_events j @ [ev\<lparr>fe_StopErr := e\<rparr>]\<rparr>, w')
         | (None, w') \<Rightarrow> (j\<lparr>ij_rng := s', ij_pending := Some ev\<rparr>, w')))"

definition fault_start ::
  "('s, 'w) chaos_env \<Rightarrow> chaos_options \<Rightarrow> time \<Rightarrow> 's injector \<Rightarrow> 'w \<Rightarrow> 's injector \<times> 'w" where
  "fault_start env opts now j w =
     (case ij_pending j of
        None \<Rightarrow> (j, w)
      | Some ev \<Rightarrow>
        (case compose env opts [''start'', fe_Node ev] w of
           (e, w') \<Rightarrow>
             let ev' = ev\<lparr>fe_StartErr := (case e of Some t \<Rightarrow> t | None \<Rightarrow> ''''), fe_StartedAt := Some now,
                          fe_DownFor := Some (round_ms (now - fe_StoppedAt ev))\<rparr> in
             (j\<lparr>ij_pending := None, ij_events := ij_events j @ [ev']\<rparr>, w')))"

fun restore_nodes :: "('s, 'w) chaos_env \<Rightarrow> chaos_options \<Rightarrow> target list \<Rightarrow> go_error option \<Rightarrow> 'w \<Rightarrow> go_error option \<times> 'w" where
  "restore_nodes env opts [] firstErr w = (firstErr, w)"
| "restore_nodes env opts (n # ns) firstErr w =
     (case compose env opts [''start'', tg_Name n] w of
        (e, w') \<Rightarrow>
          restore_nodes env opts ns
            (case (e, firstErr) of
               (Some t, None) \<Rightarrow> Some (NewError (''start '' @ tg_Name n @ '': '' @ t))
             | _ \<Rightarrow> firstErr) w')"

definition restoreAll :: "('s, 'w) chaos_env \<Rightarrow> chaos_options \<Rightarrow> target list \<Rightarrow> 'w \<Rightarrow> go_error option \<times> 'w" where
  "restoreAll env opts order w = (if cx_noFaults opts then (None, w) else restore_nodes env opts order None w)"

section \<open>The run of the traffic\<close>

text \<open>What happens while the traffic runs: worker \<open>i\<close> takes a turn, the injector stops or starts a node at a
  time, or the cluster changes on its own.\<close>

datatype 'w traffic_event = Turn nat | StopNode time | StartNode time | Change "'w \<Rightarrow> 'w"

record ('s, 'w) traffic_state =
  ts_rngs :: "nat \<Rightarrow> 's"
  ts_chaos :: "'w chaos"
  ts_inj :: "'s injector"

definition on_injector ::
  "('s injector \<Rightarrow> 'w \<Rightarrow> 's injector \<times> 'w) \<Rightarrow> ('s, 'w) traffic_state \<Rightarrow> ('s, 'w) traffic_state" where
  "on_injector f ts =
     (case f (ts_inj ts) (ch_world (ts_chaos ts)) of
        (j, w') \<Rightarrow> ts\<lparr>ts_inj := j, ts_chaos := (ts_chaos ts)\<lparr>ch_world := w'\<rparr>\<rparr>)"

fun traffic_turn ::
  "('s, 'w) chaos_env \<Rightarrow> chaos_options \<Rightarrow> target list \<Rightarrow> 'w traffic_event \<Rightarrow> ('s, 'w) traffic_state \<Rightarrow> ('s, 'w) traffic_state option" where
  "traffic_turn env opts order (Turn i) ts =
     (if \<not> int i < cx_workers opts then Some ts
      else map_option (\<lambda>(s, x). ts\<lparr>ts_rngs := (ts_rngs ts)(i := s), ts_chaos := x\<rparr>)
             (worker_turn env opts order (ts_rngs ts i) (ts_chaos ts)))"
| "traffic_turn env opts order (StopNode now) ts =
     Some (if cx_noFaults opts then ts else on_injector (fault_stop env opts order now) ts)"
| "traffic_turn env opts order (StartNode now) ts =
     Some (if cx_noFaults opts then ts else on_injector (fault_start env opts now) ts)"
| "traffic_turn env opts order (Change f) ts = Some (ts\<lparr>ts_chaos := (ts_chaos ts)\<lparr>ch_world := f (ch_world (ts_chaos ts))\<rparr>\<rparr>)"

fun traffic ::
  "('s, 'w) chaos_env \<Rightarrow> chaos_options \<Rightarrow> target list \<Rightarrow> 'w traffic_event list \<Rightarrow> ('s, 'w) traffic_state \<Rightarrow> ('s, 'w) traffic_state option" where
  "traffic env opts order [] ts = Some ts"
| "traffic env opts order (e # es) ts = Option.bind (traffic_turn env opts order e ts) (traffic env opts order es)"

text \<open>The seeds of \<^verbatim>\<open>runChaos\<close>: every worker has its own, and so has the injector.\<close>

definition start_traffic :: "('s, 'w) chaos_env \<Rightarrow> chaos_options \<Rightarrow> 'w \<Rightarrow> ('s, 'w) traffic_state" where
  "start_traffic env opts w =
     \<lparr>ts_rngs = (\<lambda>i. rg_Seed (xe_rng env) (wrap64 (cx_seed opts + int i * 7919))),
      ts_chaos = \<lparr>ch_world = w, ch_led = newLedger, ch_cnt = zero_counters\<rparr>,
      ts_inj = \<lparr>ij_rng = rg_Seed (xe_rng env) (xor (cx_seed opts) 0x5eed), ij_pending = None, ij_events = []\<rparr>\<rparr>"

section \<open>The report\<close>

record report_config =
  cf_Nodes :: "string list"
  cf_DurationS :: f64
  cf_Workers :: int
  cf_ReadRatio :: f64
  cf_ObjectMin :: int
  cf_ObjectMax :: int
  cf_FaultEveryS :: f64
  cf_FaultDownS :: f64
  cf_Seed :: int
  cf_FaultsEnabled :: bool

record report_traffic =
  rt_Writes :: int
  rt_WritesOK :: int
  rt_WritesRefused :: int
  rt_WriteErrors :: int
  rt_Reads :: int
  rt_ReadHits :: int
  rt_ReadMisses :: int
  rt_ReadErrors :: int
  rt_BytesWritten :: int
  rt_BytesRead :: int
  rt_OpsPerSecond :: f64
  rt_ErrorRate :: f64
  rt_ConnRefused :: int
  rt_Timeouts :: int
  rt_ServerErrors :: int

record report_convergence =
  cv_Attempted :: bool
  cv_ObjectsChecked :: nat
  cv_FromRefusedWrites :: nat
  cv_FromAckedWrites :: nat
  cv_AtStartReplicated :: nat
  cv_FullyReplicated :: nat
  cv_UnderReplicated :: nat
  cv_Absent :: nat
  cv_Unreadable :: nat
  cv_ConvergedSeconds :: f64
  cv_Converged :: bool
  cv_WaitedSeconds :: f64

record report_final =
  fv_ObjectsChecked :: nat
  fv_Correct :: nat
  fv_Corrupted :: nat
  fv_Missing :: nat
  fv_Unreadable :: nat

record report_eviction =
  el_Observed :: bool
  el_ObjectsEvicted :: int
  el_BytesReclaimed :: int
  el_AnyNodeOverHighWater :: bool

record report =
  rp_Kind :: string
  rp_GeneratedAt :: time
  rp_Config :: report_config
  rp_Traffic :: report_traffic
  rp_ReadsVerified :: int
  rp_CorruptedReads :: int
  rp_Faults :: "faultEvent list"
  rp_Convergence :: report_convergence
  rp_Final :: report_final
  rp_NodeStats :: "(string, json_object) gomap"
  rp_Eviction :: report_eviction
  rp_Verdict :: string

definition buildReport :: "chaos_options \<Rightarrow> counters \<Rightarrow> faultEvent list \<Rightarrow> time \<Rightarrow> time \<Rightarrow> report" where
  "buildReport opts c faults elapsed now =
     (let ops = k_Writes c + k_Reads c in
      \<lparr>rp_Kind = ''chaos'', rp_GeneratedAt = now,
       rp_Config = \<lparr>cf_Nodes = cx_nodes opts, cf_DurationS = Seconds elapsed, cf_Workers = cx_workers opts,
         cf_ReadRatio = cx_readRatio opts, cf_ObjectMin = cx_objectMin opts, cf_ObjectMax = cx_objectMax opts,
         cf_FaultEveryS = Seconds (cx_faultEvery opts), cf_FaultDownS = Seconds (cx_faultDown opts),
         cf_Seed = cx_seed opts, cf_FaultsEnabled = (\<not> cx_noFaults opts)\<rparr>,
       rp_Traffic = \<lparr>rt_Writes = k_Writes c, rt_WritesOK = k_WriteOK c, rt_WritesRefused = k_WriteRefused c,
         rt_WriteErrors = k_WriteError c, rt_Reads = k_Reads c, rt_ReadHits = k_ReadHits c, rt_ReadMisses = k_ReadMisses c,
         rt_ReadErrors = k_ReadErrors c, rt_BytesWritten = k_BytesWritten c, rt_BytesRead = k_BytesRead c,
         rt_OpsPerSecond = (if elapsed > 0 then f64_div (f64_of_int ops) (Seconds elapsed) else Fin 0),
         rt_ErrorRate = (if ops > 0 then f64_div (f64_of_int (k_WriteError c + k_ReadErrors c)) (f64_of_int ops) else Fin 0),
         rt_ConnRefused = k_ConnRefused c, rt_Timeouts = k_Timeouts c, rt_ServerErrors = k_ServerErrors c\<rparr>,
       rp_ReadsVerified = 0, rp_CorruptedReads = 0, rp_Faults = faults,
       rp_Convergence = \<lparr>cv_Attempted = False, cv_ObjectsChecked = 0, cv_FromRefusedWrites = 0, cv_FromAckedWrites = 0,
         cv_AtStartReplicated = 0, cv_FullyReplicated = 0, cv_UnderReplicated = 0, cv_Absent = 0, cv_Unreadable = 0,
         cv_ConvergedSeconds = Fin 0, cv_Converged = False, cv_WaitedSeconds = Fin 0\<rparr>,
       rp_Final = \<lparr>fv_ObjectsChecked = 0, fv_Correct = 0, fv_Corrupted = 0, fv_Missing = 0, fv_Unreadable = 0\<rparr>,
       rp_NodeStats = [],
       rp_Eviction = \<lparr>el_Observed = False, el_ObjectsEvicted = 0, el_BytesReclaimed = 0, el_AnyNodeOverHighWater = False\<rparr>,
       rp_Verdict = ''''\<rparr>)"

text \<open>The format \<^verbatim>\<open>%.0f\<close>.\<close>

fun show_f0 :: "f64 \<Rightarrow> string" where
  "show_f0 FNaN = ''NaN''"
| "show_f0 (FInf b) = (if b then ''+Inf'' else ''-Inf'')"
| "show_f0 (Fin q) = (if q < 0 then CHR ''-'' # show_int (rne (- q)) else show_int (rne q))"

definition verdict :: "report \<Rightarrow> string" where
  "verdict rep =
     (if rp_CorruptedReads rep > 0 \<or> fv_Corrupted (rp_Final rep) > 0 then ''FAIL: corrupted data was served''
      else if fv_Missing (rp_Final rep) > 0 \<and> \<not> el_Observed (rp_Eviction rep)
      then ''FAIL: '' @ show_nat (fv_Missing (rp_Final rep)) @ '' acknowledged objects are gone and no eviction was observed''
      else if cv_Attempted (rp_Convergence rep) \<and> \<not> cv_Converged (rp_Convergence rep)
      then ''FAIL: '' @ show_nat (cv_UnderReplicated (rp_Convergence rep)) @ '' objects were still under-replicated after ''
           @ show_f0 (cv_WaitedSeconds (rp_Convergence rep)) @ ''s''
      else if cf_FaultsEnabled (rp_Config rep) \<and> rt_ErrorRate (rp_Traffic rep) = Fin 0 \<and> rp_Faults rep \<noteq> []
      then ''INCONCLUSIVE: faults were injected but no client error was observed; the faults may not have landed''
      else ''PASS'')"

section \<open>Judging the cluster\<close>

fun waitAllReady ::
  "('s, 'w) chaos_env \<Rightarrow> time \<Rightarrow> string \<Rightarrow> target list \<Rightarrow> (time \<times> go_error option) list \<Rightarrow> 'w \<Rightarrow> (go_error option \<times> 'w) option" where
  "waitAllReady env deadline dur [] clock w = Some (None, w)"
| "waitAllReady env deadline dur (n # ns) clock w =
     (case poll_ready (xe_bad env) (xe_do env) deadline (tg_URL n) clock w of
        None \<Rightarrow> None
      | Some (Inl e, clock', w') \<Rightarrow> Some (Some e, w')
      | Some (Inr False, clock', w') \<Rightarrow>
          Some (Some (NewError (''node '' @ tg_Name n @ '' at '' @ tg_URL n @ '' did not become ready within '' @ dur)), w')
      | Some (Inr True, clock', w') \<Rightarrow> waitAllReady env deadline dur ns clock' w')"

text \<open>The loop \<^verbatim>\<open>for i := 0; i < len(keys) && len(out) < n; i += step\<close>.\<close>

fun stride :: "nat \<Rightarrow> nat \<Rightarrow> nat \<Rightarrow> 'a list \<Rightarrow> 'a list" where
  "stride step i 0 xs = []"
| "stride step i (Suc n) xs = (if i < length xs then xs ! i # stride step (i + step) n xs else [])"

definition subsample :: "'a list \<Rightarrow> int \<Rightarrow> 'a list" where
  "subsample keys n =
     (if n \<le> 0 \<or> keys = [] then []
      else if int (length keys) \<le> n then keys
      else stride (length keys div nat n) 0 (nat n) keys)"

text \<open>The question to one node: whether it holds the object on its own disk.\<close>

definition replica_request :: "(string \<Rightarrow> go_error option) \<Rightarrow> string \<Rightarrow> key \<Rightarrow> http_req result" where
  "replica_request bad url key =
     map_sum id (\<lambda>req. req\<lparr>rq_headers := mput HeaderHop (hop_string HopRead) (mput HeaderForwardedBy ''kilnchaos'' (rq_headers req))\<rparr>)
       (NewRequest bad ''HEAD'' url (cas_path key) [])"

fun ask_nodes :: "('s, 'w) chaos_env \<Rightarrow> key \<Rightarrow> target list \<Rightarrow> nat \<Rightarrow> nat \<Rightarrow> 'w \<Rightarrow> nat \<times> nat \<times> 'w" where
  "ask_nodes env key [] copies errs w = (copies, errs, w)"
| "ask_nodes env key (n # ns) copies errs w =
     (case replica_request (xe_bad env) (tg_URL n) key of
        Inl e \<Rightarrow> ask_nodes env key ns copies (errs + 1) w
      | Inr req \<Rightarrow>
        (case xe_do env req w of
           (Inl e, w') \<Rightarrow> ask_nodes env key ns copies (errs + 1) w'
         | (Inr resp, w') \<Rightarrow> ask_nodes env key ns (if rs_status resp = 200 then copies + 1 else copies) errs w'))"

record replica_count =
  rc_full :: nat
  rc_under :: nat
  rc_absent :: nat
  rc_unreadable :: nat

definition tally :: "nat \<Rightarrow> nat \<Rightarrow> nat \<Rightarrow> replica_count \<Rightarrow> replica_count" where
  "tally nodes copies errs a =
     (if errs = nodes then a\<lparr>rc_unreadable := rc_unreadable a + 1\<rparr>
      else if copies \<ge> 2 then a\<lparr>rc_full := rc_full a + 1\<rparr>
      else if copies = 0 then a\<lparr>rc_absent := rc_absent a + 1\<rparr>
      else a\<lparr>rc_under := rc_under a + 1\<rparr>)"

text \<open>\<open>dn i\<close> says that the context is done when the loop comes to key \<open>i\<close>.\<close>

fun count_keys ::
  "('s, 'w) chaos_env \<Rightarrow> target list \<Rightarrow> (nat \<Rightarrow> bool) \<Rightarrow> nat \<Rightarrow> key list \<Rightarrow> replica_count \<Rightarrow> 'w \<Rightarrow> replica_count \<times> 'w" where
  "count_keys env order dn i [] a w = (a, w)"
| "count_keys env order dn i (key # keys) a w =
     (if dn i then (a, w)
      else case ask_nodes env key order 0 0 w of
        (copies, errs, w') \<Rightarrow> count_keys env order dn (i + 1) keys (tally (length order) copies errs a) w')"

definition countReplicas ::
  "('s, 'w) chaos_env \<Rightarrow> target list \<Rightarrow> (nat \<Rightarrow> bool) \<Rightarrow> key list \<Rightarrow> 'w \<Rightarrow> replica_count \<times> 'w" where
  "countReplicas env order dn keys w =
     count_keys env order dn 0 keys \<lparr>rc_full = 0, rc_under = 0, rc_absent = 0, rc_unreadable = 0\<rparr> w"

text \<open>
  The loop of \<^verbatim>\<open>measureConvergence\<close>. A round is the three readings of the clock, as the time since the
  start, and the state of the context; \<open>None\<close> means that the loop goes on after the last round.
\<close>

type_synonym round = "time \<times> time \<times> time \<times> (nat \<Rightarrow> bool)"

fun converge_loop ::
  "('s, 'w) chaos_env \<Rightarrow> chaos_options \<Rightarrow> target list \<Rightarrow> key list \<Rightarrow> bool \<Rightarrow> round list \<Rightarrow> report_convergence \<Rightarrow> 'w \<Rightarrow>
     (report_convergence \<times> 'w) option" where
  "converge_loop env opts order sample first [] cv w = None"
| "converge_loop env opts order sample first ((t1, t2, t3, dn) # rounds) cv w =
     (case countReplicas env order dn sample w of
        (a, w') \<Rightarrow>
          let cv1 = cv\<lparr>cv_AtStartReplicated := (if first then rc_full a else cv_AtStartReplicated cv),
                       cv_FullyReplicated := rc_full a, cv_UnderReplicated := rc_under a, cv_Absent := rc_absent a,
                       cv_Unreadable := rc_unreadable a, cv_WaitedSeconds := Seconds t1\<rparr> in
          if rc_under a = 0 \<and> rc_unreadable a = 0
          then Some (cv1\<lparr>cv_Converged := True, cv_ConvergedSeconds := Seconds t2\<rparr>, w')
          else if t3 > cx_convergeWait opts \<or> dn (length sample) then Some (cv1, w')
          else converge_loop env opts order sample False rounds cv1 w')"

text \<open>The sample: objects of refused writes first, up to two thirds, and acknowledged ones for the rest.\<close>

definition convergence_sample :: "ledger \<Rightarrow> key list \<times> key list" where
  "convergence_sample l =
     (let refused = subsample (sort (refusedKeys l)) (3000 * 2 div 3);
          ackd = subsample (sort (l_keys l)) (3000 - int (length refused))
      in (refused, ackd))"

definition measureConvergence ::
  "('s, 'w) chaos_env \<Rightarrow> chaos_options \<Rightarrow> target list \<Rightarrow> round list \<Rightarrow> ledger \<Rightarrow> report \<Rightarrow> 'w \<Rightarrow> (report \<times> 'w) option" where
  "measureConvergence env opts order rounds l rep w =
     (if l_keys l = [] \<and> refusedKeys l = [] then Some (rep, w)
      else case convergence_sample l of
        (refused, ackd) \<Rightarrow>
          let sample = refused @ ackd;
              cv = (rp_Convergence rep)\<lparr>cv_FromRefusedWrites := length refused, cv_FromAckedWrites := length ackd,
                     cv_Attempted := True, cv_ObjectsChecked := length sample\<rparr> in
          map_option (\<lambda>(cv', w'). (rep\<lparr>rp_Convergence := cv'\<rparr>, w')) (converge_loop env opts order sample True rounds cv w))"

definition asInt64 :: "(f64 \<Rightarrow> int) \<Rightarrow> json option \<Rightarrow> int" where
  "asInt64 ovf v = (case v of Some (JNum f) \<Rightarrow> f64_to_int64 ovf f | _ \<Rightarrow> 0)"

text \<open>What one statistics page adds to the eviction totals.\<close>

definition add_stats :: "(f64 \<Rightarrow> int) \<Rightarrow> json_object \<Rightarrow> report_eviction \<Rightarrow> report_eviction" where
  "add_stats ovf page el =
     (let el1 = (case json_section page ''eviction'' of
                   None \<Rightarrow> el
                 | Some ev \<Rightarrow> el\<lparr>el_ObjectsEvicted := wrap64 (el_ObjectsEvicted el + asInt64 ovf (mget ev ''evicted'')),
                                el_BytesReclaimed := wrap64 (el_BytesReclaimed el + asInt64 ovf (mget ev ''bytes_reclaimed''))\<rparr>)
      in case json_section page ''usage'' of
           None \<Rightarrow> el1
         | Some u \<Rightarrow> if mget u ''over_high_water'' = Some (JBool True) then el1\<lparr>el_AnyNodeOverHighWater := True\<rparr> else el1)"

fun collect_stats ::
  "('s, 'w) chaos_env \<Rightarrow> target list \<Rightarrow> (string, json_object) gomap \<Rightarrow> report_eviction \<Rightarrow> 'w \<Rightarrow>
     (string, json_object) gomap \<times> report_eviction \<times> 'w" where
  "collect_stats env [] stats el w = (stats, el, w)"
| "collect_stats env (n # ns) stats el w =
     (case NewRequest (xe_bad env) ''GET'' (tg_URL n) ''/stats'' [] of
        Inl e \<Rightarrow> collect_stats env ns stats el w
      | Inr req \<Rightarrow>
        (case xe_do env req w of
           (Inl e, w') \<Rightarrow> collect_stats env ns stats el w'
         | (Inr resp, w') \<Rightarrow>
           (case xe_decode env (take (2 ^ 20) (fst (rs_body resp)),
                                if length (fst (rs_body resp)) \<ge> 2 ^ 20 then None else snd (rs_body resp)) of
              Inl e \<Rightarrow> collect_stats env ns stats el w'
            | Inr page \<Rightarrow> collect_stats env ns (mput (tg_Name n) page stats) (add_stats (xe_ovf env) page el) w')))"

definition collectNodeStats :: "('s, 'w) chaos_env \<Rightarrow> target list \<Rightarrow> report \<Rightarrow> 'w \<Rightarrow> report \<times> 'w" where
  "collectNodeStats env order rep w =
     (case collect_stats env order [] (rp_Eviction rep) w of
        (stats, el, w') \<Rightarrow>
          (rep\<lparr>rp_NodeStats := stats, rp_Eviction := el\<lparr>el_Observed := (el_ObjectsEvicted el > 0)\<rparr>\<rparr>, w'))"

text \<open>The loop \<^verbatim>\<open>for i := 0; i < len(sample); i += step\<close>, which has no other bound.\<close>

function pick_from :: "nat \<Rightarrow> nat \<Rightarrow> 'a list \<Rightarrow> 'a list" where
  "pick_from step i xs = (if i < length xs \<and> 0 < step then xs ! i # pick_from step (i + step) xs else [])"
  by pat_completeness auto

termination
  by (relation "measure (\<lambda>(step, i, xs). length xs - i)") auto

declare pick_from.simps [simp del]

definition final_sample :: "'a list \<Rightarrow> 'a list" where
  "final_sample keys = (if length keys > 5000 then pick_from (length keys div 5000) 0 keys else keys)"

definition verify_outcome :: "(bytes \<Rightarrow> bytes) \<Rightarrow> key \<Rightarrow> http_resp result \<Rightarrow> report_final \<times> counters \<Rightarrow> report_final \<times> counters" where
  "verify_outcome sha key r s =
     (case s of (fv, c) \<Rightarrow>
        (case r of
           Inl e \<Rightarrow> (fv\<lparr>fv_Unreadable := fv_Unreadable fv + 1\<rparr>, c)
         | Inr resp \<Rightarrow>
             if rs_status resp = 404 then (fv\<lparr>fv_Missing := fv_Missing fv + 1\<rparr>, c)
             else if rs_status resp \<noteq> 200 then (fv\<lparr>fv_Unreadable := fv_Unreadable fv + 1\<rparr>, c)
             else case rs_body resp of
               (b, Some e) \<Rightarrow> (fv\<lparr>fv_Unreadable := fv_Unreadable fv + 1\<rparr>, c)
             | (b, None) \<Rightarrow>
                 if hex_encode (sha b) = key
                 then (fv\<lparr>fv_Correct := fv_Correct fv + 1\<rparr>, c\<lparr>k_ReadsVerified := k_ReadsVerified c + 1\<rparr>)
                 else (fv\<lparr>fv_Corrupted := fv_Corrupted fv + 1\<rparr>,
                       c\<lparr>k_ReadsVerified := k_ReadsVerified c + 1, k_CorruptedReads := k_CorruptedReads c + 1\<rparr>)))"

fun verify_keys ::
  "('s, 'w) chaos_env \<Rightarrow> target list \<Rightarrow> (nat \<Rightarrow> bool) \<Rightarrow> nat \<Rightarrow> key list \<Rightarrow> report_final \<times> counters \<Rightarrow> 'w \<Rightarrow>
     (report_final \<times> counters) \<times> 'w" where
  "verify_keys env order dn i [] s w = (s, w)"
| "verify_keys env order dn i (key # keys) s w =
     (if dn i then (s, w)
      else case NewRequest (xe_bad env) ''GET'' (tg_URL (order ! (i mod length order))) (cas_path key) [] of
        Inl e \<Rightarrow> verify_keys env order dn (i + 1) keys (verify_outcome (xe_sha env) key (Inl e) s) w
      | Inr req \<Rightarrow>
        (case xe_do env req w of
           (r, w') \<Rightarrow> verify_keys env order dn (i + 1) keys (verify_outcome (xe_sha env) key r s) w'))"

definition finalVerify ::
  "('s, 'w) chaos_env \<Rightarrow> target list \<Rightarrow> (nat \<Rightarrow> bool) \<Rightarrow> ledger \<Rightarrow> counters \<Rightarrow> report \<Rightarrow> 'w \<Rightarrow> (report \<times> counters) \<times> 'w" where
  "finalVerify env order dn l c rep w =
     (let sample = final_sample (l_keys l) in
      case verify_keys env order dn 0 sample ((rp_Final rep)\<lparr>fv_ObjectsChecked := length sample\<rparr>, c) w of
        ((fv, c'), w') \<Rightarrow> ((rep\<lparr>rp_Final := fv\<rparr>, c'), w'))"

section \<open>The whole run\<close>

text \<open>What the clock and the schedule give a run: the readings while it waits for the nodes before and after
  the traffic, the events of the traffic, its duration and the time of the report, the rounds of
  the convergence measurement, and the error of writing the report.\<close>

record 'w chaos_inputs =
  ci_before :: "(time \<times> go_error option) list"
  ci_start :: time
  ci_events :: "'w traffic_event list"
  ci_elapsed :: time
  ci_now :: time
  ci_after :: "(time \<times> go_error option) list"
  ci_restored :: time
  ci_rounds :: "round list"
  ci_write :: "go_error option"

text \<open>The steps after the traffic. Their context is never done; errors of the restoration and of the wait are
  only printed.\<close>

definition judge ::
  "('s, 'w) chaos_env \<Rightarrow> chaos_options \<Rightarrow> target list \<Rightarrow> 'w chaos_inputs \<Rightarrow> ledger \<Rightarrow> counters \<Rightarrow> report \<Rightarrow> 'w \<Rightarrow>
     (report \<times> 'w) option" where
  "judge env opts order inp l c rep w =
     (case restoreAll env opts order w of (e1, w1) \<Rightarrow>
      Option.bind (waitAllReady env (ci_restored inp + 120 * second) ''2m0s'' order (ci_after inp) w1) (\<lambda>(e2, w2).
        case collectNodeStats env order rep w2 of (rep1, w3) \<Rightarrow>
        Option.bind (measureConvergence env opts order (ci_rounds inp) l rep1 w3) (\<lambda>(rep2, w4).
          case finalVerify env order (\<lambda>i. False) l c rep2 w4 of ((rep3, c'), w5) \<Rightarrow>
          let rep4 = rep3\<lparr>rp_ReadsVerified := k_ReadsVerified c', rp_CorruptedReads := k_CorruptedReads c'\<rparr> in
          Some (rep4\<lparr>rp_Verdict := verdict rep4\<rparr>, w5))))"

definition runChaos ::
  "('s, 'w) chaos_env \<Rightarrow> chaos_options \<Rightarrow> target list \<Rightarrow> 'w chaos_inputs \<Rightarrow> 'w \<Rightarrow> (report option \<times> go_error option \<times> 'w) option" where
  "runChaos env opts order inp w =
     Option.bind (waitAllReady env (ci_start inp + 60 * second) ''1m0s'' order (ci_before inp) w) (\<lambda>(e, w0).
       if e \<noteq> None then Some (None, e, w0)
       else Option.bind (traffic env opts order (ci_events inp) (start_traffic env opts w0)) (\<lambda>ts.
         if ij_pending (ts_inj ts) \<noteq> None then None
         else let x = ts_chaos ts; rep = buildReport opts (ch_cnt x) (ij_events (ts_inj ts)) (ci_elapsed inp) (ci_now inp) in
           Option.bind (judge env opts order inp (ch_led x) (ch_cnt x) rep (ch_world x)) (\<lambda>(rep', w').
             case ci_write inp of
               Some we \<Rightarrow> Some (Some rep', Some we, w')
             | None \<Rightarrow>
                 Some (Some rep',
                   (if rp_CorruptedReads rep' > 0 \<or> fv_Corrupted (rp_Final rep') > 0
                    then Some (NewError (''chaos run found '' @ show_int (rp_CorruptedReads rep') @ '' corrupted reads during traffic and ''
                           @ show_nat (fv_Corrupted (rp_Final rep')) @ '' corrupted objects at the end''))
                    else None), w'))))"

end
