(* ===== verification/ChaosTheorems.thy ===== *)
theory ChaosTheorems
  imports ChaosRun
begin

text \<open>
  What a chaos run's report is worth: its books balance, it raises no false alarm against a cluster that
  keeps the invariants of \<open>ClusterTheorems\<close>, it counts the copies that are there, and its samples have
  the sizes it claims. The locale \<open>honest_cache\<close> is what the checks rely on; it is interpreted on the
  network of \<open>ClusterSys\<close>.
\<close>

section \<open>Lemmas: bookkeeping\<close>

definition counters_ok :: "counters \<Rightarrow> bool" where
  "counters_ok c \<longleftrightarrow>
     k_Writes c = k_WriteOK c + k_WriteRefused c + k_WriteError c \<and>
     k_Reads c = k_ReadHits c + k_ReadMisses c + k_ReadErrors c \<and>
     k_ReadsVerified c = k_ReadHits c \<and> k_CorruptedReads c \<le> k_ReadsVerified c \<and>
     k_ConnRefused c + k_Timeouts c + k_ServerErrors c \<le> k_WriteError c + k_ReadErrors c \<and>
     0 \<le> k_WriteOK c \<and> 0 \<le> k_WriteRefused c \<and> 0 \<le> k_WriteError c \<and> 0 \<le> k_ReadHits c \<and> 0 \<le> k_ReadMisses c \<and>
     0 \<le> k_ReadErrors c \<and> 0 \<le> k_CorruptedReads c"

definition ledger_ok :: "ledger \<Rightarrow> bool" where
  "ledger_ok l \<longleftrightarrow> distinct (l_keys l) \<and> mkeys (l_want l) = l_keys l \<and> mkeys (l_size l) = l_keys l \<and>
     distinct (l_refused l) \<and> mkeys (l_refusedSet l) = l_refused l"

text \<open>Every key of the ledger is the digest of bytes that were uploaded, and has their size.\<close>

definition ledger_true :: "(bytes \<Rightarrow> bytes) \<Rightarrow> ledger \<Rightarrow> bool" where
  "ledger_true sha l \<longleftrightarrow> (\<forall>k \<in> set (l_keys l). \<exists>b. hex_encode (sha b) = k \<and> mget (l_size l) k = Some (int (length b)))"

lemma mkeys_mput_new: "k \<notin> set (mkeys m) \<Longrightarrow> mkeys (mput k v m) = mkeys m @ [k]"
  by (induction k v m rule: mput.induct) auto

lemma led_add_ok:
  assumes "ledger_ok l"
  shows "ledger_ok (led_add key sz l)" "length (l_keys (led_add key sz l)) \<le> Suc (length (l_keys l))"
    "l_refused (led_add key sz l) = l_refused l"
  using assms by (auto simp: led_add_def ledger_ok_def mkeys_mput_new mget_None_iff)

lemma led_addRefused_ok:
  assumes "ledger_ok l"
  shows "ledger_ok (led_addRefused key l)" "length (l_refused (led_addRefused key l)) \<le> Suc (length (l_refused l))"
    "l_keys (led_addRefused key l) = l_keys l" "l_size (led_addRefused key l) = l_size l"
  using assms by (auto simp: led_addRefused_def ledger_ok_def mkeys_mput_new mget_None_iff)

lemma led_add_true:
  assumes "ledger_true sha l" "ledger_ok l"
  shows "ledger_true sha (led_add (hex_encode (sha b)) (int (length b)) l)"
  using assms by (auto simp: ledger_true_def led_add_def mget_mput)

lemma led_random_mem:
  assumes "led_random g l s = (Some (key, sz), s')" "rng_ok g" "ledger_ok l"
  shows "key \<in> set (l_keys l)" "mget (l_size l) key = Some sz"
proof -
  have ne: "l_keys l \<noteq> []" using assms(1) by (auto simp: led_random_def split: if_splits)
  then have "key = l_keys l ! fst (rg_Intn g (length (l_keys l)) s)"
    using assms(1) by (auto simp: led_random_def Let_def split: prod.splits)
  moreover have "fst (rg_Intn g (length (l_keys l)) s) < length (l_keys l)" using assms(2) ne by (simp add: rng_ok_def)
  ultimately show k: "key \<in> set (l_keys l)" by simp
  then have "key \<in> set (mkeys (l_size l))" using assms(3) by (simp add: ledger_ok_def)
  then show "mget (l_size l) key = Some sz"
    using assms(1) mget_None_iff [of "l_size l" key]
    by (auto simp: led_random_def Let_def split: if_splits prod.splits option.splits)
qed

lemma classify_cases:
  obtains "classify e c = c" | "classify e c = c\<lparr>k_ConnRefused := k_ConnRefused c + 1\<rparr>"
  | "classify e c = c\<lparr>k_Timeouts := k_Timeouts c + 1\<rparr>"
proof -
  have "classify e c = c \<or> classify e c = c\<lparr>k_ConnRefused := k_ConnRefused c + 1\<rparr> \<or> classify e c = c\<lparr>k_Timeouts := k_Timeouts c + 1\<rparr>"
    by (simp add: classify_def Let_def)
  then show ?thesis using that by blast
qed

text \<open>The books of a run: counters and ledger are consistent, and no key was recorded without an answer.\<close>

definition books_ok :: "(bytes \<Rightarrow> bytes) \<Rightarrow> 'w chaos \<Rightarrow> bool" where
  "books_ok sha x \<longleftrightarrow> counters_ok (ch_cnt x) \<and> ledger_ok (ch_led x) \<and> ledger_true sha (ch_led x) \<and>
     int (length (l_keys (ch_led x))) \<le> k_WriteOK (ch_cnt x) \<and> int (length (l_refused (ch_led x))) \<le> k_WriteRefused (ch_cnt x)"

lemma write_outcome_books:
  assumes "write_outcome r (hex_encode (sha b)) (int (length b)) l (c\<lparr>k_Writes := k_Writes c + 1\<rparr>) = (l', c')"
    "books_ok sha \<lparr>ch_world = w, ch_led = l, ch_cnt = c\<rparr>"
  shows "books_ok sha \<lparr>ch_world = w', ch_led = l', ch_cnt = c'\<rparr>" "k_CorruptedReads c' = k_CorruptedReads c"
proof -
  have ok: "counters_ok c" "ledger_ok l" "ledger_true sha l" "int (length (l_keys l)) \<le> k_WriteOK c"
    "int (length (l_refused l)) \<le> k_WriteRefused c"
    using assms(2) by (simp_all add: books_ok_def)
  note a = led_add_ok [OF ok(2), of "hex_encode (sha b)" "int (length b)"] led_add_true [OF ok(3,2), of b]
    led_addRefused_ok [OF ok(2), of "hex_encode (sha b)"]
  have t: "ledger_true sha (led_addRefused (hex_encode (sha b)) l)" using ok(3) a by (simp add: ledger_true_def)
  show "books_ok sha \<lparr>ch_world = w', ch_led = l', ch_cnt = c'\<rparr>" "k_CorruptedReads c' = k_CorruptedReads c"
  proof (atomize (full), cases r)
    case (Inl e)
    then show "books_ok sha \<lparr>ch_world = w', ch_led = l', ch_cnt = c'\<rparr> \<and> k_CorruptedReads c' = k_CorruptedReads c"
      using assms(1) ok by (cases rule: classify_cases [of e "c\<lparr>k_Writes := k_Writes c + 1\<rparr>"])
        (auto simp: write_outcome_def books_ok_def counters_ok_def)
  next
    case (Inr resp)
    then show "books_ok sha \<lparr>ch_world = w', ch_led = l', ch_cnt = c'\<rparr> \<and> k_CorruptedReads c' = k_CorruptedReads c"
      using assms(1) ok a t by (auto simp: write_outcome_def books_ok_def counters_ok_def split: if_splits)
  qed
qed

lemma read_outcome_books:
  assumes "counters_ok c"
  shows "counters_ok (read_outcome sha r key sz (c\<lparr>k_Reads := k_Reads c + 1\<rparr>))"
    "k_WriteOK (read_outcome sha r key sz (c\<lparr>k_Reads := k_Reads c + 1\<rparr>)) = k_WriteOK c"
    "k_WriteRefused (read_outcome sha r key sz (c\<lparr>k_Reads := k_Reads c + 1\<rparr>)) = k_WriteRefused c"
proof (atomize (full), cases r)
  case (Inl e)
  then show "counters_ok (read_outcome sha r key sz (c\<lparr>k_Reads := k_Reads c + 1\<rparr>)) \<and>
      k_WriteOK (read_outcome sha r key sz (c\<lparr>k_Reads := k_Reads c + 1\<rparr>)) = k_WriteOK c \<and>
      k_WriteRefused (read_outcome sha r key sz (c\<lparr>k_Reads := k_Reads c + 1\<rparr>)) = k_WriteRefused c"
    using assms by (cases rule: classify_cases [of e "c\<lparr>k_Reads := k_Reads c + 1\<rparr>"]) (auto simp: read_outcome_def counters_ok_def)
next
  case (Inr resp)
  then show "counters_ok (read_outcome sha r key sz (c\<lparr>k_Reads := k_Reads c + 1\<rparr>)) \<and>
      k_WriteOK (read_outcome sha r key sz (c\<lparr>k_Reads := k_Reads c + 1\<rparr>)) = k_WriteOK c \<and>
      k_WriteRefused (read_outcome sha r key sz (c\<lparr>k_Reads := k_Reads c + 1\<rparr>)) = k_WriteRefused c"
    using assms by (auto simp: read_outcome_def counters_ok_def split: prod.splits option.splits)
qed

section \<open>Lemmas: turns\<close>

lemma doWrite_step:
  assumes "doWrite env opts order s x = Some (s', x')"
  obtains "x' = x"
  | b url req r w' l c where "NewRequest (xe_bad env) ''PUT'' url (cas_path (hex_encode (xe_sha env b))) b = Inr req"
      "xe_do env req (ch_world x) = (r, w')"
      "write_outcome r (hex_encode (xe_sha env b)) (int (length b)) (ch_led x) ((ch_cnt x)\<lparr>k_Writes := k_Writes (ch_cnt x) + 1\<rparr>) = (l, c)"
      "x' = \<lparr>ch_world = w', ch_led = l, ch_cnt = c\<rparr>"
  using assms that by (auto simp: doWrite_def Let_def split: option.splits prod.splits if_splits sum.splits)

lemma doRead_step:
  assumes "doRead env order s x = Some (s', x')"
  obtains "x' = x"
  | key sz s1 url req r w' where "led_random (xe_rng env) (ch_led x) s = (Some (key, sz), s1)"
      "NewRequest (xe_bad env) ''GET'' url (cas_path key) [] = Inr req" "xe_do env req (ch_world x) = (r, w')"
      "x' = x\<lparr>ch_world := w', ch_cnt := read_outcome (xe_sha env) r key sz ((ch_cnt x)\<lparr>k_Reads := k_Reads (ch_cnt x) + 1\<rparr>)\<rparr>"
proof (cases "led_random (xe_rng env) (ch_led x) s")
  case (Pair k s1)
  show ?thesis
  proof (cases k)
    case None
    with Pair assms that(1) show ?thesis by (simp add: doRead_def)
  next
    case (Some ks)
    obtain key sz where ks: "ks = (key, sz)" by fastforce
    obtain i s2 where i: "rg_Intn (xe_rng env) (length order) s1 = (i, s2)" by fastforce
    show ?thesis
    proof (cases "NewRequest (xe_bad env) ''GET'' (tg_URL (order ! i)) (cas_path key) []")
      case (Inl e)
      with Pair Some ks i assms that(1) show ?thesis by (simp add: doRead_def split: if_splits)
    next
      case (Inr req)
      obtain r w' where "xe_do env req (ch_world x) = (r, w')" by fastforce
      with Pair Some ks i Inr assms that(2) [OF _ Inr] show ?thesis by (simp add: doRead_def split: if_splits)
    qed
  qed
qed

lemma worker_turn_books:
  assumes "worker_turn env opts order s x = Some (s', x')" "books_ok (xe_sha env) x"
  shows "books_ok (xe_sha env) x'"
proof -
  have w: "books_ok (xe_sha env) x'" if "doWrite env opts order s1 x = Some (s', x')" for s1
    using that
  proof (cases rule: doWrite_step)
    case (2 b url req r w' l c)
    have "books_ok (xe_sha env) \<lparr>ch_world = ch_world x, ch_led = ch_led x, ch_cnt = ch_cnt x\<rparr>" using assms(2) by (simp add: books_ok_def)
    from write_outcome_books(1) [OF 2(3) this] 2(4) show ?thesis by simp
  qed (use assms(2) in simp)
  have r: "books_ok (xe_sha env) x'" if "doRead env order s1 x = Some (s', x')" for s1
    using that
  proof (cases rule: doRead_step)
    case (2 key sz s2 url req r w')
    with assms(2) read_outcome_books [of "ch_cnt x" "xe_sha env" r key sz] show ?thesis by (simp add: books_ok_def)
  qed (use assms(2) in simp)
  show ?thesis using assms(1) w r by (auto simp: worker_turn_def split: prod.splits if_splits)
qed

text \<open>What every turn of a worker and every change of the cluster keeps holds after the traffic.\<close>

lemma compose_world:
  assumes "compose env opts args w = (e, w')"
  shows "\<exists>args. w' = snd (xe_compose env args w)"
proof -
  have "w' = snd (xe_compose env ([''compose'', ''-p'', cx_composeProject opts, ''-f'', cx_composeFile opts] @ args) w)"
    using assms by (auto simp: compose_def split: prod.splits)
  then show ?thesis by blast
qed

lemma fault_stop_world:
  assumes "fault_stop env opts order now j w = (j', w')"
  shows "w' = w \<or> (\<exists>args. w' = snd (xe_compose env args w))"
  using assms compose_world [of env opts _ w] by (fastforce simp: fault_stop_def Let_def split: if_splits prod.splits option.splits)

lemma fault_start_world:
  assumes "fault_start env opts now j w = (j', w')"
  shows "w' = w \<or> (\<exists>args. w' = snd (xe_compose env args w))"
  using assms compose_world [of env opts _ w] by (fastforce simp: fault_start_def Let_def split: if_splits prod.splits option.splits)

lemma traffic_turn_inv:
  assumes "traffic_turn env opts order e ts = Some ts'" "P (ts_chaos ts)"
    "\<And>s x s' x'. worker_turn env opts order s x = Some (s', x') \<Longrightarrow> P x \<Longrightarrow> P x'"
    "\<And>args x. P x \<Longrightarrow> P (x\<lparr>ch_world := snd (xe_compose env args (ch_world x))\<rparr>)"
    "\<And>f x. e = Change f \<Longrightarrow> P x \<Longrightarrow> P (x\<lparr>ch_world := f (ch_world x)\<rparr>)"
  shows "P (ts_chaos ts')"
proof -
  have inj: "P (ts_chaos (on_injector f ts))" if "\<And>j w j' w'. f j w = (j', w') \<Longrightarrow> w' = w \<or> (\<exists>args. w' = snd (xe_compose env args w))" for f
  proof -
    obtain j w' where f: "f (ts_inj ts) (ch_world (ts_chaos ts)) = (j, w')" by fastforce
    with that [OF f] assms(2) assms(4) [OF assms(2)] show ?thesis by (auto simp: on_injector_def)
  qed
  show ?thesis
  proof (cases e)
    case (Turn i)
    with assms(1-3) show ?thesis by (auto split: if_splits)
  next
    case (StopNode now)
    with assms(1,2) inj [of "fault_stop env opts order now"] fault_stop_world [of env opts order now] show ?thesis by (auto split: if_splits)
  next
    case (StartNode now)
    with assms(1,2) inj [of "fault_start env opts now"] fault_start_world [of env opts now] show ?thesis by (auto split: if_splits)
  next
    case (Change f)
    with assms(1,2,5) show ?thesis by auto
  qed
qed

lemma traffic_append:
  "traffic env opts order (es @ es') ts = Option.bind (traffic env opts order es ts) (traffic env opts order es')"
proof (induction es arbitrary: ts)
  case (Cons e es)
  then show ?case by (cases "traffic_turn env opts order e ts") simp_all
qed simp

lemma traffic_inv:
  assumes "traffic env opts order es ts = Some ts'" "P (ts_chaos ts)"
    "\<And>s x s' x'. worker_turn env opts order s x = Some (s', x') \<Longrightarrow> P x \<Longrightarrow> P x'"
    "\<And>args x. P x \<Longrightarrow> P (x\<lparr>ch_world := snd (xe_compose env args (ch_world x))\<rparr>)"
    "\<And>f x. Change f \<in> set es \<Longrightarrow> P x \<Longrightarrow> P (x\<lparr>ch_world := f (ch_world x)\<rparr>)"
  shows "P (ts_chaos ts')"
  using assms(1,2,5)
proof (induction es arbitrary: ts)
  case (Cons e es)
  then obtain ts1 where t: "traffic_turn env opts order e ts = Some ts1" "traffic env opts order es ts1 = Some ts'"
    by (auto simp: Option.bind_eq_Some_conv)
  have "P (ts_chaos ts1)" by (rule traffic_turn_inv [OF t(1) Cons.prems(2) assms(3,4)]) (use Cons.prems(3) in auto)
  with Cons.IH [OF t(2)] Cons.prems(3) show ?case by simp
qed simp

lemma start_books: "books_ok sha (ts_chaos (start_traffic env opts w))"
  by (simp add: start_traffic_def books_ok_def counters_ok_def zero_counters_def ledger_ok_def ledger_true_def newLedger_def)

lemma traffic_books:
  assumes "traffic env opts order es (start_traffic env opts w) = Some ts"
  shows "books_ok (xe_sha env) (ts_chaos ts)"
  by (rule traffic_inv [where P = "books_ok (xe_sha env)", OF assms start_books worker_turn_books]) (auto simp: books_ok_def)

lemma hex_digit_inj: "a < 16 \<Longrightarrow> b < 16 \<Longrightarrow> hex_digit a = hex_digit b \<Longrightarrow> a = b"
  by (auto simp: hex_digit_def char_of_eq_iff take_bit_eq_mod split: if_splits)

lemma hex_encode_inj: "hex_encode a = hex_encode b \<Longrightarrow> a = b"
proof (induction a arbitrary: b)
  case Nil
  then show ?case by (cases b) auto
next
  case (Cons x a)
  then obtain y b' where b: "b = y # b'" by (cases b) auto
  let ?x = "of_char x :: nat" and ?y = "of_char y :: nat"
  have lt: "?x div 16 < 16" "?y div 16 < 16" "?x mod 16 < 16" "?y mod 16 < 16"
    using nat_of_char_less_256 [of x] nat_of_char_less_256 [of y] by (simp_all only: div_less_iff_less_mult)
  have e: "hex_digit (?x div 16) = hex_digit (?y div 16)" "hex_digit (?x mod 16) = hex_digit (?y mod 16)" "hex_encode a = hex_encode b'"
    using Cons.prems unfolding b hex_encode.simps list.inject by blast+
  have "?x = ?y"
    using hex_digit_inj [OF lt(1,2) e(1)] hex_digit_inj [OF lt(3,4) e(2)] by (metis div_mult_mod_eq)
  then show ?case using b Cons.IH [OF e(3)] by (metis char_of_char)
qed

section \<open>Lemmas: an honest cache\<close>

text \<open>
  What the checks of the driver rely on: in the states \<open>good\<close> a complete answer to a GET of a CAS object is
  stored somewhere and hashes to its key, and every request keeps the state good.
\<close>

locale honest_cache =
  fixes sha :: "bytes \<Rightarrow> bytes"
    and tr :: "'w transport"
    and good :: "'w \<Rightarrow> bool"
    and stored :: "'w \<Rightarrow> key \<Rightarrow> bytes \<Rightarrow> bool"
  assumes keeps: "good w \<Longrightarrow> tr req w = (r, w') \<Longrightarrow> good w'"
    and honest: "good w \<Longrightarrow> NewRequest bad ''GET'' url (cas_path key) [] = Inr req \<Longrightarrow> valid_key key \<Longrightarrow>
      tr req w = (Inr resp, w') \<Longrightarrow> rs_status resp = 200 \<Longrightarrow> rs_body resp = (b, None) \<Longrightarrow> stored w key b \<and> hex_encode (sha b) = key"
begin

text \<open>A read counts as corrupted only if the cache has other bytes with the digest of the uploaded ones.\<close>

lemma read_outcome_honest:
  assumes "good w" "NewRequest bad ''GET'' url (cas_path key) [] = Inr req" "valid_key key" "tr req w = (r, w')"
    "\<not> (\<exists>d. stored w key d \<and> hex_encode (sha d) = key \<and> int (length d) \<noteq> sz)"
  shows "k_CorruptedReads (read_outcome sha r key sz c) = k_CorruptedReads c"
proof (cases r)
  case (Inl e)
  then show ?thesis by (cases rule: classify_cases [of e c]) (auto simp: read_outcome_def)
next
  case (Inr resp)
  then show ?thesis using honest [OF assms(1-3), of resp w'] assms(4,5)
    by (auto simp: read_outcome_def split: prod.splits option.splits)
qed

lemma worker_turn_honest:
  assumes "worker_turn env opts order s x = Some (s', x')" "xe_do env = tr" "xe_sha env = sha" "rng_ok (xe_rng env)"
    "\<And>b. length (sha b) = 32" "good (ch_world x)" "books_ok sha x"
  shows "good (ch_world x')"
    "k_CorruptedReads (ch_cnt x') = k_CorruptedReads (ch_cnt x) \<or>
     (\<exists>b d. hex_encode (sha b) \<in> set (l_keys (ch_led x)) \<and> stored (ch_world x) (hex_encode (sha b)) d \<and> sha d = sha b \<and> length d \<noteq> length b)"
proof -
  let ?goal = "good (ch_world x') \<and> (k_CorruptedReads (ch_cnt x') = k_CorruptedReads (ch_cnt x) \<or>
     (\<exists>b d. hex_encode (sha b) \<in> set (l_keys (ch_led x)) \<and> stored (ch_world x) (hex_encode (sha b)) d \<and> sha d = sha b \<and> length d \<noteq> length b))"
  have w: ?goal if "doWrite env opts order s1 x = Some (s', x')" for s1
    using that
  proof (cases rule: doWrite_step)
    case (2 b url req r w' l c)
    have "books_ok sha \<lparr>ch_world = ch_world x, ch_led = ch_led x, ch_cnt = ch_cnt x\<rparr>" using assms(7) by (simp add: books_ok_def)
    from write_outcome_books(2) [OF 2(3) [unfolded assms(3)] this] 2(2,4) assms(2,6) keeps show ?thesis by auto
  qed (use assms(6) in simp)
  have r: ?goal if "doRead env order s1 x = Some (s', x')" for s1
    using that
  proof (cases rule: doRead_step)
    case (2 key sz s2 url req r w')
    have led: "ledger_ok (ch_led x)" "ledger_true sha (ch_led x)" using assms(7) by (simp_all add: books_ok_def)
    note mem = led_random_mem [OF 2(1) assms(4) led(1)]
    obtain b where b: "hex_encode (sha b) = key" "sz = int (length b)" using led(2) mem by (auto simp: ledger_true_def)
    have k: "valid_key key" using b(1) hex_encode_valid [OF assms(5)] by auto
    have "k_CorruptedReads (ch_cnt x') = k_CorruptedReads (ch_cnt x)"
      if no: "\<not> (\<exists>d. stored (ch_world x) key d \<and> hex_encode (sha d) = key \<and> int (length d) \<noteq> sz)"
      using read_outcome_honest [OF assms(6) 2(2) k _ no] 2(3,4) assms(2,3) by simp
    moreover have "\<exists>b d. hex_encode (sha b) \<in> set (l_keys (ch_led x)) \<and> stored (ch_world x) (hex_encode (sha b)) d \<and> sha d = sha b \<and>
        length d \<noteq> length b" if "stored (ch_world x) key d" "hex_encode (sha d) = key" "int (length d) \<noteq> sz" for d
      using that b mem(1) hex_encode_inj [of "sha d" "sha b"] by (intro exI [of _ b] exI [of _ d]) simp
    moreover have "good (ch_world x')" using keeps [OF assms(6), of req r w'] 2(3,4) assms(2) by simp
    ultimately show ?thesis by blast
  qed (use assms(6) in simp)
  have ?goal using assms(1) w r by (auto simp: worker_turn_def split: prod.splits if_splits)
  then show "good (ch_world x')" "k_CorruptedReads (ch_cnt x') = k_CorruptedReads (ch_cnt x) \<or>
     (\<exists>b d. hex_encode (sha b) \<in> set (l_keys (ch_led x)) \<and> stored (ch_world x) (hex_encode (sha b)) d \<and> sha d = sha b \<and> length d \<noteq> length b)"
    by blast+
qed

text \<open>The traffic: a corrupted read is counted only if at some moment of the run the cache held other bytes
  with the digest of acknowledged ones.\<close>

lemma traffic_honest:
  assumes "traffic env opts order es ts0 = Some ts" "xe_do env = tr" "xe_sha env = sha" "rng_ok (xe_rng env)"
    "\<And>b. length (sha b) = 32" "\<And>args w. good w \<Longrightarrow> good (snd (xe_compose env args w))" "\<And>f w. Change f \<in> set es \<Longrightarrow> good w \<Longrightarrow> good (f w)"
    "good (ch_world (ts_chaos ts0))" "books_ok sha (ts_chaos ts0)" "k_CorruptedReads (ch_cnt (ts_chaos ts0)) = 0"
  shows "good (ch_world (ts_chaos ts)) \<and> books_ok sha (ts_chaos ts) \<and>
    (k_CorruptedReads (ch_cnt (ts_chaos ts)) = 0 \<or>
     (\<exists>k ts' b d. traffic env opts order (take k es) ts0 = Some ts' \<and> hex_encode (sha b) \<in> set (l_keys (ch_led (ts_chaos ts'))) \<and>
        stored (ch_world (ts_chaos ts')) (hex_encode (sha b)) d \<and> sha d = sha b \<and> length d \<noteq> length b))"
  using assms(1,7)
proof (induction es arbitrary: ts rule: rev_induct)
  case Nil
  with assms(8-10) show ?case by simp
next
  case (snoc e es)
  then obtain ts1 where t: "traffic env opts order es ts0 = Some ts1" "traffic_turn env opts order e ts1 = Some ts"
    by (auto simp: traffic_append Option.bind_eq_Some_conv)
  have IH: "good (ch_world (ts_chaos ts1)) \<and> books_ok sha (ts_chaos ts1)"
    "k_CorruptedReads (ch_cnt (ts_chaos ts1)) = 0 \<or>
     (\<exists>k ts' b d. traffic env opts order (take k es) ts0 = Some ts' \<and> hex_encode (sha b) \<in> set (l_keys (ch_led (ts_chaos ts'))) \<and>
        stored (ch_world (ts_chaos ts')) (hex_encode (sha b)) d \<and> sha d = sha b \<and> length d \<noteq> length b)"
    using snoc.IH [OF t(1)] snoc.prems(2) by auto
  let ?E = "\<exists>b d. hex_encode (sha b) \<in> set (l_keys (ch_led (ts_chaos ts1))) \<and> stored (ch_world (ts_chaos ts1)) (hex_encode (sha b)) d \<and>
     sha d = sha b \<and> length d \<noteq> length b"
  have turn: "good (ch_world x') \<and> books_ok sha x'"
    if "worker_turn env opts order s x = Some (s', x')" "good (ch_world x) \<and> books_ok sha x" for s x s' x'
    using worker_turn_honest(1) [OF that(1) assms(2-5)] worker_turn_books [OF that(1)] that(2) assms(3) by simp
  have keep: "good (ch_world (ts_chaos ts)) \<and> books_ok sha (ts_chaos ts)"
  proof (rule traffic_turn_inv [where P = "\<lambda>x. good (ch_world x) \<and> books_ok sha x", OF t(2) IH(1)])
    fix s x s' x' assume "worker_turn env opts order s x = Some (s', x')" "good (ch_world x) \<and> books_ok sha x"
    then show "good (ch_world x') \<and> books_ok sha x'" by (rule turn)
  next
    fix args and x :: "'w chaos" assume "good (ch_world x) \<and> books_ok sha x"
    then show "good (ch_world (x\<lparr>ch_world := snd (xe_compose env args (ch_world x))\<rparr>)) \<and>
        books_ok sha (x\<lparr>ch_world := snd (xe_compose env args (ch_world x))\<rparr>)"
      using assms(6) by (simp add: books_ok_def)
  next
    fix f and x :: "'w chaos" assume "e = Change f" "good (ch_world x) \<and> books_ok sha x"
    then show "good (ch_world (x\<lparr>ch_world := f (ch_world x)\<rparr>)) \<and> books_ok sha (x\<lparr>ch_world := f (ch_world x)\<rparr>)"
      using snoc.prems(2) [of f] by (simp add: books_ok_def)
  qed
  have now: "k_CorruptedReads (ch_cnt (ts_chaos ts)) = k_CorruptedReads (ch_cnt (ts_chaos ts1)) \<or> ?E"
  proof (cases e)
    case (Turn i)
    with t(2) worker_turn_honest(2) [of env opts order "ts_rngs ts1 i" "ts_chaos ts1"] assms(2-5) IH(1) show ?thesis
      by (fastforce split: if_splits)
  qed (use t(2) in \<open>auto simp: on_injector_def split: if_splits prod.splits\<close>)
  have ev: "\<exists>k ts' b d. traffic env opts order (take k (es @ [e])) ts0 = Some ts' \<and> hex_encode (sha b) \<in> set (l_keys (ch_led (ts_chaos ts'))) \<and>
        stored (ch_world (ts_chaos ts')) (hex_encode (sha b)) d \<and> sha d = sha b \<and> length d \<noteq> length b"
    if "traffic env opts order (take k es) ts0 = Some ts'" "hex_encode (sha b) \<in> set (l_keys (ch_led (ts_chaos ts')))"
      "stored (ch_world (ts_chaos ts')) (hex_encode (sha b)) d" "sha d = sha b" "length d \<noteq> length b" for k ts' b d
  proof -
    have "take (min k (length es)) (es @ [e]) = take k es" by (simp add: min_def)
    with that show ?thesis by metis
  qed
  show ?case
  proof (cases "?E \<or> k_CorruptedReads (ch_cnt (ts_chaos ts1)) \<noteq> 0")
    case True
    with IH(2) ev [of "length es" ts1] t(1) keep ev show ?thesis by fastforce
  next
    case False
    with now keep show ?thesis by auto
  qed
qed

text \<open>Everything the driver does after the traffic keeps the state good.\<close>

lemma poll_ready_good:
  "poll_ready bad tr deadline url clock w = Some (r, clock', w') \<Longrightarrow> good w \<Longrightarrow> good w'"
proof (induction clock arbitrary: w)
  case (Cons c clock)
  obtain now ctx where c: "c = (now, ctx)" by fastforce
  have step: "good v" if "tr req w = (a, v)" for req a v using keeps [OF Cons.prems(2) that] .
  show ?case
    using Cons.prems Cons.IH step
    by (auto simp: c split: if_splits option.splits sum.splits prod.splits)
qed simp

lemma waitAllReady_good:
  assumes "waitAllReady env deadline dur ns clock w = Some (e, w')" "xe_do env = tr" "good w"
  shows "good w'"
  using assms(1,3)
proof (induction ns arbitrary: clock w)
  case (Cons n ns)
  obtain r clock1 w1 where p: "poll_ready (xe_bad env) tr deadline (tg_URL n) clock w = Some (r, clock1, w1)"
    using Cons.prems(1) assms(2) by (auto split: option.splits)
  from poll_ready_good [OF p Cons.prems(2)] Cons p assms(2) show ?case by (auto split: sum.splits bool.splits)
qed simp

lemma restoreAll_good:
  assumes "restoreAll env opts order w = (e, w')" "\<And>args w. good w \<Longrightarrow> good (snd (xe_compose env args w))" "good w"
  shows "good w'"
proof -
  have "restore_nodes env opts ns e0 v = (e1, v') \<Longrightarrow> good v \<Longrightarrow> good v'" for ns e0 e1 v v'
  proof (induction ns arbitrary: e0 v)
    case (Cons n ns)
    obtain t v1 where c: "compose env opts [''start'', tg_Name n] v = (t, v1)" by fastforce
    from compose_world [OF c] assms(2) Cons.prems(2) have "good v1" by auto
    with Cons c show ?case by simp
  qed simp
  with assms(1,3) show ?thesis by (auto simp: restoreAll_def split: if_splits)
qed

lemma collect_stats_good:
  assumes "collect_stats env ns stats el w = (stats', el', w')" "xe_do env = tr" "good w"
  shows "good w'"
  using assms(1,3)
proof (induction ns arbitrary: stats el w)
  case (Cons n ns)
  have step: "good v" if "tr req w = (a, v)" for req a v using keeps [OF Cons.prems(2) that] .
  show ?case using Cons.prems Cons.IH step assms(2) by (auto split: sum.splits prod.splits)
qed simp

lemma ask_nodes_good:
  assumes "ask_nodes env key ns copies errs w = (copies', errs', w')" "xe_do env = tr" "good w"
  shows "good w'"
  using assms(1,3)
proof (induction ns arbitrary: copies errs w)
  case (Cons n ns)
  have step: "good v" if "tr req w = (a, v)" for req a v using keeps [OF Cons.prems(2) that] .
  show ?case using Cons.prems Cons.IH step assms(2) by (auto split: sum.splits prod.splits)
qed simp

lemma count_keys_good:
  assumes "count_keys env order dn i keys a w = (a', w')" "xe_do env = tr" "good w"
  shows "good w'"
  using assms(1,3)
proof (induction keys arbitrary: i a w)
  case (Cons key keys)
  then show ?case using ask_nodes_good [OF _ assms(2) Cons.prems(2)] by (fastforce split: if_splits prod.splits)
qed simp

lemma converge_loop_good:
  assumes "converge_loop env opts order sample first rounds cv w = Some (cv', w')" "xe_do env = tr" "good w"
  shows "good w'"
  using assms(1,3)
proof (induction rounds arbitrary: first cv w)
  case (Cons r rounds)
  obtain t1 t2 t3 dn where r: "r = (t1, t2, t3, dn)" by (cases r)
  obtain a w1 where c: "countReplicas env order dn sample w = (a, w1)" by fastforce
  then have "good w1" using count_keys_good [OF _ assms(2) Cons.prems(2)] by (simp add: countReplicas_def)
  with Cons r c show ?case by (auto simp: Let_def split: if_splits)
qed simp

lemma measureConvergence_good:
  assumes "measureConvergence env opts order rounds l rep w = Some (rep', w')" "xe_do env = tr" "good w"
  shows "good w'" "rp_Final rep' = rp_Final rep"
proof -
  obtain refused ackd where cs: "convergence_sample l = (refused, ackd)" by fastforce
  let ?cv = "(rp_Convergence rep)\<lparr>cv_FromRefusedWrites := length refused, cv_FromAckedWrites := length ackd,
     cv_Attempted := True, cv_ObjectsChecked := length (refused @ ackd)\<rparr>"
  have "good w' \<and> rp_Final rep' = rp_Final rep"
  proof (cases "converge_loop env opts order (refused @ ackd) True rounds ?cv w")
    case None
    with assms show ?thesis by (simp add: measureConvergence_def cs Let_def split: if_splits)
  next
    case (Some p)
    with converge_loop_good [of env opts order "refused @ ackd" True rounds ?cv w "fst p" "snd p"] assms show ?thesis
      by (auto simp: measureConvergence_def cs Let_def split: if_splits prod.splits)
  qed
  then show "good w'" "rp_Final rep' = rp_Final rep" by simp_all
qed

text \<open>The final verification finds no corrupted object.\<close>

lemma verify_keys_honest:
  assumes "verify_keys env order dn i keys s w = (s', w')" "xe_do env = tr" "xe_sha env = sha" "good w" "\<forall>k \<in> set keys. valid_key k"
  shows "good w' \<and> fv_Corrupted (fst s') = fv_Corrupted (fst s) \<and> k_CorruptedReads (snd s') = k_CorruptedReads (snd s)"
  using assms(1,4,5)
proof (induction keys arbitrary: i s w)
  case (Cons key keys)
  have inl: "fv_Corrupted (fst (verify_outcome sha key (Inl e) t)) = fv_Corrupted (fst t) \<and>
      k_CorruptedReads (snd (verify_outcome sha key (Inl e) t)) = k_CorruptedReads (snd t)" for e t
    by (auto simp: verify_outcome_def split: prod.splits)
  show ?case
  proof (cases "NewRequest (xe_bad env) ''GET'' (tg_URL (order ! (i mod length order))) (cas_path key) []")
    case (Inl e)
    with Cons assms(3) inl show ?thesis by (auto split: if_splits)
  next
    case (Inr req)
    obtain r v where d: "tr req w = (r, v)" by fastforce
    have "fv_Corrupted (fst (verify_outcome sha key r s)) = fv_Corrupted (fst s) \<and>
        k_CorruptedReads (snd (verify_outcome sha key r s)) = k_CorruptedReads (snd s)"
    proof (cases r)
      case (Inr resp)
      with honest [OF Cons.prems(2) \<open>NewRequest _ _ _ _ _ = Inr req\<close> _ d [unfolded Inr]] Cons.prems(3) show ?thesis
        by (auto simp: verify_outcome_def split: prod.splits option.splits)
    qed (use inl in simp)
    moreover have "good v" using keeps [OF Cons.prems(2) d] .
    ultimately show ?thesis using Cons Inr d assms(2,3) by (auto split: if_splits)
  qed
qed simp

end

text \<open>What is judged is what the counters of the traffic say, and nothing more.\<close>

lemma pick_from_subset: "set (pick_from step i xs) \<subseteq> set xs"
  by (induction step i xs rule: pick_from.induct) (subst pick_from.simps, auto)

lemma final_sample_subset: "set (final_sample xs) \<subseteq> set xs"
  by (simp add: final_sample_def pick_from_subset)

lemma runChaos_parts:
  assumes "runChaos env opts order inp w = Some (Some rep, e, w')"
  obtains w0 ts w1 where "waitAllReady env (ci_start inp + 60 * second) ''1m0s'' order (ci_before inp) w = Some (None, w0)"
    "traffic env opts order (ci_events inp) (start_traffic env opts w0) = Some ts"
    "judge env opts order inp (ch_led (ts_chaos ts)) (ch_cnt (ts_chaos ts))
      (buildReport opts (ch_cnt (ts_chaos ts)) (ij_events (ts_inj ts)) (ci_elapsed inp) (ci_now inp)) (ch_world (ts_chaos ts)) = Some (rep, w1)"
    "rp_CorruptedReads rep = 0 \<Longrightarrow> fv_Corrupted (rp_Final rep) = 0 \<Longrightarrow> e = ci_write inp"
proof -
  let ?wait = "waitAllReady env (ci_start inp + 60 * second) ''1m0s'' order (ci_before inp) w"
  have "?wait \<noteq> None" using assms(1) by (intro notI) (simp add: runChaos_def)
  then obtain e0 w0 where "?wait = Some (e0, w0)" by fastforce
  moreover from this have "e0 = None" using assms(1) by (cases e0) (simp_all add: runChaos_def)
  ultimately have 0: "?wait = Some (None, w0)" by simp
  have "traffic env opts order (ci_events inp) (start_traffic env opts w0) \<noteq> None"
    using assms(1) by (intro notI) (simp add: runChaos_def 0)
  then obtain ts where t: "traffic env opts order (ci_events inp) (start_traffic env opts w0) = Some ts" by fastforce
  let ?x = "ts_chaos ts"
  let ?rep = "buildReport opts (ch_cnt ?x) (ij_events (ts_inj ts)) (ci_elapsed inp) (ci_now inp)"
  have "judge env opts order inp (ch_led ?x) (ch_cnt ?x) ?rep (ch_world ?x) \<noteq> None"
    using assms(1) by (intro notI) (simp add: runChaos_def 0 t Let_def split: if_splits)
  then obtain rep1 w1 where j1: "judge env opts order inp (ch_led ?x) (ch_cnt ?x) ?rep (ch_world ?x) = Some (rep1, w1)" by fastforce
  have "rep1 = rep" using assms(1) by (simp add: runChaos_def 0 t j1 Let_def split: if_splits option.splits)
  with j1 have j: "judge env opts order inp (ch_led ?x) (ch_cnt ?x) ?rep (ch_world ?x) = Some (rep, w1)" by simp
  have e: "e = ci_write inp" if "rp_CorruptedReads rep = 0" "fv_Corrupted (rp_Final rep) = 0"
    using assms(1) that by (simp add: runChaos_def 0 t j Let_def split: if_splits option.splits)
  show ?thesis by (rule that [OF 0 t j e])
qed

context honest_cache
begin

lemma judge_honest:
  assumes "judge env opts order inp l c rep w = Some (rep', w')" "xe_do env = tr" "xe_sha env = sha"
    "\<And>args w. good w \<Longrightarrow> good (snd (xe_compose env args w))" "good w" "\<forall>k \<in> set (l_keys l). valid_key k"
    "fv_Corrupted (rp_Final rep) = 0"
  shows "fv_Corrupted (rp_Final rep') = 0 \<and> rp_CorruptedReads rep' = k_CorruptedReads c"
proof -
  obtain e1 w1 where 1: "restoreAll env opts order w = (e1, w1)" by fastforce
  have "waitAllReady env (ci_restored inp + 120 * second) ''2m0s'' order (ci_after inp) w1 \<noteq> None"
    using assms(1) by (intro notI) (simp add: judge_def 1)
  then obtain e2 w2 where 2: "waitAllReady env (ci_restored inp + 120 * second) ''2m0s'' order (ci_after inp) w1 = Some (e2, w2)" by fastforce
  obtain stats el w3 where 3: "collect_stats env order [] (rp_Eviction rep) w2 = (stats, el, w3)" by (metis prod_cases3)
  let ?rep1 = "rep\<lparr>rp_NodeStats := stats, rp_Eviction := el\<lparr>el_Observed := (el_ObjectsEvicted el > 0)\<rparr>\<rparr>"
  have "measureConvergence env opts order (ci_rounds inp) l ?rep1 w3 \<noteq> None"
    using assms(1) by (intro notI) (simp add: judge_def collectNodeStats_def 1 2 3)
  then obtain rep2 w4 where 4: "measureConvergence env opts order (ci_rounds inp) l ?rep1 w3 = Some (rep2, w4)" by fastforce
  have g: "good w3" using restoreAll_good [OF 1 assms(4,5)] waitAllReady_good [OF 2 assms(2)] collect_stats_good [OF 3 assms(2)] by blast
  have g4: "good w4" and f2: "rp_Final rep2 = rp_Final rep"
    using measureConvergence_good [OF 4 assms(2) g] by simp_all
  let ?s = "final_sample (l_keys l)"
  obtain fc w5 where 50: "verify_keys env order (\<lambda>i. False) 0 ?s ((rp_Final rep2)\<lparr>fv_ObjectsChecked := length ?s\<rparr>, c) w4 = (fc, w5)" by fastforce
  obtain fv c' where fc: "fc = (fv, c')" by fastforce
  note 5 = 50 [unfolded fc]
  have v: "fv_Corrupted fv = 0 \<and> k_CorruptedReads c' = k_CorruptedReads c"
    using verify_keys_honest [OF 5 assms(2,3) g4] final_sample_subset [of "l_keys l"] assms(6,7) f2 by auto
  have "finalVerify env order (\<lambda>i. False) l c rep2 w4 = ((rep2\<lparr>rp_Final := fv\<rparr>, c'), w5)" by (simp add: finalVerify_def 5 Let_def)
  then have "rp_Final rep' = fv" "rp_CorruptedReads rep' = k_CorruptedReads c'"
    using assms(1) by (auto simp: judge_def collectNodeStats_def 1 2 3 4 Let_def)
  with v show ?thesis by simp
qed

lemma runChaos_honest:
  assumes "runChaos env opts order inp w = Some (Some rep, e, w')" "xe_do env = tr" "xe_sha env = sha" "rng_ok (xe_rng env)"
    "\<And>b. length (sha b) = 32" "\<And>args w. good w \<Longrightarrow> good (snd (xe_compose env args w))"
    "\<And>f w. Change f \<in> set (ci_events inp) \<Longrightarrow> good w \<Longrightarrow> good (f w)" "good w"
  shows "fv_Corrupted (rp_Final rep) = 0 \<and>
    (rp_CorruptedReads rep = 0 \<or>
     (\<exists>w0 k ts b d. traffic env opts order (take k (ci_events inp)) (start_traffic env opts w0) = Some ts \<and>
        hex_encode (sha b) \<in> set (l_keys (ch_led (ts_chaos ts))) \<and> stored (ch_world (ts_chaos ts)) (hex_encode (sha b)) d \<and>
        sha d = sha b \<and> length d \<noteq> length b))"
proof -
  obtain w0 ts w1 where 0: "waitAllReady env (ci_start inp + 60 * second) ''1m0s'' order (ci_before inp) w = Some (None, w0)"
    and t: "traffic env opts order (ci_events inp) (start_traffic env opts w0) = Some ts"
    and j: "judge env opts order inp (ch_led (ts_chaos ts)) (ch_cnt (ts_chaos ts))
      (buildReport opts (ch_cnt (ts_chaos ts)) (ij_events (ts_inj ts)) (ci_elapsed inp) (ci_now inp)) (ch_world (ts_chaos ts)) = Some (rep, w1)"
    by (rule runChaos_parts [OF assms(1)])
  let ?x = "ts_chaos ts"
  let ?rep = "buildReport opts (ch_cnt ?x) (ij_events (ts_inj ts)) (ci_elapsed inp) (ci_now inp)"
  have g: "good w0" using waitAllReady_good [OF 0 assms(2,8)] .
  have z: "good (ch_world (ts_chaos (start_traffic env opts w0)))" "k_CorruptedReads (ch_cnt (ts_chaos (start_traffic env opts w0))) = 0"
    using g by (simp_all add: start_traffic_def zero_counters_def)
  have h: "good (ch_world ?x) \<and> books_ok sha ?x \<and> (k_CorruptedReads (ch_cnt ?x) = 0 \<or>
     (\<exists>k ts b d. traffic env opts order (take k (ci_events inp)) (start_traffic env opts w0) = Some ts \<and>
        hex_encode (sha b) \<in> set (l_keys (ch_led (ts_chaos ts))) \<and> stored (ch_world (ts_chaos ts)) (hex_encode (sha b)) d \<and>
        sha d = sha b \<and> length d \<noteq> length b))"
  proof (rule traffic_honest [OF t assms(2-5)])
    show "good (snd (xe_compose env args v))" if "good v" for args v using that by (rule assms(6))
    show "good (f v)" if "Change f \<in> set (ci_events inp)" "good v" for f v using that by (rule assms(7))
    show "good (ch_world (ts_chaos (start_traffic env opts w0)))" by (rule z)
    show "books_ok sha (ts_chaos (start_traffic env opts w0))" by (rule start_books)
    show "k_CorruptedReads (ch_cnt (ts_chaos (start_traffic env opts w0))) = 0" by (rule z)
  qed
  have keys: "\<forall>k \<in> set (l_keys (ch_led ?x)). valid_key k"
    using h hex_encode_valid [OF assms(5)] by (auto simp: books_ok_def ledger_true_def)
  have "fv_Corrupted (rp_Final rep) = 0 \<and> rp_CorruptedReads rep = k_CorruptedReads (ch_cnt ?x)"
  proof (rule judge_honest [OF j assms(2,3)])
    show "good (snd (xe_compose env args v))" if "good v" for args v using that by (rule assms(6))
    show "good (ch_world ?x)" using h by simp
    show "\<forall>k \<in> set (l_keys (ch_led ?x)). valid_key k" by (rule keys)
    show "fv_Corrupted (rp_Final ?rep) = 0" by (simp add: buildReport_def Let_def)
  qed
  with h show ?thesis by metis
qed

end

section \<open>Lemmas: the cluster as a driver sees it\<close>

text \<open>A driver is a client outside the cluster: its requests go to the node their host leads to, and may be
  forwarded twice from there.\<close>

definition client_net :: "system \<Rightarrow> string \<Rightarrow> world transport" where
  "client_net sys client = send sys (Suc (Suc (Suc 0))) client"

lemma client_net_Inr:
  assumes "client_net sys client req w = (Inr x, w')"
  obtains dst resp where "sy_hosts sys (rq_host req) = Some dst" "client_request sys dst req w = (resp, w')"
    "\<exists>k e. x = client_view (rq_method req) resp \<or> x = cut_response k e (client_view (rq_method req) resp)"
  using assms unfolding client_net_def
proof (cases rule: send_served)
  case (2 dst b resp)
  have "b = sent_body req" and x: "\<exists>k e. x = client_view (rq_method req) resp \<or> x = cut_response k e (client_view (rq_method req) resp)"
    using 2(4) [of x] by auto
  then have "client_request sys dst req w = (resp, w')" using 2(2) by (simp add: client_request_def numeral_2_eq_2 del: send.simps)
  with 2(1) x that show ?thesis by blast
qed simp

lemma client_net_steps:
  assumes "client_net sys client req w = (r, w')"
  shows "req_steps (sy_sha sys) req w w'"
  using safe_send [of sys "Suc (Suc (Suc 0))"] assms by (auto simp: safe_net_def client_net_def simp del: send.simps)

lemma driver_get:
  assumes "NewRequest bad ''GET'' url (cas_path key) [] = Inr req" "valid_key key"
  shows "object_request ''GET'' NamespaceCAS key req"
proof -
  have "cas_path key = ''/'' @ NamespaceCAS @ ''/'' @ key" by (simp add: cas_path_def NamespaceCAS_def)
  with NewRequest_Inr [OF assms(1)] parsePath_object [of NamespaceCAS key] isCachePath_object [of NamespaceCAS key] assms(2) show ?thesis
    by (simp add: object_request_def inboundHop_def header_get_def)
qed

lemma cas_ok_steps: "steps sha w w' \<Longrightarrow> all_cas_ok sha w \<Longrightarrow> all_cas_ok sha w'"
  by (simp add: steps_def)

interpretation hc: honest_cache "sy_sha sys" "client_net sys client"
  "\<lambda>w. all_cas_ok (sy_sha sys) w \<and> (\<forall>h n. sy_hosts sys h = Some n \<longrightarrow> n \<noteq> '''')"
  "\<lambda>w key b. \<exists>n. held w n (NamespaceCAS, key) = Some b" for sys client
proof
  fix w req r w'
  assume "all_cas_ok (sy_sha sys) w \<and> (\<forall>h n. sy_hosts sys h = Some n \<longrightarrow> n \<noteq> '''')" "client_net sys client req w = (r, w')"
  then show "all_cas_ok (sy_sha sys) w' \<and> (\<forall>h n. sy_hosts sys h = Some n \<longrightarrow> n \<noteq> '''')"
    using client_net_steps [of sys client req w r w'] cas_ok_steps [of "sy_sha sys" w w'] by (simp add: req_steps_def)
next
  fix w bad url key req x w' b
  assume g: "all_cas_ok (sy_sha sys) w \<and> (\<forall>h n. sy_hosts sys h = Some n \<longrightarrow> n \<noteq> '''')"
    and r: "NewRequest bad ''GET'' url (cas_path key) [] = Inr req" "valid_key key" and s: "client_net sys client req w = (Inr x, w')"
    and x: "rs_status x = 200" "rs_body x = (b, None)"
  obtain dst resp k e where d: "sy_hosts sys (rq_host req) = Some dst" "client_request sys dst req w = (resp, w')"
    "x = client_view (rq_method req) resp \<or> x = cut_response k e (client_view (rq_method req) resp)"
    using client_net_Inr [OF s] by metis
  have m: "rq_method req = ''GET''" using NewRequest_Inr(1) [OF r(1)] .
  have "dst \<noteq> ''''" "rs_status resp = 200" using g d(1,3) x(1) by auto
  from read_returns [OF this(1) conjunct1 [OF g] driver_get [OF r] d(2) this(2)] obtain n v rest where
    v: "held w n (NamespaceCAS, key) = Some v" "rs_length resp = int (length v)" "v = fst (rs_body resp) @ rest" "hex_encode (sy_sha sys v) = key"
    by blast
  have "b = v" using client_view_get(2) [OF v(2,3) d(3) [unfolded m]] x(2) by simp
  with v(1,4) show "(\<exists>n. held w n (NamespaceCAS, key) = Some b) \<and> hex_encode (sy_sha sys b) = key" by blast
qed

section \<open>Lemmas: what a driver's requests leave unchanged\<close>

lemma steps_wired: "steps sha w w' \<Longrightarrow> wired sys N w' = wired sys N w"
  by (simp add: steps_def wired_def node_setup_def)

lemma steps_peers: "steps sha w w' \<Longrightarrow> co_peers (w' n) = co_peers (w n) \<and> co_ring (w' n) = co_ring (w n)"
  by (simp add: steps_def node_setup_def)

lemma driver_read_keeps:
  assumes "client_net sys client req w = (r, w')" "rq_method req = ''GET'' \<or> rq_method req = ''HEAD''"
  shows "steps (sy_sha sys) w w'" "held w' = held w"
  using client_net_steps [OF assms(1)] assms(2) by (auto simp: req_steps_def reads_def)

section \<open>Lemmas: the final verification\<close>

lemma driver_get_missing:
  assumes "client_net sys client req w = (Inr x, w')" "NewRequest bad ''GET'' url (cas_path key) [] = Inr req" "valid_key key"
    "rs_status x = 404" "wired sys N w" "\<forall>n \<in> N. co_peers (w n)" "plain_faults sys"
  shows "\<exists>n \<in> N. \<forall>m \<in> set (r_members (co_ring (w n))). held w (m_Name m) (NamespaceCAS, key) = None"
proof -
  obtain dst resp where d: "sy_hosts sys (rq_host req) = Some dst" "client_request sys dst req w = (resp, w')"
    "\<exists>k e. x = client_view (rq_method req) resp \<or> x = cut_response k e (client_view (rq_method req) resp)"
    using client_net_Inr [OF assms(1)] .
  have n: "dst \<in> N" using assms(5) d(1) by (auto simp: wired_def)
  have "rs_status resp = 404" using d(3) assms(4) by auto
  from missing_nowhere [OF assms(5) n _ assms(7) driver_get [OF assms(2,3)] d(2) this] n assms(6) show ?thesis by blast
qed

lemma verify_keys_sound:
  assumes "verify_keys env order (\<lambda>i. False) i keys (fv, c) w = ((fv', c'), w')" "xe_do env = client_net sys client"
    "wired sys N w" "\<forall>n \<in> N. co_peers (w n)" "plain_faults sys" "\<forall>k \<in> set keys. valid_key k"
  shows "held w' = held w" "fv_ObjectsChecked fv' = fv_ObjectsChecked fv"
    "fv_Correct fv' + fv_Corrupted fv' + fv_Missing fv' + fv_Unreadable fv' =
       fv_Correct fv + fv_Corrupted fv + fv_Missing fv + fv_Unreadable fv + length keys"
    "fv_Missing fv' > fv_Missing fv \<longrightarrow>
       (\<exists>key \<in> set keys. \<exists>n \<in> N. \<forall>m \<in> set (r_members (co_ring (w n))). held w (m_Name m) (NamespaceCAS, key) = None)"
proof -
  have "held w' = held w \<and> fv_ObjectsChecked fv' = fv_ObjectsChecked fv \<and>
    fv_Correct fv' + fv_Corrupted fv' + fv_Missing fv' + fv_Unreadable fv' =
       fv_Correct fv + fv_Corrupted fv + fv_Missing fv + fv_Unreadable fv + length keys \<and>
    (fv_Missing fv' > fv_Missing fv \<longrightarrow>
       (\<exists>key \<in> set keys. \<exists>n \<in> N. \<forall>m \<in> set (r_members (co_ring (w n))). held w (m_Name m) (NamespaceCAS, key) = None))"
    using assms(1,3,4,6)
  proof (induction keys arbitrary: i fv c w)
    case (Cons key keys)
    show ?case
    proof (cases "NewRequest (xe_bad env) ''GET'' (tg_URL (order ! (i mod length order))) (cas_path key) []")
      case (Inl e)
      with Cons.prems Cons.IH [of "i + 1" "fv\<lparr>fv_Unreadable := fv_Unreadable fv + 1\<rparr>" c w] show ?thesis by (simp add: verify_outcome_def)
    next
      case (Inr req)
      obtain r v where d: "client_net sys client req w = (r, v)" by fastforce
      obtain fv1 c1 where o: "verify_outcome (xe_sha env) key r (fv, c) = (fv1, c1)" by fastforce
      have m: "rq_method req = ''GET''" using NewRequest_Inr(1) [OF Inr] .
      note k = driver_read_keeps [OF d disjI1 [OF m]]
      have wv: "wired sys N v" "\<forall>n \<in> N. co_peers (v n)" "\<And>n. co_ring (v n) = co_ring (w n)"
        using steps_wired [OF k(1)] steps_peers [OF k(1)] Cons.prems(2,3) by auto
      have one: "fv_ObjectsChecked fv1 = fv_ObjectsChecked fv \<and>
          fv_Correct fv1 + fv_Corrupted fv1 + fv_Missing fv1 + fv_Unreadable fv1 =
            fv_Correct fv + fv_Corrupted fv + fv_Missing fv + fv_Unreadable fv + 1 \<and>
          (fv_Missing fv1 = fv_Missing fv \<or> fv_Missing fv1 = fv_Missing fv + 1 \<and> (\<exists>x. r = Inr x \<and> rs_status x = 404))"
        using o by (auto simp: verify_outcome_def split: sum.splits if_splits prod.splits option.splits)
      have miss: "\<exists>n \<in> N. \<forall>m \<in> set (r_members (co_ring (w n))). held w (m_Name m) (NamespaceCAS, key) = None"
        if "r = Inr x" "rs_status x = 404" for x
        using driver_get_missing [OF d [unfolded that(1)] Inr _ that(2) Cons.prems(2,3) assms(5)] Cons.prems(4) by simp
      have "verify_keys env order (\<lambda>i. False) (i + 1) keys (fv1, c1) v = ((fv', c'), w')"
        using Cons.prems(1) Inr d o assms(2) by simp
      from Cons.IH [OF this wv(1,2)] Cons.prems(4) have IH:
        "held w' = held v \<and> fv_ObjectsChecked fv' = fv_ObjectsChecked fv1 \<and>
        fv_Correct fv' + fv_Corrupted fv' + fv_Missing fv' + fv_Unreadable fv' =
          fv_Correct fv1 + fv_Corrupted fv1 + fv_Missing fv1 + fv_Unreadable fv1 + length keys \<and>
        (fv_Missing fv' > fv_Missing fv1 \<longrightarrow>
          (\<exists>key \<in> set keys. \<exists>n \<in> N. \<forall>m \<in> set (r_members (co_ring (v n))). held v (m_Name m) (NamespaceCAS, key) = None))" by simp
      have "fv_Missing fv' > fv_Missing fv \<Longrightarrow> fv_Missing fv' > fv_Missing fv1 \<or> (\<exists>x. r = Inr x \<and> rs_status x = 404)"
        using one by auto
      with IH one miss show ?thesis unfolding k(2) wv(3) by (auto simp del: not_less)
    qed
  qed simp
  then show "held w' = held w" "fv_ObjectsChecked fv' = fv_ObjectsChecked fv"
    "fv_Correct fv' + fv_Corrupted fv' + fv_Missing fv' + fv_Unreadable fv' =
       fv_Correct fv + fv_Corrupted fv + fv_Missing fv + fv_Unreadable fv + length keys"
    "fv_Missing fv' > fv_Missing fv \<longrightarrow>
       (\<exists>key \<in> set keys. \<exists>n \<in> N. \<forall>m \<in> set (r_members (co_ring (w n))). held w (m_Name m) (NamespaceCAS, key) = None)"
    by blast+
qed

section \<open>Lemmas: counting copies\<close>

text \<open>A target that can be asked: it leads to a node, the connection works, and the node's disk does.\<close>

definition askable :: "system \<Rightarrow> string \<Rightarrow> (string \<Rightarrow> go_error option) \<Rightarrow> target \<Rightarrow> bool" where
  "askable sys client bad t \<longleftrightarrow> (\<exists>n. sy_hosts sys (tg_URL t) = Some n \<and> sy_net sys client n = NetOk \<and> ce_stat (sy_env sys) n = None) \<and>
     (\<forall>key. bad (tg_URL t @ cas_path key) = None)"

text \<open>The number of targets whose node holds an object.\<close>

definition copies_at :: "system \<Rightarrow> target list \<Rightarrow> world \<Rightarrow> key \<Rightarrow> nat" where
  "copies_at sys order w key =
     length (filter (\<lambda>t. case sy_hosts sys (tg_URL t) of None \<Rightarrow> False | Some n \<Rightarrow> held w n (NamespaceCAS, key) \<noteq> None) order)"

lemma head_status:
  assumes "node_serve sys tr me req w = (resp, w')" "rq_method req = ''HEAD''" "rq_path req = cas_path key" "valid_key key"
    "Terminal (inboundHop req)" "ce_stat (sy_env sys) me = None"
  shows "rs_status resp = 200 \<or> rs_status resp = 404"
proof -
  have p: "cas_path key = ''/'' @ NamespaceCAS @ ''/'' @ key" by (simp add: cas_path_def NamespaceCAS_def)
  have v: "ns_Valid NamespaceCAS" by simp
  show ?thesis
    using assms parsePath_object [OF v assms(4)] isCachePath_object [OF v]
    by (auto simp: p node_serve_def nodeHeader_def routeCache_def ServeHTTP_def serveGet_def c_Stat_def local_Stat_def store_Stat_def
        writeGetError_def Let_def split: prod.splits sum.splits option.splits if_splits)
qed

lemma replica_asked:
  assumes "askable sys client bad t" "valid_key key" "plain_faults sys"
  obtains req x w' n where "replica_request bad (tg_URL t) key = Inr req" "client_net sys client req w = (Inr x, w')"
    "sy_hosts sys (tg_URL t) = Some n" "rs_status x = 200 \<longleftrightarrow> held w n (NamespaceCAS, key) \<noteq> None"
    "steps (sy_sha sys) w w'" "held w' = held w"
proof -
  obtain n where n: "sy_hosts sys (tg_URL t) = Some n" "sy_net sys client n = NetOk" "ce_stat (sy_env sys) n = None"
    "bad (tg_URL t @ cas_path key) = None"
    using assms(1) by (auto simp: askable_def)
  define req where "req = \<lparr>rq_method = ''HEAD'', rq_host = tg_URL t, rq_path = cas_path key,
      rq_headers = mput HeaderHop (hop_string HopRead) (mput HeaderForwardedBy ''kilnchaos'' []), rq_length = 0, rq_body = ([], None)\<rparr>"
  have rr: "replica_request bad (tg_URL t) key = Inr req"
    using n(4) by (simp add: replica_request_def NewRequest_def req_def)
  have hop: "inboundHop req = HopRead" by (simp add: inboundHop_def req_def header_get_def HeaderHop_def HeaderForwardedBy_def ParseHop_def)
  obtain resp w' where sv: "node_serve sys (send sys (Suc (Suc 0))) n (req\<lparr>rq_body := sent_body req\<rparr>) w = (resp, w')" by fastforce
  have b: "req\<lparr>rq_body := sent_body req\<rparr> = req" "write_error req = None" by (simp_all add: req_def sent_body_def write_error_def)
  have s: "client_net sys client req w = (Inr (client_view ''HEAD'' resp), w')"
    using n(1,2) sv b by (simp add: client_net_def Let_def req_def)
  have pp: "parsePath (rq_path req) = Some (NamespaceCAS, key)" "isCachePath (rq_path req)"
    using parsePath_object [of NamespaceCAS key] isCachePath_object [of NamespaceCAS key] assms(2)
    by (simp_all add: req_def cas_path_def NamespaceCAS_def ns_Valid_def)
  have st: "rs_status resp = 200 \<or> rs_status resp = 404"
    by (rule head_status [OF sv [unfolded b(1)], of key]) (use hop n(3) assms(2) in \<open>simp_all add: req_def Terminal_def\<close>)
  have "rs_status resp = 200 \<longleftrightarrow> held w n (NamespaceCAS, key) \<noteq> None"
    using terminal_head [OF sv [unfolded b(1)] _ pp] st hop assms(3) by (auto simp: req_def Terminal_def)
  with that [OF rr s n(1)] driver_read_keeps [OF s] show ?thesis by (simp add: req_def)
qed

lemma copies_at_held: "held v = held w \<Longrightarrow> copies_at sys order v = copies_at sys order w"
  by (rule ext) (simp only: copies_at_def)

lemma ask_nodes_exact:
  assumes "ask_nodes env key ns copies errs w = (copies', errs', w')" "xe_do env = client_net sys client" "valid_key key" "plain_faults sys"
    "\<forall>t \<in> set ns. askable sys client (xe_bad env) t"
  shows "copies' = copies + copies_at sys ns w key \<and> errs' = errs \<and> held w' = held w \<and> steps (sy_sha sys) w w'"
  using assms(1,5)
proof (induction ns arbitrary: copies errs w)
  case (Cons t ns)
  have a: "askable sys client (xe_bad env) t" using Cons.prems(2) by simp
  obtain req x v n where q: "replica_request (xe_bad env) (tg_URL t) key = Inr req" "client_net sys client req w = (Inr x, v)"
    "sy_hosts sys (tg_URL t) = Some n" "rs_status x = 200 \<longleftrightarrow> held w n (NamespaceCAS, key) \<noteq> None" "steps (sy_sha sys) w v" "held v = held w"
    by (rule replica_asked [OF a assms(3,4), where w = w])
  have "ask_nodes env key ns (if rs_status x = 200 then copies + 1 else copies) errs v = (copies', errs', w')"
    using Cons.prems(1) q(1,2) assms(2) by simp
  from Cons.IH [OF this] Cons.prems(2)
  have r: "copies' = (if rs_status x = 200 then copies + 1 else copies) + copies_at sys ns v key" "errs' = errs" "held w' = held v"
    "steps (sy_sha sys) v w'"
    by simp_all
  have "copies_at sys (t # ns) w key = (if rs_status x = 200 then 1 else 0) + copies_at sys ns w key"
    unfolding q(4) by (simp add: copies_at_def q(3))
  moreover have "copies_at sys ns v = copies_at sys ns w" by (rule copies_at_held [OF q(6)])
  ultimately show ?case using r q(6) steps_trans [OF q(5) r(4)] by simp
qed (simp add: copies_at_def)

lemma count_keys_exact:
  assumes "count_keys env order (\<lambda>i. False) i keys a w = (a', w')" "xe_do env = client_net sys client" "plain_faults sys"
    "\<forall>t \<in> set order. askable sys client (xe_bad env) t" "order \<noteq> []" "\<forall>k \<in> set keys. valid_key k"
  shows "rc_full a' = rc_full a + length (filter (\<lambda>k. 2 \<le> copies_at sys order w k) keys) \<and>
    rc_under a' = rc_under a + length (filter (\<lambda>k. copies_at sys order w k = 1) keys) \<and>
    rc_absent a' = rc_absent a + length (filter (\<lambda>k. copies_at sys order w k = 0) keys) \<and>
    rc_unreadable a' = rc_unreadable a \<and> held w' = held w \<and> steps (sy_sha sys) w w'"
  using assms(1,6)
proof (induction keys arbitrary: i a w)
  case (Cons key keys)
  obtain n e v where q: "ask_nodes env key order 0 0 w = (n, e, v)" by (metis prod_cases3)
  have x: "n = copies_at sys order w key \<and> e = 0 \<and> held v = held w \<and> steps (sy_sha sys) w v"
    using ask_nodes_exact [OF q assms(2) _ assms(3,4)] Cons.prems(2) by simp
  have c: "copies_at sys order v = copies_at sys order w" using x by (intro copies_at_held) simp
  have "count_keys env order (\<lambda>i. False) (i + 1) keys (tally (length order) n e a) v = (a', w')" using Cons.prems(1) q by simp
  note IH = Cons.IH [OF this]
  have ta: "tally (length order) n e a = (if 2 \<le> n then a\<lparr>rc_full := rc_full a + 1\<rparr>
      else if n = 0 then a\<lparr>rc_absent := rc_absent a + 1\<rparr> else a\<lparr>rc_under := rc_under a + 1\<rparr>)"
    using x assms(5) by (simp add: tally_def)
  show ?case using IH Cons.prems(2) x c steps_trans [of "sy_sha sys" w v w'] unfolding ta by (auto split: if_splits)
qed simp

lemma converge_loop_exact:
  assumes "converge_loop env opts order sample first rounds cv w = Some (cv', w')" "xe_do env = client_net sys client" "plain_faults sys"
    "\<forall>t \<in> set order. askable sys client (xe_bad env) t" "order \<noteq> []" "\<forall>k \<in> set sample. valid_key k"
    "\<forall>(t1, t2, t3, dn) \<in> set rounds. dn = (\<lambda>i. False)" "\<not> cv_Converged cv"
  shows "(cv_Converged cv' \<longleftrightarrow> (\<forall>k \<in> set sample. copies_at sys order w k \<noteq> 1)) \<and>
     cv_FullyReplicated cv' = length (filter (\<lambda>k. 2 \<le> copies_at sys order w k) sample) \<and>
     cv_UnderReplicated cv' = length (filter (\<lambda>k. copies_at sys order w k = 1) sample) \<and>
     cv_Absent cv' = length (filter (\<lambda>k. copies_at sys order w k = 0) sample) \<and> held w' = held w"
  using assms(1,7,8)
proof (induction rounds arbitrary: first cv w)
  case (Cons r rounds)
  obtain t1 t2 t3 dn where r: "r = (t1, t2, t3, dn)" by (cases r)
  have dn: "dn = (\<lambda>i. False)" using Cons.prems(2) r by auto
  obtain a v where c: "countReplicas env order dn sample w = (a, v)" by fastforce
  note x = count_keys_exact [OF c [unfolded countReplicas_def dn] assms(2-6)]
  have same: "copies_at sys order v = copies_at sys order w" using x by (intro copies_at_held) simp
  have zero: "rc_under a = 0 \<longleftrightarrow> (\<forall>k \<in> set sample. copies_at sys order w k \<noteq> 1)" "rc_unreadable a = 0"
    using x by (auto simp: filter_empty_conv)
  let ?cv = "cv\<lparr>cv_AtStartReplicated := (if first then rc_full a else cv_AtStartReplicated cv), cv_FullyReplicated := rc_full a,
     cv_UnderReplicated := rc_under a, cv_Absent := rc_absent a, cv_Unreadable := rc_unreadable a, cv_WaitedSeconds := Seconds t1\<rparr>"
  have step: "converge_loop env opts order sample first (r # rounds) cv w =
     (if rc_under a = 0 \<and> rc_unreadable a = 0 then Some (?cv\<lparr>cv_Converged := True, cv_ConvergedSeconds := Seconds t2\<rparr>, v)
      else if t3 > cx_convergeWait opts \<or> dn (length sample) then Some (?cv, v)
      else converge_loop env opts order sample False rounds ?cv v)"
    by (simp add: r c Let_def)
  show ?case
  proof (cases "rc_under a = 0")
    case True
    then have "cv' = ?cv\<lparr>cv_Converged := True, cv_ConvergedSeconds := Seconds t2\<rparr>" "w' = v" using Cons.prems(1) step zero(2) by simp_all
    with True zero(1) x show ?thesis by simp
  next
    case under: False
    show ?thesis
    proof (cases "t3 > cx_convergeWait opts")
      case True
      then have "cv' = ?cv" "w' = v" using Cons.prems(1) step under by simp_all
      with under zero(1) x Cons.prems(3) show ?thesis by simp
    next
      case False
      have "converge_loop env opts order sample False rounds ?cv v = Some (cv', w')"
        using Cons.prems(1) step under False dn by simp
      from Cons.IH [OF this] Cons.prems(2,3) same x show ?thesis by simp
    qed
  qed
qed simp

section \<open>Lemmas: samples\<close>

lemma stride_nth:
  "length (stride step i n xs) \<le> n \<and> (\<forall>j < length (stride step i n xs). i + j * step < length xs \<and> stride step i n xs ! j = xs ! (i + j * step))"
proof (induction n arbitrary: i)
  case (Suc n)
  show ?case
  proof (cases "i < length xs")
    case True
    have "i + j * step < length xs \<and> stride step i (Suc n) xs ! j = xs ! (i + j * step)" if "j < length (stride step i (Suc n) xs)" for j
      using Suc [of "i + step"] that True by (cases j) (auto simp: algebra_simps)
    with Suc [of "i + step"] True show ?thesis by simp
  qed simp
qed simp

lemma length_stride: "i + (n - 1) * step < length xs \<Longrightarrow> length (stride step i n xs) = n"
proof (induction n arbitrary: i)
  case (Suc n)
  have "i < length xs" using Suc.prems by (rule le_less_trans [OF le_add1])
  moreover have "length (stride step (i + step) n xs) = n"
  proof (cases n)
    case (Suc k)
    with Suc.prems Suc.IH [of "i + step"] show ?thesis by simp
  qed simp
  ultimately show ?case by simp
qed simp

lemma subsample_spec:
  shows "length (subsample xs n) = min (nat n) (length xs)" "set (subsample xs n) \<subseteq> set xs" "distinct xs \<Longrightarrow> distinct (subsample xs n)"
proof -
  let ?step = "length xs div nat n"
  have big: "0 < ?step \<and> (nat n - 1) * ?step < length xs" if "0 < n" "n < int (length xs)"
  proof -
    have n: "0 < nat n" "nat n < length xs" using that by simp_all
    then have "0 < ?step" by (simp add: div_greater_zero_iff)
    moreover have "(nat n - 1) * ?step + ?step \<le> length xs"
      using n(1) times_div_less_eq_dividend [of "nat n" "length xs"] by (cases "nat n") (simp_all add: algebra_simps)
    ultimately show ?thesis by linarith
  qed
  show l: "length (subsample xs n) = min (nat n) (length xs)"
    using big length_stride [of 0 "nat n" ?step xs] by (auto simp: subsample_def)
  have s: "set (stride st 0 k xs) \<subseteq> set xs" for st k
  proof
    fix x assume "x \<in> set (stride st 0 k xs)"
    then obtain j where "j < length (stride st 0 k xs)" "x = stride st 0 k xs ! j" by (auto simp: in_set_conv_nth)
    with stride_nth [of st 0 k xs] show "x \<in> set xs" by simp
  qed
  then show "set (subsample xs n) \<subseteq> set xs" by (simp add: subsample_def)
  show "distinct (subsample xs n)" if d: "distinct xs"
  proof (cases "0 < n \<and> n < int (length xs)")
    case True
    have "distinct (stride ?step 0 (nat n) xs)"
      unfolding distinct_conv_nth using stride_nth [of ?step 0 "nat n" xs] big True d
      by (auto simp: nth_eq_iff_index_eq)
    with True show ?thesis by (simp add: subsample_def)
  qed (use d in \<open>auto simp: subsample_def\<close>)
qed

lemma length_pick_from:
  "0 < step \<Longrightarrow> length (pick_from step i xs) * step < length xs - i + step \<and> length xs - i \<le> length (pick_from step i xs) * step"
proof (induction step i xs rule: pick_from.induct)
  case (1 step i xs)
  show ?case
  proof (cases "i < length xs")
    case True
    with 1 have "length (pick_from step (i + step) xs) * step < length xs - (i + step) + step \<and>
      length xs - (i + step) \<le> length (pick_from step (i + step) xs) * step" by simp
    moreover have "length (pick_from step i xs) = Suc (length (pick_from step (i + step) xs))"
      using True 1(2) by (subst pick_from.simps) simp
    ultimately show ?thesis using True by (cases "i + step \<le> length xs") auto
  qed (subst pick_from.simps, use 1 in simp)
qed

lemma length_final_sample: "length xs > 5000 \<Longrightarrow> 5000 \<le> length (final_sample xs) \<and> length (final_sample xs) < 10000"
proof -
  assume l: "length xs > 5000"
  define st where "st = length xs div 5000"
  have s: "1 \<le> st" "5000 * st \<le> length xs" "length xs < 5000 * st + 5000" using l by (simp_all add: st_def)
  let ?n = "length (final_sample xs)"
  have n: "?n * st < length xs + st" "length xs \<le> ?n * st"
    using length_pick_from [of st 0 xs] s(1) l by (simp_all add: final_sample_def st_def)
  have "5000 * st \<le> ?n * st" using s n by linarith
  then have "5000 \<le> ?n" using s(1) by simp
  moreover have "?n < 10000"
  proof (rule ccontr)
    assume "\<not> ?n < 10000"
    then have "10000 * st \<le> ?n * st" by simp
    with n s have "st = 1" by linarith
    with n s \<open>10000 * st \<le> ?n * st\<close> show False by linarith
  qed
  ultimately show ?thesis by simp
qed

section \<open>Lemmas: a run ends\<close>

definition sizes_ok :: "chaos_options \<Rightarrow> bool" where
  "sizes_ok opts \<longleftrightarrow> 0 \<le> cx_objectMin opts \<and> cx_objectMin opts \<le> cx_objectMax opts"

lemma next_content_total:
  assumes "rng_ok g" "sizes_ok opts"
  shows "\<exists>r. next_content g opts s = Some r"
proof (cases "cx_objectMax opts > cx_objectMin opts")
  case True
  obtain n s' where n: "rg_Intn g (nat (cx_objectMax opts - cx_objectMin opts)) s = (n, s')" by fastforce
  have "fst (rg_Intn g (nat (cx_objectMax opts - cx_objectMin opts)) s) < nat (cx_objectMax opts - cx_objectMin opts)"
    using assms(1) True by (simp add: rng_ok_def)
  with n True assms(2) show ?thesis by (auto simp: next_content_def sizes_ok_def)
qed (use assms in \<open>simp add: next_content_def sizes_ok_def\<close>)

lemma worker_turn_total:
  assumes "rng_ok (xe_rng env)" "sizes_ok opts" "order \<noteq> []"
  shows "\<exists>r. worker_turn env opts order s x = Some r"
proof -
  have "\<exists>r. doRead env order s1 x = Some r" for s1
    using assms(3) by (auto simp: doRead_def split: prod.splits option.splits sum.splits)
  moreover have "\<exists>r. doWrite env opts order s1 x = Some r" for s1
    using next_content_total [OF assms(1,2), of s1] assms(3) by (auto simp: doWrite_def Let_def split: prod.splits sum.splits)
  moreover have "\<not> cx_objectMax opts < 0" using assms(2) by (simp add: sizes_ok_def)
  ultimately show ?thesis by (simp add: worker_turn_def split: prod.split)
qed

lemma traffic_total:
  assumes "rng_ok (xe_rng env)" "sizes_ok opts" "order \<noteq> []"
  shows "\<exists>ts'. traffic env opts order es ts = Some ts'"
proof (induction es arbitrary: ts)
  case (Cons e es)
  have "\<exists>t. traffic_turn env opts order e ts = Some t"
    using worker_turn_total [OF assms] by (cases e) auto
  with Cons show ?case by auto
qed simp

lemma no_fault_pending:
  assumes "traffic env opts order es ts = Some ts'" "cx_noFaults opts" "ij_pending (ts_inj ts) = None"
  shows "ij_pending (ts_inj ts') = None"
  using assms(1,3)
proof (induction es arbitrary: ts)
  case (Cons e es)
  then obtain t where t: "traffic_turn env opts order e ts = Some t" "traffic env opts order es t = Some ts'"
    by (auto simp: Option.bind_eq_Some_conv)
  have "ts_inj t = ts_inj ts" using t(1) assms(2) by (cases e) (auto split: if_splits)
  with Cons.IH [OF t(2)] Cons.prems(2) show ?case by simp
qed simp

lemma fault_start_ends: "ij_pending (fst (fault_start env opts now j w)) = None"
  by (auto simp: fault_start_def Let_def split: option.split prod.split)

lemma started_pending:
  assumes "traffic env opts order (es @ [StartNode now]) ts = Some ts'" "ij_pending (ts_inj ts) = None"
  shows "ij_pending (ts_inj ts') = None"
proof (cases "cx_noFaults opts")
  case True
  with no_fault_pending [OF assms(1) _ assms(2)] show ?thesis by simp
next
  case False
  from assms(1) obtain t where "traffic_turn env opts order (StartNode now) t = Some ts'"
    by (auto simp: traffic_append Option.bind_eq_Some_conv)
  with False fault_start_ends [of env opts now "ts_inj t" "ch_world (ts_chaos t)"] show ?thesis
    by (auto simp: on_injector_def split: prod.splits)
qed

lemma poll_ready_leaves:
  "poll_ready bad tr deadline url clock w = Some (Inr True, clock', w') \<Longrightarrow> (now, ctx) \<in> set clock \<Longrightarrow> \<not> now < deadline \<Longrightarrow>
     (now, ctx) \<in> set clock'"
  by (induction bad tr deadline url clock w rule: poll_ready.induct) (auto split: if_splits option.splits sum.splits prod.splits)

lemma waitAllReady_ends:
  assumes "(now, ctx) \<in> set clock" "\<not> now < deadline"
  shows "\<exists>r. waitAllReady env deadline dur ns clock w = Some r"
  using assms(1)
proof (induction ns arbitrary: clock w)
  case (Cons n ns)
  obtain r where r: "poll_ready (xe_bad env) (xe_do env) deadline (tg_URL n) clock w = Some r"
    using poll_ready_ends [OF bexI [OF _ Cons.prems]] assms(2) by fastforce
  obtain a c v where a: "r = (a, c, v)" by (cases r) auto
  show ?case
  proof (cases "a = Inr True")
    case True
    with Cons.IH [OF poll_ready_leaves [OF r [unfolded a True] Cons.prems assms(2)]] r a show ?thesis by simp
  qed (use r a in \<open>auto split: sum.splits bool.splits\<close>)
qed simp

lemma converge_loop_ends:
  assumes "(t1, t2, t3, dn) \<in> set rounds" "t3 > cx_convergeWait opts"
  shows "\<exists>r. converge_loop env opts order sample first rounds cv w = Some r"
  using assms(1)
proof (induction rounds arbitrary: first cv w)
  case (Cons r rounds)
  with assms(2) show ?case by (cases r) (auto simp: Let_def split: prod.split)
qed simp

lemma measureConvergence_ends:
  assumes "(t1, t2, t3, dn) \<in> set rounds" "t3 > cx_convergeWait opts"
  obtains rep' w' where "measureConvergence env opts order rounds l rep w = Some (rep', w')"
proof -
  obtain a b where s: "convergence_sample l = (a, b)" by fastforce
  obtain r where r: "converge_loop env opts order (a @ b) True rounds
      ((rp_Convergence rep)\<lparr>cv_FromRefusedWrites := length a, cv_FromAckedWrites := length b,
         cv_Attempted := True, cv_ObjectsChecked := length (a @ b)\<rparr>) w = Some r"
    by (rule exE [OF converge_loop_ends [OF assms]])
  obtain cv' w' where "r = (cv', w')" by fastforce
  then have "measureConvergence env opts order rounds l rep w =
      Some (if l_keys l = [] \<and> refusedKeys l = [] then (rep, w) else (rep\<lparr>rp_Convergence := cv'\<rparr>, w'))"
    using r by (simp add: measureConvergence_def s Let_def)
  then show ?thesis by (cases "l_keys l = [] \<and> refusedKeys l = []") (simp_all add: that)
qed

lemma judge_ends:
  assumes "(now, ctx) \<in> set (ci_after inp)" "\<not> now < ci_restored inp + 120 * second"
    "(t1, t2, t3, dn) \<in> set (ci_rounds inp)" "t3 > cx_convergeWait opts"
  shows "\<exists>rep' w'. judge env opts order inp l c rep w = Some (rep', w')"
proof -
  obtain e1 w1 where 1: "restoreAll env opts order w = (e1, w1)" by fastforce
  obtain e2 w2 where 2: "waitAllReady env (ci_restored inp + 120 * second) ''2m0s'' order (ci_after inp) w1 = Some (e2, w2)"
    using waitAllReady_ends [OF assms(1,2)] by fast
  obtain rep1 w3 where 3: "collectNodeStats env order rep w2 = (rep1, w3)" by fastforce
  obtain rep2 w4 where 4: "measureConvergence env opts order (ci_rounds inp) l rep1 w3 = Some (rep2, w4)"
    by (rule measureConvergence_ends [OF assms(3,4)])
  show ?thesis by (simp add: judge_def 1 2 3 4 Let_def split: prod.split)
qed

lemma runChaos_ends:
  assumes "rng_ok (xe_rng env)" "sizes_ok opts" "order \<noteq> []"
    "(nowa, ctxa) \<in> set (ci_before inp)" "\<not> nowa < ci_start inp + 60 * second"
    "(nowb, ctxb) \<in> set (ci_after inp)" "\<not> nowb < ci_restored inp + 120 * second"
    "(ta, tb, tc, dn) \<in> set (ci_rounds inp)" "tc > cx_convergeWait opts"
    "cx_noFaults opts \<or> (\<exists>es t. ci_events inp = es @ [StartNode t])"
  shows "\<exists>rep e w'. runChaos env opts order inp w = Some (rep, e, w') \<and>
    (rep = None \<longleftrightarrow> (\<exists>x w0. waitAllReady env (ci_start inp + 60 * second) ''1m0s'' order (ci_before inp) w = Some (Some x, w0)))"
proof -
  obtain e0 w0 where 0: "waitAllReady env (ci_start inp + 60 * second) ''1m0s'' order (ci_before inp) w = Some (e0, w0)"
    using waitAllReady_ends [OF assms(4,5)] by fast
  show ?thesis
  proof (cases e0)
    case None
    obtain ts where ts: "traffic env opts order (ci_events inp) (start_traffic env opts w0) = Some ts"
      using traffic_total [OF assms(1-3)] by blast
    have "ij_pending (ts_inj (start_traffic env opts w0)) = None" by (simp add: start_traffic_def)
    with no_fault_pending [OF ts] started_pending [of env opts order _ _ "start_traffic env opts w0" ts] ts assms(10)
    have p: "ij_pending (ts_inj ts) = None" by auto
    let ?x = "ts_chaos ts"
    obtain rep' w' where j: "judge env opts order inp (ch_led ?x) (ch_cnt ?x)
        (buildReport opts (ch_cnt ?x) (ij_events (ts_inj ts)) (ci_elapsed inp) (ci_now inp)) (ch_world ?x) = Some (rep', w')"
      using judge_ends [OF assms(6-9)] by blast
    show ?thesis using 0 None ts p j by (cases "ci_write inp") (auto simp: runChaos_def Let_def)
  qed (use 0 in \<open>simp add: runChaos_def\<close>)
qed

section \<open>Example\<close>

text \<open>A driver whose random numbers alternate writes and reads of objects of one byte, against node \<open>a\<close> of the
  example cluster.\<close>

definition ex_rng :: "nat rng" where
  "ex_rng = \<lparr>rg_Seed = (\<lambda>i. 0), rg_Intn = (\<lambda>n s. (0, s)), rg_Uint32 = (\<lambda>s. (97, s)),
     rg_Float64 = (\<lambda>s. (Fin (if even s then 1 else 0), s + 1)), rg_Read = (\<lambda>n s. (replicate n (CHR ''a''), s))\<rparr>"

definition ex_chaos_env :: "'w transport \<Rightarrow> (nat, 'w) chaos_env" where
  "ex_chaos_env tr = \<lparr>xe_sha = ex_sha, xe_rng = ex_rng, xe_bad = (\<lambda>u. None), xe_do = tr,
     xe_compose = (\<lambda>args w. (('''', None), w)), xe_decode = (\<lambda>b. Inr []), xe_ovf = (\<lambda>f. 0)\<rparr>"

definition ex_chaos_opts :: chaos_options where
  "ex_chaos_opts = \<lparr>cx_nodes = [''a''], cx_duration = 60 * second, cx_workers = 1, cx_readRatio = Fin (1 / 2),
     cx_objectMin = 1, cx_objectMax = 3, cx_faultEvery = second, cx_faultDown = second, cx_convergeWait = 10, cx_out = '''',
     cx_composeFile = '''', cx_composeProject = '''', cx_seed = 1, cx_noFaults = False\<rparr>"

definition ex_targets :: "target list" where
  "ex_targets = [\<lparr>tg_Name = ''a'', tg_URL = ''http://a:1''\<rparr>]"

definition ex_chaos_inputs :: "'w chaos_inputs" where
  "ex_chaos_inputs = \<lparr>ci_before = [(0, None), (60 * second, None)], ci_start = 0,
     ci_events = [Turn 0, Turn 0, StopNode 1, Turn 0, StartNode 2], ci_elapsed = 3, ci_now = 3,
     ci_after = [(120 * second, None)], ci_restored = 0, ci_rounds = [(1, 2, 11, \<lambda>i. False)], ci_write = None\<rparr>"

definition ex_chaos_sys :: system where
  "ex_chaos_sys = (ex_sys (\<lambda>x y. NetOk))\<lparr>sy_mux := (\<lambda>n r w. (notFound [])\<lparr>rs_status := 200\<rparr>)\<rparr>"

lemmas ex_chaos = ex_rng_def ex_chaos_env_def ex_chaos_opts_def ex_targets_def ex_chaos_inputs_def second_def

lemma ex_rng_ok: "rng_ok ex_rng"
  by (simp add: rng_ok_def ex_rng_def)

lemma ex_sizes_ok: "sizes_ok ex_chaos_opts"
  by (simp add: sizes_ok_def ex_chaos_opts_def)

lemma ex_chaos_hosts: "sy_hosts ex_chaos_sys h = Some n \<Longrightarrow> n \<noteq> ''''"
  by (auto simp: ex_chaos_sys_def ex_sys_def ex_hosts_def split: if_splits)

lemma ex_chaos_ready:
  "waitAllReady (ex_chaos_env (client_net ex_chaos_sys ''driver'')) (ci_start inp + 60 * second) ''1m0s'' ex_targets
     [(ci_start inp, None), (ci_start inp + 60 * second, None)] w = Some (None, w)"
  by (simp add: ex_chaos client_net_def NewRequest_def ex_chaos_sys_def ex_sys_def ex_hosts_def node_serve_def nodeHeader_def
      routeCache_def isCachePath_def trim_prefix_def sent_body_def write_error_def)

section \<open>What a report is worth\<close>

text \<open>C32: The driver raises no false alarm. Against a cluster whose CAS objects match their keys at the start
  (restarts by the fault injector and the changes it does not cause keep that), the final verification
  finds no corrupted object. A read during the traffic counts as corrupted only if at some moment a node
  held bytes with the digest, and not the length, of acknowledged ones: a collision of SHA-256. Without
  one the run's exit status is only that of writing the report.\<close>

theorem chaos_no_false_alarm:
  assumes "runChaos env opts order inp w = Some (Some rep, e, w')" "xe_do env = client_net sys client" "xe_sha env = sy_sha sys"
    and "rng_ok (xe_rng env)" "\<And>b. length (sy_sha sys b) = 32" "all_cas_ok (sy_sha sys) w" "\<And>h n. sy_hosts sys h = Some n \<Longrightarrow> n \<noteq> ''''"
    and "\<And>args v. all_cas_ok (sy_sha sys) v \<Longrightarrow> all_cas_ok (sy_sha sys) (snd (xe_compose env args v))"
    and "\<And>f v. Change f \<in> set (ci_events inp) \<Longrightarrow> all_cas_ok (sy_sha sys) v \<Longrightarrow> all_cas_ok (sy_sha sys) (f v)"
  shows "fv_Corrupted (rp_Final rep) = 0 \<and>
    (rp_CorruptedReads rep = 0 \<longrightarrow> e = ci_write inp) \<and>
    (rp_CorruptedReads rep = 0 \<or>
     (\<exists>w0 k ts b d. traffic env opts order (take k (ci_events inp)) (start_traffic env opts w0) = Some ts \<and>
        hex_encode (sy_sha sys b) \<in> set (l_keys (ch_led (ts_chaos ts))) \<and>
        (\<exists>n. held (ch_world (ts_chaos ts)) n (NamespaceCAS, hex_encode (sy_sha sys b)) = Some d) \<and>
        sy_sha sys d = sy_sha sys b \<and> length d \<noteq> length b))"
proof -
  have x: "e = ci_write inp" if a: "rp_CorruptedReads rep = 0" "fv_Corrupted (rp_Final rep) = 0"
    by (rule runChaos_parts [OF assms(1)]) (use a in blast)
  have h: "fv_Corrupted (rp_Final rep) = 0 \<and>
    (rp_CorruptedReads rep = 0 \<or>
     (\<exists>w0 k ts b d. traffic env opts order (take k (ci_events inp)) (start_traffic env opts w0) = Some ts \<and>
        hex_encode (sy_sha sys b) \<in> set (l_keys (ch_led (ts_chaos ts))) \<and>
        (\<exists>n. held (ch_world (ts_chaos ts)) n (NamespaceCAS, hex_encode (sy_sha sys b)) = Some d) \<and>
        sy_sha sys d = sy_sha sys b \<and> length d \<noteq> length b))"
    by (rule hc.runChaos_honest [OF assms(1-5)]) (use assms(6-9) in blast)+
  show ?thesis by (intro conjI impI conjunct1 [OF h] conjunct2 [OF h] x)
qed

theorem chaos_no_false_alarm_witness:
  "\<exists>rep e w'. runChaos (ex_chaos_env (client_net ex_chaos_sys ''driver'')) ex_chaos_opts ex_targets ex_chaos_inputs ex_node = Some (Some rep, e, w') \<and>
     fv_Corrupted (rp_Final rep) = 0"
proof -
  let ?env = "ex_chaos_env (client_net ex_chaos_sys ''driver'')" and ?inp = "ex_chaos_inputs :: world chaos_inputs"
  have "\<exists>rep e w'. runChaos ?env ex_chaos_opts ex_targets ?inp ex_node = Some (rep, e, w') \<and>
    (rep = None \<longleftrightarrow> (\<exists>x w0. waitAllReady ?env (ci_start ?inp + 60 * second) ''1m0s'' ex_targets (ci_before ?inp) ex_node = Some (Some x, w0)))"
    by (rule runChaos_ends [where ctxa = None and ctxb = None and nowa = "60 * second" and nowb = "120 * second"
          and ta = 1 and tb = 2 and tc = 11 and dn = "\<lambda>i. False"])
      (use ex_rng_ok ex_sizes_ok in \<open>simp_all add: ex_chaos_env_def ex_targets_def ex_chaos_inputs_def ex_chaos_opts_def\<close>)
  moreover have "waitAllReady ?env (ci_start ?inp + 60 * second) ''1m0s'' ex_targets (ci_before ?inp) ex_node = Some (None, ex_node)"
    using ex_chaos_ready [of ?inp ex_node] by (simp add: ex_chaos_inputs_def)
  ultimately obtain rep e w' where r: "runChaos ?env ex_chaos_opts ex_targets ?inp ex_node = Some (Some rep, e, w')" by auto
  have "fv_Corrupted (rp_Final rep) = 0"
  proof (rule chaos_no_false_alarm [where sys = ex_chaos_sys and client = "''driver''", OF r, THEN conjunct1])
    show "rng_ok (xe_rng ?env)" using ex_rng_ok by (simp add: ex_chaos_env_def)
    show "all_cas_ok (sy_sha ex_chaos_sys) ex_node" using ex_all_cas_ok by (simp add: ex_chaos_sys_def ex_sys_def)
  qed (auto simp: ex_chaos_env_def ex_chaos_sys_def ex_sys_def ex_sha_def ex_chaos_inputs_def ex_hosts_def split: if_splits)
  with r show ?thesis by blast
qed

text \<open>C34: The final verification of a wired cluster changes no stored object and accounts for every sampled key
  exactly once. It finds nothing corrupted, and when it counts an acknowledged object as missing, then
  there is one that no member of an asked node's ring holds.\<close>

theorem final_verify_sound:
  assumes "finalVerify env order (\<lambda>i. False) l c (buildReport opts c faults elapsed now) w = ((rep, c'), w')"
    and "xe_do env = client_net sys client" "xe_sha env = sy_sha sys" "wired sys N w" "all_cas_ok (sy_sha sys) w"
    and "\<forall>n \<in> N. co_peers (w n)" "plain_faults sys" "\<forall>k \<in> set (l_keys l). valid_key k"
  shows "held w' = held w \<and> fv_ObjectsChecked (rp_Final rep) = length (final_sample (l_keys l)) \<and>
    fv_Correct (rp_Final rep) + fv_Missing (rp_Final rep) + fv_Unreadable (rp_Final rep) = fv_ObjectsChecked (rp_Final rep) \<and>
    fv_Corrupted (rp_Final rep) = 0 \<and> k_CorruptedReads c' = k_CorruptedReads c \<and>
    (fv_Missing (rp_Final rep) > 0 \<longrightarrow>
       (\<exists>key \<in> set (l_keys l). \<exists>n \<in> N. \<forall>m \<in> set (r_members (co_ring (w n))). held w (m_Name m) (NamespaceCAS, key) = None))"
proof -
  let ?s = "final_sample (l_keys l)" and ?r = "rp_Final (buildReport opts c faults elapsed now)"
  obtain fc w1 where "verify_keys env order (\<lambda>i. False) 0 ?s (?r\<lparr>fv_ObjectsChecked := length ?s\<rparr>, c) w = (fc, w1)" by fastforce
  moreover obtain fv c1 where "fc = (fv, c1)" by fastforce
  ultimately have v: "verify_keys env order (\<lambda>i. False) 0 ?s (?r\<lparr>fv_ObjectsChecked := length ?s\<rparr>, c) w = ((fv, c1), w1)" by simp
  have e: "rp_Final rep = fv" "c' = c1" "w' = w1" using assms(1) v by (auto simp: finalVerify_def Let_def)
  have k: "\<forall>k \<in> set ?s. valid_key k" using final_sample_subset [of "l_keys l"] assms(8) by blast
  have z: "fv_Correct ?r = 0" "fv_Corrupted ?r = 0" "fv_Missing ?r = 0" "fv_Unreadable ?r = 0" by (simp_all add: buildReport_def Let_def)
  have h: "\<forall>h n. sy_hosts sys h = Some n \<longrightarrow> n \<noteq> ''''" using assms(4) by (auto simp: wired_def)
  have "fv_Corrupted fv = 0 \<and> k_CorruptedReads c1 = k_CorruptedReads c"
    using hc.verify_keys_honest [OF v assms(2,3) conjI [OF assms(5) h] k] z by simp
  with verify_keys_sound [OF v assms(2,4,6,7) k] z e final_sample_subset [of "l_keys l"] show ?thesis by auto
qed

theorem final_verify_sound_witness:
  "\<exists>rep c' w'. finalVerify (ex_chaos_env (client_net (ex_sys (\<lambda>x y. NetOk)) ''driver'')) ex_targets (\<lambda>i. False) (led_add ex_cas_key 2 newLedger)
       zero_counters (buildReport ex_chaos_opts zero_counters [] 0 0) ex_stored = ((rep, c'), w') \<and>
     held w' = held ex_stored \<and> fv_Correct (rp_Final rep) + fv_Missing (rp_Final rep) + fv_Unreadable (rp_Final rep) = 1"
proof -
  let ?env = "ex_chaos_env (client_net (ex_sys (\<lambda>x y. NetOk)) ''driver'')" and ?l = "led_add ex_cas_key 2 newLedger"
  let ?r = "buildReport ex_chaos_opts zero_counters [] 0 0"
  obtain rc w' where "finalVerify ?env ex_targets (\<lambda>i. False) ?l zero_counters ?r ex_stored = (rc, w')" by fastforce
  moreover obtain rep c' where "rc = (rep, c')" by fastforce
  ultimately have r: "finalVerify ?env ex_targets (\<lambda>i. False) ?l zero_counters ?r ex_stored = ((rep, c'), w')" by simp
  have l: "l_keys ?l = [ex_cas_key]" by (simp add: led_add_def newLedger_def)
  have "held w' = held ex_stored \<and> fv_Correct (rp_Final rep) + fv_Missing (rp_Final rep) + fv_Unreadable (rp_Final rep) = 1"
    using final_verify_sound [OF r _ _ ex_stored_facts(1) _ _ ex_stored_facts(3)] ex_stored_facts(2) ex_cas_key_valid
    by (simp add: l final_sample_def ex_chaos_env_def ex_sys_def ex_stored_def)
  with r show ?thesis by blast
qed







text \<open>C37: The sample of the final verification has all keys up to 5000 of them. Above, its size is only kept below
  twice that number, although the code names 5000 its maximum: of 9999 keys it takes all.\<close>

theorem final_sample_bounds:
  fixes keys :: "key list"
  shows "set (final_sample keys) \<subseteq> set keys \<and> (length keys \<le> 5000 \<longrightarrow> final_sample keys = keys) \<and>
    (5000 < length keys \<longrightarrow> 5000 \<le> length (final_sample keys) \<and> length (final_sample keys) < 10000) \<and>
    (5000 < length keys \<and> length keys < 10000 \<longrightarrow> length (final_sample keys) = length keys)"
proof -
  have "length (final_sample keys) = length keys" if l: "5000 < length keys" "length keys < 10000"
  proof -
    have "length keys div 5000 = 1" using l by (simp add: div_nat_eqI)
    then show ?thesis using l length_pick_from [of 1 0 keys] by (simp add: final_sample_def)
  qed
  with final_sample_subset [of keys] length_final_sample [of keys] show ?thesis by (auto simp: final_sample_def)
qed

theorem final_sample_bounds_witness:
  "5000 < length (final_sample (replicate 9999 ''k''))"
  using final_sample_bounds [of "replicate 9999 ''k''"] by simp

end
