(* ===== verification/BenchTheorems.thy ===== *)
theory BenchTheorems
  imports BenchScenarios ChaosTheorems
begin

text \<open>
  What the numbers of the benchmark mean: its runs account for every measured request, the objects of a write
  run are distinct, the median and the spread describe the repetitions, and the preload confirms what it says.
\<close>

section \<open>Lemmas: accounting\<close>

definition recorded :: "RunSpec \<Rightarrow> ('s, 'w) bench_run \<Rightarrow> nat" where
  "recorded spec st = (\<Sum>i<nat (sp_Concurrency spec). length (lt_samples (br_lats st i)))"

definition run_books :: "RunSpec \<Rightarrow> ('s, 'w) bench_run \<Rightarrow> bool" where
  "run_books spec st \<longleftrightarrow> br_ops st = br_errs st + int (recorded spec st) \<and> 0 \<le> br_misses st \<and> br_misses st \<le> int (recorded spec st) \<and>
     br_verifyNG st = 0 \<and> distinct (mkeys (br_errSamples st)) \<and> length (br_errSamples st) \<le> 32 \<and>
     sum_list (map snd (br_errSamples st)) \<le> br_errs st \<and>
     (length (br_errSamples st) < 32 \<longrightarrow> sum_list (map snd (br_errSamples st)) = br_errs st)"

lemma recorded_add:
  assumes "int i < sp_Concurrency spec"
  shows "(\<Sum>j<nat (sp_Concurrency spec). length (lt_samples ((f(i := lat_Add d (f i))) j))) =
    Suc (\<Sum>j<nat (sp_Concurrency spec). length (lt_samples (f j)))"
proof -
  have i: "i \<in> {..<nat (sp_Concurrency spec)}" using assms by simp
  show ?thesis
    by (subst (1 2) sum.remove [OF _ i]) (simp_all add: lat_Add_def)
qed

lemma sum_mput_new: "k \<notin> set (mkeys m) \<Longrightarrow> sum_list (map snd (mput k v m)) = sum_list (map snd m) + (v :: int)"
  by (induction k v m rule: mput.induct) auto

lemma sum_mput_old: "mget m k = Some n \<Longrightarrow> sum_list (map snd (mput k (n + 1) m)) = sum_list (map snd m) + (1 :: int)"
  by (induction m) (auto simp: mget_def split: if_splits)

lemma noteErr_sum:
  "sum_list (map snd (noteErr e m)) \<le> sum_list (map snd m) + 1"
  "length (noteErr e m) \<le> max 32 (length m)" "length m \<le> length (noteErr e m)"
  "length (noteErr e m) < 32 \<Longrightarrow> sum_list (map snd (noteErr e m)) = sum_list (map snd m) + 1"
  "distinct (mkeys m) \<Longrightarrow> distinct (mkeys (noteErr e m))"
proof -
  have n: "mget m k = None \<longleftrightarrow> k \<notin> set (mkeys m)" for k by (simp add: mget_def map_of_eq_None_iff)
  have l: "mget m k = None \<Longrightarrow> length (mput k v m) = length m + 1" "mget m k = Some x \<Longrightarrow> length (mput k v m) = length m" for k v x
    by (induction m) (auto split: if_splits)
  have k: "mget m k = Some v \<Longrightarrow> mkeys (mput k v' m) = mkeys m" for k v v'
    by (induction m) (auto simp: mget_def split: if_splits)
  have new: "mget m k = None \<Longrightarrow> sum_list (map snd (mput k 1 m)) = sum_list (map snd m) + 1" for k
    by (simp only: n sum_mput_new not_False_eq_True)
  show "sum_list (map snd (noteErr e m)) \<le> sum_list (map snd m) + 1"
    by (cases "mget m (error_text e)") (simp_all add: noteErr_def new sum_mput_old)
  show "length (noteErr e m) \<le> max 32 (length m)" "length m \<le> length (noteErr e m)"
    by (cases "mget m (error_text e)"; simp add: noteErr_def l)+
  show "length (noteErr e m) < 32 \<Longrightarrow> sum_list (map snd (noteErr e m)) = sum_list (map snd m) + 1"
    by (cases "mget m (error_text e)") (auto simp: noteErr_def new sum_mput_old split: if_splits)
  show "distinct (mkeys m) \<Longrightarrow> distinct (mkeys (noteErr e m))"
    by (auto simp: noteErr_def k split: option.split intro!: distinct_mput)
qed

lemma account_books:
  assumes "run_books spec st" "int i < sp_Concurrency spec"
  shows "run_books spec (account i elapsed dn r st)"
proof -
  obtain n miss err where r: "r = (n, miss, err)" by (cases r)
  note add = recorded_add [OF assms(2), of "br_lats st" elapsed]
  show ?thesis
  proof (cases err)
    case None
    then show ?thesis using assms(1) add by (simp add: account_def r run_books_def recorded_def Let_def del: of_nat_sum)
  next
    case (Some e)
    then show ?thesis
      using assms(1) noteErr_sum [where e = e and m = "br_errSamples st"] by (auto simp: account_def r run_books_def recorded_def Let_def)
  qed
qed

lemma bench_turn_books:
  assumes "bench_turn env spec e st = Some st'" "run_books spec st"
  shows "run_books spec st'"
proof (cases e)
  case (Request i elapsed dn)
  show ?thesis
  proof (cases "int i < sp_Concurrency spec")
    case True
    then obtain r s' g' w' where
      "st' = account i elapsed dn r (st\<lparr>br_world := w', br_rngs := (br_rngs st)(i := s'), br_gens := (br_gens st)(i := g')\<rparr>)"
      using assms(1) Request by (auto split: option.splits)
    moreover have "run_books spec (st\<lparr>br_world := w', br_rngs := (br_rngs st)(i := s'), br_gens := (br_gens st)(i := g')\<rparr>)"
      using assms(2) by (simp add: run_books_def recorded_def)
    ultimately show ?thesis using account_books [OF _ True] by simp
  qed (use assms Request in simp)
qed (use assms in \<open>auto simp: run_books_def recorded_def\<close>)

lemma bench_turns_books: "bench_turns env spec es st = Some st' \<Longrightarrow> run_books spec st \<Longrightarrow> run_books spec st'"
proof (induction es arbitrary: st)
  case (Cons e es)
  then obtain st1 where "bench_turn env spec e st = Some st1" "bench_turns env spec es st1 = Some st'"
    by (auto simp: Option.bind_eq_Some_conv)
  with Cons.IH Cons.prems(2) bench_turn_books show ?case by blast
qed simp

lemma start_books_run: "run_books spec (start_run env spec w)"
  by (simp add: run_books_def recorded_def start_run_def NewLatencies_def)

lemma merged_length:
  "length (lt_samples (foldl lat_Merge l ls)) = length (lt_samples l) + sum_list (map (\<lambda>l. length (lt_samples l)) ls)"
  by (induction ls arbitrary: l) (simp_all add: lat_Merge_def)

lemma Summarize_count: "sm_Count (Summarize ovf l) = length (lt_samples l)"
  by (simp add: Summarize_def zero_summary_def Let_def)

section \<open>Lemmas: fresh objects\<close>

lemma length_put_uint64 [simp]: "length (put_uint64 v) = 8"
  by (simp add: put_uint64_def)

lemma put_uint64_inj:
  assumes "put_uint64 v = put_uint64 u"
  shows "v = u"
proof (rule bit_word_eqI)
  fix n assume n: "n < LENGTH(64)"
  let ?i = "7 - n div 8"
  have i: "?i < 8" "56 - 8 * ?i = 8 * (n div 8)" using n by simp_all
  have "put_uint64 v ! ?i = put_uint64 u ! ?i" using assms by simp
  then have "char_of (unat (drop_bit (8 * (n div 8)) v) mod 256) = (char_of (unat (drop_bit (8 * (n div 8)) u) mod 256) :: char)"
    using i by (simp add: put_uint64_def)
  then have "of_char (char_of (unat (drop_bit (8 * (n div 8)) v) mod 256) :: char) =
      (of_char (char_of (unat (drop_bit (8 * (n div 8)) u) mod 256) :: char) :: nat)" by simp
  then have "take_bit 8 (unat (drop_bit (8 * (n div 8)) v)) = take_bit 8 (unat (drop_bit (8 * (n div 8)) u))"
    by (simp add: take_bit_eq_mod)
  then have "unat (take_bit 8 (drop_bit (8 * (n div 8)) v)) = unat (take_bit 8 (drop_bit (8 * (n div 8)) u))"
    by (simp only: unsigned_take_bit_eq)
  then have "take_bit 8 (drop_bit (8 * (n div 8)) v) = take_bit 8 (drop_bit (8 * (n div 8)) u)" by (rule unsigned_word_eqI)
  then have "bit (take_bit 8 (drop_bit (8 * (n div 8)) v)) (n mod 8) = bit (take_bit 8 (drop_bit (8 * (n div 8)) u)) (n mod 8)" by simp
  then show "bit v n = bit u n" by (simp add: bit_take_bit_iff bit_drop_bit_eq)
qed

text \<open>The content of object \<open>k\<close> of a worker.\<close>

definition stamped :: "Corpus \<Rightarrow> nat \<Rightarrow> nat \<Rightarrow> bytes" where
  "stamped c w k = put_uint64 (of_nat w) @ put_uint64 (of_nat k) @ drop 16 (ug_buf (newUniqueGen w c))"

fun gen_many :: "(bytes \<Rightarrow> bytes) \<Rightarrow> nat \<Rightarrow> uniqueGen \<Rightarrow> BenchObject list option" where
  "gen_many sha 0 g = Some []"
| "gen_many sha (Suc n) g = Option.bind (gen_next sha g) (\<lambda>(obj, g'). map_option ((#) obj) (gen_many sha n g'))"

lemma length_ug_buf:
  assumes "\<forall>obj \<in> set (cp_Objects c). length (ob_Content obj) = cp_Size c"
  shows "length (ug_buf (newUniqueGen w c)) = cp_Size c"
  using assms by (simp add: newUniqueGen_def Let_def nth_mem)

lemma gen_many_stamped:
  assumes "16 \<le> length (ug_buf g)"
  shows "gen_many sha n g = Some (map (\<lambda>k.
     let b = put_uint64 (of_nat (ug_worker g)) @ put_uint64 (ug_counter g + of_nat (Suc k)) @ drop 16 (ug_buf g)
     in \<lparr>ob_Key = hex_encode (sha b), ob_Content = b\<rparr>) [0..<n])"
  using assms
proof (induction n arbitrary: g)
  case (Suc n)
  let ?b = "put_uint64 (of_nat (ug_worker g)) @ put_uint64 (ug_counter g + 1) @ drop 16 (ug_buf g)"
  let ?g = "g\<lparr>ug_buf := ?b, ug_counter := ug_counter g + 1\<rparr>"
  have "gen_next sha g = Some (\<lparr>ob_Key = hex_encode (sha ?b), ob_Content = ?b\<rparr>, ?g)"
    using Suc.prems by (simp add: gen_next_def Let_def)
  moreover have "16 \<le> length (ug_buf ?g)" using Suc.prems by simp
  note Suc.IH [OF this]
  ultimately show ?case by (simp add: upt_conv_Cons map_Suc_upt [symmetric] Let_def algebra_simps del: upt_Suc)
qed simp

section \<open>Lemmas: median and spread\<close>

lemma insort_by_key_on:
  assumes "\<forall>y \<in> set xs. lt y x = (f y < f x)"
  shows "insort_by lt x xs = insort_key f x xs"
  using assms by (induction xs) auto

lemma sort_by_key_on:
  assumes "\<forall>x \<in> set xs. \<forall>y \<in> set xs. lt x y = (f x < f y)"
  shows "sort_by lt xs = sort_key f xs"
  using assms by (induction xs) (auto simp: insort_by_key_on)

definition rat_of :: "f64 \<Rightarrow> rat" where
  "rat_of f = (case f of Fin q \<Rightarrow> q | _ \<Rightarrow> 0)"

definition finite_f64 :: "f64 \<Rightarrow> bool" where
  "finite_f64 f \<longleftrightarrow> (\<exists>q. f = Fin q)"

lemma finite_lt: "finite_f64 a \<Longrightarrow> finite_f64 b \<Longrightarrow> f64_lt a b = (rat_of a < rat_of b)"
  by (auto simp: finite_f64_def rat_of_def)

lemma finite_le: "finite_f64 a \<Longrightarrow> finite_f64 b \<Longrightarrow> f64_le a b = (rat_of a \<le> rat_of b)"
  by (auto simp: finite_f64_def rat_of_def)

definition sound_result :: "RunResult \<Rightarrow> bool" where
  "sound_result r \<longleftrightarrow> finite_f64 (rr_OpsPerSec r) \<and> finite_f64 (rr_MiBPerSec r) \<and> finite_f64 (sm_P99Ms (rr_Latency r))"

text \<open>The loop only widens the bounds, and ends with bounds of all runs.\<close>

definition spread_covers :: "Spread \<Rightarrow> RunResult \<Rightarrow> bool" where
  "spread_covers sp r \<longleftrightarrow> f64_le (sd_MiBPerSecMin sp) (rr_MiBPerSec r) \<and> f64_le (rr_MiBPerSec r) (sd_MiBPerSecMax sp) \<and>
     f64_le (sd_P99MsMin sp) (sm_P99Ms (rr_Latency r)) \<and> f64_le (sm_P99Ms (rr_Latency r)) (sd_P99MsMax sp)"

definition sound_spread :: "Spread \<Rightarrow> bool" where
  "sound_spread sp \<longleftrightarrow> finite_f64 (sd_MiBPerSecMin sp) \<and> finite_f64 (sd_MiBPerSecMax sp) \<and> finite_f64 (sd_P99MsMin sp) \<and> finite_f64 (sd_P99MsMax sp)"

lemma widen_covers:
  assumes "sound_spread sp" "sound_result r"
  shows "sound_spread (widen sp r)" "spread_covers (widen sp r) r" "sound_result x \<Longrightarrow> spread_covers sp x \<Longrightarrow> spread_covers (widen sp r) x"
    "sd_OpsPerSecMin (widen sp r) = sd_OpsPerSecMin sp" "sd_OpsPerSecMax (widen sp r) = sd_OpsPerSecMax sp"
  using assms by (auto simp: sound_spread_def sound_result_def spread_covers_def widen_def Let_def finite_lt finite_le)

lemma foldl_widen:
  assumes "sound_spread sp" "\<forall>r \<in> set rs. sound_result r" "sound_result x" "x \<in> set rs \<or> spread_covers sp x"
  shows "spread_covers (foldl widen sp rs) x \<and> sd_OpsPerSecMin (foldl widen sp rs) = sd_OpsPerSecMin sp \<and>
    sd_OpsPerSecMax (foldl widen sp rs) = sd_OpsPerSecMax sp"
  using assms
proof (induction rs arbitrary: sp)
  case (Cons r rs)
  have r: "sound_result r" using Cons.prems(2) by simp
  note w = widen_covers [OF Cons.prems(1) r]
  have "x \<in> set rs \<or> spread_covers (widen sp r) x" using Cons.prems(3,4) w(2,3) by auto
  from Cons.IH [OF w(1) _ Cons.prems(3) this] Cons.prems(2) w(4,5) show ?case by simp
qed simp

section \<open>Lemmas: the preload\<close>

lemma verified_get:
  assumes "doGet env base key True sz w = ((n, miss, None), w')" "\<not> miss" "be_do env = client_net sys client" "be_sha env = sy_sha sys"
    "valid_key key" "all_cas_ok (sy_sha sys) w" "\<forall>h n. sy_hosts sys h = Some n \<longrightarrow> n \<noteq> ''''"
  shows "\<exists>m d. held w m (NamespaceCAS, key) = Some d \<and> int (length d) = n \<and> hex_encode (sy_sha sys d) = key"
    "held w' = held w" "all_cas_ok (sy_sha sys) w'"
proof -
  obtain req where q: "NewRequest (be_bad env) ''GET'' base (cas_path key) [] = Inr req"
    using assms(1) by (cases "NewRequest (be_bad env) ''GET'' base (cas_path key) []") (simp_all add: doGet_def)
  obtain r v where d: "client_net sys client req w = (r, v)" by fastforce
  have o: "get_outcome (sy_sha sys) key True sz r = (n, miss, None)" "w' = v" using assms(1,3,4) q d by (simp_all add: doGet_def)
  then obtain resp b where r: "r = Inr resp" "rs_status resp = 200" "rs_body resp = (b, None)" "n = int (length b)"
    using assms(2) by (auto simp: get_outcome_def split: sum.splits if_splits prod.splits option.splits)
  note k = driver_read_keeps [OF d disjI1 [OF NewRequest_Inr(1) [OF q]]]
  show "held w' = held w" "all_cas_ok (sy_sha sys) w'" using k o(2) cas_ok_steps assms(6) by simp_all
  show "\<exists>m d. held w m (NamespaceCAS, key) = Some d \<and> int (length d) = n \<and> hex_encode (sy_sha sys d) = key"
    using hc.honest [OF conjI [OF assms(6,7)] q assms(5) d [unfolded r(1)] r(2,3)] r(4) by auto
qed

lemma driver_get_up:
  assumes "NewRequest bad ''GET'' url (cas_path key) [] = Inr req" "valid_key key" "sy_hosts sys url = Some n" "sy_net sys client n = NetOk"
    "up_node sys w n" "held w n (NamespaceCAS, key) = Some d"
  shows "\<exists>resp w'. client_net sys client req w = (Inr resp, w') \<and> rs_status resp = 200 \<and> rs_body resp = (d, None) \<and>
    held w' = held w \<and> up_node sys w' n"
proof -
  note q = NewRequest_Inr [OF assms(1)] and o = driver_get [OF assms(1,2)]
  let ?req = "req\<lparr>rq_body := sent_body req\<rparr>"
  obtain resp w' where s: "node_serve sys (send sys (Suc (Suc 0))) n ?req w = (resp, w')" by fastforce
  have r: "rs_status resp = 200 \<and> rs_length resp = int (length d) \<and> rs_body resp = (d, None)"
    by (rule terminal_get_up [OF s _ _ _ assms(5,6)]) (use o in \<open>simp_all add: object_request_def\<close>)
  have c: "client_net sys client req w = (Inr (client_view ''GET'' resp), w')"
    using assms(3,4) q s by (simp add: client_net_def)
  have v: "rs_status (client_view ''GET'' resp) = 200" "rs_body (client_view ''GET'' resp) = (d, None)"
    using r by (simp_all add: client_view_def)
  note k = driver_read_keeps [OF c disjI1 [OF q(1)]]
  show ?thesis using c v k(2) steps_up [OF k(1)] assms(5) by blast
qed

lemma preload_checks_sound:
  assumes "preload_checks env base objs w = (None, w')" "be_do env = client_net sys client" "be_sha env = sy_sha sys"
    "\<forall>obj \<in> set objs. valid_key (ob_Key obj)" "all_cas_ok (sy_sha sys) w" "\<forall>h n. sy_hosts sys h = Some n \<longrightarrow> n \<noteq> ''''"
  shows "held w' = held w \<and> (\<forall>obj \<in> set objs. \<exists>m d. held w m (NamespaceCAS, ob_Key obj) = Some d \<and>
    length d = length (ob_Content obj) \<and> hex_encode (sy_sha sys d) = ob_Key obj)"
  using assms(1,4,5)
proof (induction objs arbitrary: w)
  case (Cons obj objs)
  obtain n miss err v where g0: "doGet env base (ob_Key obj) True (length (ob_Content obj)) w = ((n, miss, err), v)"
    by (metis prod_cases3 surj_pair)
  have err: "err = None" "\<not> miss" "n = int (length (ob_Content obj))" "preload_checks env base objs v = (None, w')"
    using Cons.prems(1) g0 by (auto split: option.splits if_splits)
  have k: "valid_key (ob_Key obj)" using Cons.prems(2) by simp
  note g = verified_get [OF g0 [unfolded err(1)] err(2) assms(2,3) k Cons.prems(3) assms(6)]
  from Cons.IH [OF err(4) _ g(3)] Cons.prems(2) g(1,2) err(3) show ?case by auto
qed simp

lemma doPut_keeps:
  assumes "doPut env base obj w = (r, w')" "be_do env = client_net sys client" "all_cas_ok (sy_sha sys) w"
  shows "all_cas_ok (sy_sha sys) w'"
proof (cases "NewRequest (be_bad env) ''PUT'' base (cas_path (ob_Key obj)) (ob_Content obj)")
  case (Inr req)
  obtain x v where d: "client_net sys client req w = (x, v)" by fastforce
  have "w' = v" using assms(1,2) Inr d by (simp add: doPut_def)
  with client_net_steps [OF d] cas_ok_steps assms(3) show ?thesis by (auto simp: req_steps_def)
qed (use assms in \<open>simp add: doPut_def\<close>)

lemma preload_puts_keeps:
  assumes "preload_puts env targets objs sched errs w = (errs', w')" "be_do env = client_net sys client" "all_cas_ok (sy_sha sys) w"
  shows "all_cas_ok (sy_sha sys) w'"
  using assms(1,3)
proof (induction sched arbitrary: errs w)
  case (Cons i sched)
  obtain n miss err v where d: "doPut env (targets ! (i mod length targets)) (objs ! i) w = ((n, miss, err), v)"
    by (metis prod_cases3 surj_pair)
  have "preload_puts env targets objs sched (case err of Some e \<Rightarrow> errs @ [e] | None \<Rightarrow> errs) v = (errs', w')"
    using Cons.prems(1) d by simp
  from Cons.IH [OF this doPut_keeps [OF d assms(2) Cons.prems(2)]] show ?case .
qed simp

section \<open>What a result means\<close>

text \<open>Every measured request of a run is accounted for once. Operations are the errors and the recorded
  latencies, however the workers interleave; misses are among the latter; the error samples are the
  errors, completely if fewer than 32 kinds occurred. The count of verification failures is always zero: a
  digest mismatch is counted as an error.\<close>

theorem bench_books:
  assumes "Run env spec events measured w = Some (Inr res, w')"
  shows "rr_Operations res = rr_Errors res + int (sm_Count (rr_Latency res)) \<and>
    0 \<le> rr_Misses res \<and> rr_Misses res \<le> int (sm_Count (rr_Latency res)) \<and> rr_VerifyFails res = 0 \<and>
    sum_list (map snd (rr_ErrorSamples res)) \<le> rr_Errors res \<and> length (rr_ErrorSamples res) \<le> 32 \<and>
    (length (rr_ErrorSamples res) < 32 \<longrightarrow> sum_list (map snd (rr_ErrorSamples res)) = rr_Errors res)"
proof -
  obtain st where st: "bench_turns env spec events (start_run env spec w) = Some st" "res = run_result (be_ovf env) spec measured st"
    using assms by (auto simp: Run_def split: if_splits)
  have "sm_Count (rr_Latency res) = recorded spec st"
    using st(2) by (simp add: run_result_def Let_def Summarize_count merged_length NewLatencies_def recorded_def o_def
        interv_sum_list_conv_sum_set_nat atLeast0LessThan)
  with bench_turns_books [OF st(1) start_books_run] st(2) show ?thesis by (simp add: run_result_def Let_def run_books_def)
qed

text \<open>The objects of a write run are fresh. A generator whose buffer has room for the stamp produces, as object
  \<open>k\<close> of worker \<open>w\<close>, the buffer stamped with \<open>w\<close> and \<open>k\<close> under its digest, and contents with different stamps
  differ. The content depends on nothing else but the corpus: every repetition of a run produces the
  same objects again, although the code says that no run can repeat a key of a previous one.\<close>

theorem unique_objects:
  assumes "16 \<le> cp_Size c" "\<forall>obj \<in> set (cp_Objects c). length (ob_Content obj) = cp_Size c"
  shows "gen_many sha n (newUniqueGen w c) =
      Some (map (\<lambda>k. \<lparr>ob_Key = hex_encode (sha (stamped c w (Suc k))), ob_Content = stamped c w (Suc k)\<rparr>) [0..<n]) \<and>
    (\<forall>v w i j. v < 2 ^ 64 \<and> w < 2 ^ 64 \<and> i < 2 ^ 64 \<and> j < 2 ^ 64 \<and> stamped c v i = stamped c w j \<longrightarrow> v = w \<and> i = j)"
proof (intro conjI allI impI)
  have l: "16 \<le> length (ug_buf (newUniqueGen w c))" using assms(1,2) by (simp add: length_ug_buf)
  have "ug_counter (newUniqueGen w c) = 0" "ug_worker (newUniqueGen w c) = w" by (simp_all add: newUniqueGen_def Let_def)
  with gen_many_stamped [OF l] show "gen_many sha n (newUniqueGen w c) =
      Some (map (\<lambda>k. \<lparr>ob_Key = hex_encode (sha (stamped c w (Suc k))), ob_Content = stamped c w (Suc k)\<rparr>) [0..<n])"
    by (simp add: stamped_def Let_def)
  fix v w i j assume a: "v < 2 ^ 64 \<and> w < 2 ^ 64 \<and> i < 2 ^ 64 \<and> j < 2 ^ 64 \<and> stamped c v i = stamped c w j"
  have "put_uint64 (of_nat v) = put_uint64 (of_nat w)" "put_uint64 (of_nat i) = put_uint64 (of_nat j)"
    using a by (simp_all add: stamped_def append_eq_append_conv)
  then have "(of_nat v :: 64 word) = of_nat w" "(of_nat i :: 64 word) = of_nat j" by (simp_all add: put_uint64_inj)
  then have "unat (of_nat v :: 64 word) = unat (of_nat w :: 64 word)" "unat (of_nat i :: 64 word) = unat (of_nat j :: 64 word)" by simp_all
  then show "v = w" "i = j" using a by (simp_all add: unat_of_nat)
qed

theorem unique_objects_example:
  "gen_many ex_sha 2 (newUniqueGen 3 \<lparr>cp_Name = ''x'', cp_Seed = 1, cp_Size = 16, cp_Objects = []\<rparr>) =
    Some (map (\<lambda>k. \<lparr>ob_Key = hex_encode (ex_sha (stamped \<lparr>cp_Name = ''x'', cp_Seed = 1, cp_Size = 16, cp_Objects = []\<rparr> 3 (Suc k))),
      ob_Content = stamped \<lparr>cp_Name = ''x'', cp_Seed = 1, cp_Size = 16, cp_Objects = []\<rparr> 3 (Suc k)\<rparr>) [0..<2])"
  using unique_objects [of "\<lparr>cp_Name = ''x'', cp_Seed = 1, cp_Size = 16, cp_Objects = []\<rparr>" ex_sha 2 3] by simp

lemma sorted_below:
  fixes f :: "'a \<Rightarrow> rat"
  assumes "sorted (map f ys)" "k < length ys"
  shows "length (filter (\<lambda>y. f y < f (ys ! k)) ys) \<le> k" "length (filter (\<lambda>y. f (ys ! k) < f y) ys) < length ys - k"
proof -
  have mono: "f (ys ! i) \<le> f (ys ! j)" if "i \<le> j" "j < length ys" for i j
    using sorted_nth_mono [OF assms(1), of i j] that by simp
  have hi: "\<not> f y < f (ys ! k)" if y: "y \<in> set (drop k ys)" for y
  proof -
    obtain i where "i < length (drop k ys)" "y = drop k ys ! i" using y unfolding in_set_conv_nth by blast
    then have "y = ys ! (k + i)" "k + i < length ys" by simp_all
    then show ?thesis using mono [of k "k + i"] by (simp add: not_less)
  qed
  have lo: "\<not> f (ys ! k) < f y" if y: "y \<in> set (take (Suc k) ys)" for y
  proof -
    obtain i where "i < length (take (Suc k) ys)" "y = take (Suc k) ys ! i" using y unfolding in_set_conv_nth by blast
    then have "y = ys ! i" "i \<le> k" by simp_all
    then show ?thesis using mono [of i k] assms(2) by (simp add: not_less)
  qed
  have "length (filter P ys) = length (filter P (take n ys)) + length (filter P (drop n ys))" for P n
    by (metis append_take_drop_id filter_append length_append)
  note split = this
  have "length (filter (\<lambda>y. f y < f (ys ! k)) (take k ys)) \<le> k" by (rule order_trans [OF length_filter_le]) simp
  moreover have "filter (\<lambda>y. f y < f (ys ! k)) (drop k ys) = []" using hi by (simp add: filter_empty_conv)
  ultimately show "length (filter (\<lambda>y. f y < f (ys ! k)) ys) \<le> k" using split [of _ k] by simp
  have "length (filter (\<lambda>y. f (ys ! k) < f y) (drop (Suc k) ys)) \<le> length ys - Suc k" by (rule order_trans [OF length_filter_le]) simp
  moreover have "filter (\<lambda>y. f (ys ! k) < f y) (take (Suc k) ys) = []" using lo by (simp add: filter_empty_conv)
  ultimately show "length (filter (\<lambda>y. f (ys ! k) < f y) ys) < length ys - k" using split [of _ "Suc k"] assms(2) by simp
qed

text \<open>The summary of repetitions is honest. For runs with finite figures, the reported median is one of the
  runs, at most half of the runs are slower and fewer than half (rounded up) are faster, and the spread bounds
  throughput, transfer rate and 99th percentile of every run.\<close>

theorem summarise_spread:
  assumes "runs \<noteq> []" "\<forall>r \<in> set runs. sound_result r"
  shows "\<exists>m sp. summarise runs = Some (m, sp) \<and> m \<in> set runs \<and>
    length (filter (\<lambda>r. f64_lt (rr_OpsPerSec r) (rr_OpsPerSec m)) runs) \<le> length runs div 2 \<and>
    length (filter (\<lambda>r. f64_lt (rr_OpsPerSec m) (rr_OpsPerSec r)) runs) < length runs - length runs div 2 \<and>
    (\<forall>r \<in> set runs. f64_le (sd_OpsPerSecMin sp) (rr_OpsPerSec r) \<and> f64_le (rr_OpsPerSec r) (sd_OpsPerSecMax sp) \<and> spread_covers sp r)"
proof -
  let ?f = "\<lambda>r. rat_of (rr_OpsPerSec r)" and ?n = "length runs"
  define ys where "ys = sort_by (\<lambda>a b. f64_lt (rr_OpsPerSec a) (rr_OpsPerSec b)) runs"
  have fin: "finite_f64 (rr_OpsPerSec r)" if "r \<in> set runs" for r using assms(2) that by (simp add: sound_result_def)
  have ys: "set ys = set runs" "length ys = ?n" "mset ys = mset runs" by (simp_all add: ys_def)
  have "ys = sort_key ?f runs" unfolding ys_def by (rule sort_by_key_on) (simp add: finite_lt fin)
  then have sorted: "sorted (map ?f ys)" by simp
  have n: "0 < ?n" "?n div 2 < ?n" "?n - 1 < ?n" using assms(1) by simp_all
  define m where "m = ys ! (?n div 2)"
  have m: "m \<in> set runs" unfolding m_def ys(1) [symmetric] using n ys(2) by (intro nth_mem) simp
  have ends: "ys ! 0 \<in> set runs" "ys ! (?n - 1) \<in> set runs" unfolding ys(1) [symmetric] using n ys(2) by (intro nth_mem; simp)+
  let ?sp0 = "\<lparr>sd_OpsPerSecMin = rr_OpsPerSec (ys ! 0), sd_OpsPerSecMax = rr_OpsPerSec (ys ! (?n - 1)), sd_MiBPerSecMin = rr_MiBPerSec (ys ! 0),
     sd_MiBPerSecMax = rr_MiBPerSec (ys ! (?n - 1)), sd_P99MsMin = sm_P99Ms (rr_Latency (ys ! 0)),
     sd_P99MsMax = sm_P99Ms (rr_Latency (ys ! (?n - 1))), sd_RelativeRange = Fin 0\<rparr>"
  define sp where "sp = foldl widen ?sp0 ys"
  let ?x = "if f64_lt (Fin 0) (rr_OpsPerSec m)
     then f64_div (f64_add (sd_OpsPerSecMax sp) (f64_neg (sd_OpsPerSecMin sp))) (rr_OpsPerSec m) else sd_RelativeRange sp"
  define x where "x = ?x"
  have "sp\<lparr>sd_RelativeRange := sd_RelativeRange sp\<rparr> = sp" by simp
  moreover have "summarise runs = Some (m, if f64_lt (Fin 0) (rr_OpsPerSec m)
      then sp\<lparr>sd_RelativeRange := f64_div (f64_add (sd_OpsPerSecMax sp) (f64_neg (sd_OpsPerSecMin sp))) (rr_OpsPerSec m)\<rparr> else sp)"
    unfolding summarise_def Let_def ys_def [symmetric] ys(2) m_def [symmetric] sp_def [symmetric] using assms(1) by simp
  ultimately have s: "summarise runs = Some (m, sp\<lparr>sd_RelativeRange := x\<rparr>)"
    unfolding x_def by (cases "f64_lt (Fin 0) (rr_OpsPerSec m)") simp_all
  have "sound_spread ?sp0" using ends assms(2) by (simp add: sound_spread_def sound_result_def)
  note w = foldl_widen [OF this, of ys, folded sp_def]
  have c: "spread_covers sp r \<and> sd_OpsPerSecMin sp = rr_OpsPerSec (ys ! 0) \<and> sd_OpsPerSecMax sp = rr_OpsPerSec (ys ! (?n - 1))"
    if "r \<in> set runs" for r
    using w [of r] that assms(2) ys(1) by simp
  have "f64_le (rr_OpsPerSec (ys ! 0)) (rr_OpsPerSec r) \<and> f64_le (rr_OpsPerSec r) (rr_OpsPerSec (ys ! (?n - 1)))" if r: "r \<in> set runs" for r
  proof -
    obtain i where i: "i < length ys" "r = ys ! i" using r unfolding ys(1) [symmetric] in_set_conv_nth by blast
    have "?f (ys ! 0) \<le> ?f r" "?f r \<le> ?f (ys ! (?n - 1))"
      using sorted_nth_mono [OF sorted, of 0 i] sorted_nth_mono [OF sorted, of i "?n - 1"] i ys(2) n by auto
    then show ?thesis using fin [OF ends(1)] fin [OF ends(2)] fin [OF r] by (simp add: finite_le)
  qed
  with c have cov: "\<forall>r \<in> set runs. f64_le (sd_OpsPerSecMin (sp\<lparr>sd_RelativeRange := x\<rparr>)) (rr_OpsPerSec r) \<and>
      f64_le (rr_OpsPerSec r) (sd_OpsPerSecMax (sp\<lparr>sd_RelativeRange := x\<rparr>)) \<and> spread_covers (sp\<lparr>sd_RelativeRange := x\<rparr>) r"
    by (simp add: spread_covers_def)
  have cnt: "length (filter P ys) = length (filter P runs)" for P using ys(3) by (metis mset_filter size_mset)
  have lt: "filter (\<lambda>r. f64_lt (rr_OpsPerSec r) (rr_OpsPerSec m)) runs = filter (\<lambda>r. ?f r < ?f m) runs"
    "filter (\<lambda>r. f64_lt (rr_OpsPerSec m) (rr_OpsPerSec r)) runs = filter (\<lambda>r. ?f m < ?f r) runs"
    by (intro filter_cong refl; simp add: finite_lt fin m)+
  note b = sorted_below [OF sorted, of "?n div 2", unfolded ys(2) m_def [symmetric] cnt, folded lt]
  show ?thesis using s m cov b n(2) by blast
qed

section \<open>The preload\<close>

lemma doGet_up:
  assumes "be_do env = client_net sys client" "be_sha env = sy_sha sys" "be_bad env (base @ cas_path key) = None" "valid_key key"
    "sy_hosts sys base = Some n" "sy_net sys client n = NetOk" "up_node sys w n" "held w n (NamespaceCAS, key) = Some d"
    "hex_encode (sy_sha sys d) = key"
  shows "\<exists>w'. doGet env base key True sz w = ((int (length d), False, None), w') \<and> held w' = held w \<and> up_node sys w' n"
proof -
  obtain req where q: "NewRequest (be_bad env) ''GET'' base (cas_path key) [] = Inr req" using assms(3) by (simp add: NewRequest_def)
  obtain resp w' where "client_net sys client req w = (Inr resp, w')" "rs_status resp = 200" "rs_body resp = (d, None)"
    "held w' = held w" "up_node sys w' n"
    using driver_get_up [OF q assms(4-8)] by blast
  with q assms(1,2,9) show ?thesis by (simp add: doGet_def get_outcome_def)
qed

lemma preload_checks_up:
  assumes "be_do env = client_net sys client" "be_sha env = sy_sha sys" "\<And>u. be_bad env u = None"
    "sy_hosts sys base = Some n" "sy_net sys client n = NetOk" "up_node sys w n"
    "\<forall>obj \<in> set objs. valid_key (ob_Key obj) \<and> held w n (NamespaceCAS, ob_Key obj) = Some (ob_Content obj) \<and>
       hex_encode (sy_sha sys (ob_Content obj)) = ob_Key obj"
  shows "\<exists>w'. preload_checks env base objs w = (None, w')"
  using assms(6,7)
proof (induction objs arbitrary: w)
  case (Cons obj objs)
  have o: "valid_key (ob_Key obj)" "held w n (NamespaceCAS, ob_Key obj) = Some (ob_Content obj)" "hex_encode (sy_sha sys (ob_Content obj)) = ob_Key obj"
    using Cons.prems(2) by simp_all
  obtain w' where g: "doGet env base (ob_Key obj) True (length (ob_Content obj)) w = ((int (length (ob_Content obj)), False, None), w')"
    "held w' = held w" "up_node sys w' n"
    using doGet_up [OF assms(1,2,3) o(1) assms(4,5) Cons.prems(1) o(2,3)] by blast
  have "\<exists>w2. preload_checks env base objs w' = (None, w2)" using Cons.IH [OF g(3)] Cons.prems(2) g(2) by simp
  with g(1) show ?case by simp
qed simp


section \<open>Examples\<close>

definition ex_bench_env :: "'w transport \<Rightarrow> (nat, 'w) bench_env" where
  "ex_bench_env tr = \<lparr>be_sha = ex_sha, be_rng = ex_rng, be_bad = (\<lambda>u. None), be_do = tr, be_ovf = (\<lambda>f. 0),
     be_parseFloat = (\<lambda>s. None), be_replicas = (\<lambda>b. None)\<rparr>"

definition ex_corpus :: Corpus where
  "ex_corpus = \<lparr>cp_Name = ''x'', cp_Seed = 1, cp_Size = 2, cp_Objects = [\<lparr>ob_Key = ex_cas_key, ob_Content = ex_body\<rparr>]\<rparr>"

definition ex_spec :: RunSpec where
  "ex_spec = \<lparr>sp_Scenario = ''x'', sp_Op = OpGet, sp_Concurrency = 2, sp_Duration = 1, sp_Warmup = 1, sp_Corpus = ex_corpus,
     sp_MissKeys = [], sp_HitRatio = Fin 0, sp_Targets = [''http://a:1''], sp_Verify = True\<rparr>"

lemma ex_run:
  "\<exists>res w'. Run (ex_bench_env (\<lambda>req w. (Inr (notFound []), w))) ex_spec [Request 0 5 False, Measure, Request 1 7 False] 9 () = Some (Inr res, w') \<and>
     rr_Misses res = 1"
  by (simp add: Run_def ex_spec_def ex_bench_env_def ex_rng_def doOne_def get_object_def ex_corpus_def doGet_def NewRequest_def Let_def
      start_run_def account_def get_outcome_def run_result_def notFound_def httpError_def)

theorem bench_books_example:
  "\<exists>res w'. Run (ex_bench_env (\<lambda>req w. (Inr (notFound []), w))) ex_spec [Request 0 5 False, Measure, Request 1 7 False] 9 () = Some (Inr res, w') \<and>
     rr_Operations res = rr_Errors res + int (sm_Count (rr_Latency res)) \<and> rr_Misses res = 1"
proof -
  obtain res w' where r: "Run (ex_bench_env (\<lambda>req w. (Inr (notFound []), w))) ex_spec [Request 0 5 False, Measure, Request 1 7 False] 9 () = Some (Inr res, w')"
    "rr_Misses res = 1"
    using ex_run by blast
  with bench_books [OF r(1)] show ?thesis by blast
qed

definition ex_result :: "rat \<Rightarrow> RunResult" where
  "ex_result q = \<lparr>rr_Scenario = '''', rr_Op = '''', rr_Concurrency = 1, rr_DurationS = Fin 1, rr_Operations = 1, rr_Errors = 0, rr_Misses = 0,
     rr_Bytes = 0, rr_OpsPerSec = Fin q, rr_MiBPerSec = Fin 0, rr_ErrorRate = Fin 0, rr_Latency = zero_summary, rr_VerifyFails = 0,
     rr_ErrorSamples = [], rr_ObjectSizeBytes = 1\<rparr>"

theorem summarise_spread_example:
  "\<exists>m sp. summarise [ex_result 3, ex_result 1, ex_result 2] = Some (m, sp) \<and> f64_le (sd_OpsPerSecMin sp) (Fin 1) \<and> f64_le (Fin 3) (sd_OpsPerSecMax sp)"
proof -
  have "\<forall>r \<in> set [ex_result 3, ex_result 1, ex_result 2]. sound_result r"
    by (simp add: sound_result_def ex_result_def finite_f64_def zero_summary_def)
  from summarise_spread [OF _ this] obtain m sp where s: "summarise [ex_result 3, ex_result 1, ex_result 2] = Some (m, sp)"
    "\<forall>r \<in> set [ex_result 3, ex_result 1, ex_result 2]. f64_le (sd_OpsPerSecMin sp) (rr_OpsPerSec r) \<and> f64_le (rr_OpsPerSec r) (sd_OpsPerSecMax sp)"
    by blast
  have "f64_le (sd_OpsPerSecMin sp) (rr_OpsPerSec (ex_result 1))" "f64_le (rr_OpsPerSec (ex_result 3)) (sd_OpsPerSecMax sp)" using s(2) by simp_all
  with s(1) show ?thesis by (simp add: ex_result_def)
qed


end
