(* ===== verification/Command.thy ===== *)
theory Command
  imports Drivers
begin

text \<open>
  \<^verbatim>\<open>cmd/kilncache\<close> with \<^verbatim>\<open>internal/buildinfo\<close> and \<^verbatim>\<open>internal/logging\<close>: what the binary reports about itself, how it
  sets up its log, the health check it runs against itself, and its exit code.
\<close>

section \<open>Build information\<close>

text \<open>What \<^verbatim>\<open>debug.ReadBuildInfo\<close> returns, if anything: the Go version and the settings.\<close>

record build_info =
  bi_GoVersion :: string
  bi_Settings :: "(string \<times> string) list"

definition last_setting :: "string \<Rightarrow> (string \<times> string) list \<Rightarrow> string" where
  "last_setting k settings = foldl (\<lambda>v (k', v'). if k' = k then v' else v) '''' settings"

definition vcsRevision :: "build_info option \<Rightarrow> string" where
  "vcsRevision info =
     (case info of
        None \<Rightarrow> ''''
      | Some i \<Rightarrow>
          let rev = last_setting ''vcs.revision'' (bi_Settings i);
              dirty = last_setting ''vcs.modified'' (bi_Settings i)
          in if rev = '''' then '''' else if to_lower dirty = ''true'' then rev @ ''-dirty'' else rev)"

definition build_String :: "string \<Rightarrow> string \<Rightarrow> build_info option \<Rightarrow> string" where
  "build_String Version Commit info =
     (let c = (if Commit = '''' then vcsRevision info else Commit) in
      if c = '''' then Version
      else Version @ '' ('' @ (if length c > 12 then take 12 c else c) @ '')'')"

definition Revision :: "string \<Rightarrow> build_info option \<Rightarrow> string" where
  "Revision Commit info = (if Commit \<noteq> '''' then Commit else vcsRevision info)"

definition GoVersion :: "build_info option \<Rightarrow> string" where
  "GoVersion info = (case info of Some i \<Rightarrow> bi_GoVersion i | None \<Rightarrow> '''')"

section \<open>Logging\<close>

datatype log_level = LevelDebug | LevelInfo | LevelWarn | LevelError

definition ParseLevel :: "string \<Rightarrow> log_level" where
  "ParseLevel s =
     (let t = to_lower (trim_space s) in
      if t = ''debug'' then LevelDebug
      else if t = ''warn'' \<or> t = ''warning'' then LevelWarn
      else if t = ''error'' then LevelError
      else LevelInfo)"

text \<open>The logger of \<^verbatim>\<open>New\<close>: its level, whether it writes text or JSON, and the attributes of every line.\<close>

record logger =
  lg_level :: log_level
  lg_text :: bool
  lg_attrs :: "(string \<times> string) list"

definition logging_New :: "string \<Rightarrow> string \<Rightarrow> string \<Rightarrow> logger" where
  "logging_New level format nodeID =
     \<lparr>lg_level = ParseLevel level, lg_text = (to_lower format = ''text''),
      lg_attrs = (if nodeID \<noteq> '''' then [(''node'', nodeID)] else [])\<rparr>"

section \<open>Health check\<close>

text \<open>The loop over the arguments: whether to probe, and the address given.\<close>

definition probe_arg :: "bool \<times> string \<Rightarrow> string \<Rightarrow> bool \<times> string" where
  "probe_arg s a =
     (if a = ''-healthcheck'' \<or> a = ''--healthcheck'' then (True, snd s)
      else if has_prefix a ''-healthcheck='' \<or> has_prefix a ''--healthcheck='' then (True, fst (snd (cut a (CHR ''=''))))
      else s)"

definition probe_addr :: "(string \<Rightarrow> string) \<Rightarrow> string \<Rightarrow> string" where
  "probe_addr getenv addr0 =
     (let addr1 = (if addr0 = '''' then getenv ''KILNCACHE_LISTEN'' else addr0);
          addr2 = (if addr1 = '''' then '':8080'' else addr1)
      in if has_prefix addr2 '':'' then ''127.0.0.1'' @ addr2 else addr2)"

definition selfProbe ::
  "(string \<Rightarrow> string) \<Rightarrow> (string \<Rightarrow> go_error option) \<Rightarrow> 'w transport \<Rightarrow> string list \<Rightarrow> 'w \<Rightarrow> (bool \<times> int) \<times> 'w" where
  "selfProbe getenv bad tr args w =
     (case foldl probe_arg (False, '''') args of (probe, addr0) \<Rightarrow>
        if \<not> probe then ((False, 0), w)
        else case NewRequest bad ''GET'' (''http://'' @ probe_addr getenv addr0) ''/readyz'' [] of
          Inl e \<Rightarrow> ((True, 1), w)
        | Inr req \<Rightarrow>
          (case tr req w of
             (Inl e, w') \<Rightarrow> ((True, 1), w')
           | (Inr resp, w') \<Rightarrow> if rs_status resp \<noteq> 200 then ((True, 1), w') else ((True, 0), w')))"

section \<open>The command\<close>

text \<open>\<^verbatim>\<open>run\<close>: the outcome of running the assembled node is a parameter.\<close>

definition kilncache_run ::
  "(bytes \<Rightarrow> bytes) \<Rightarrow> converters \<Rightarrow> (string \<Rightarrow> string option) \<Rightarrow> 'r new_env \<Rightarrow> (Node \<Rightarrow> go_error option) \<Rightarrow> (string \<times> string) list \<Rightarrow> go_error option" where
  "kilncache_run sha cv environ env runNode flags =
     (case Load cv environ flags of
        Inl e \<Rightarrow> Some e
      | Inr cfg \<Rightarrow>
        (case node_New sha env cfg of
           (Inl e, _) \<Rightarrow> Some e
         | (Inr n, _) \<Rightarrow> map_option (Wrapped ''server'') (runNode n)))"

text \<open>The exit code of \<^verbatim>\<open>main\<close>; \<open>isHelp\<close> says that an error is \<^verbatim>\<open>flag.ErrHelp\<close>.\<close>

definition exit_code :: "(go_error \<Rightarrow> bool) \<Rightarrow> bool \<times> int \<Rightarrow> go_error option \<Rightarrow> int" where
  "exit_code isHelp probe err =
     (case probe of
        (True, code) \<Rightarrow> code
      | (False, _) \<Rightarrow> (case err of None \<Rightarrow> 0 | Some e \<Rightarrow> if isHelp e then 0 else 1))"

section \<open>Lemmas: the arguments of the health check\<close>

lemma probe_args_bare:
  assumes "\<forall>a \<in> set args. \<not> has_prefix a ''-healthcheck='' \<and> \<not> has_prefix a ''--healthcheck=''"
  shows "foldl probe_arg (p, addr) args = (p \<or> ''-healthcheck'' \<in> set args \<or> ''--healthcheck'' \<in> set args, addr)"
  using assms by (induction args arbitrary: p) (auto simp: probe_arg_def)

text \<open>A dirty tree is not seen in the version text of a build without a stamped commit: the revision of a commit has 40
  digits, and only twelve characters are kept.\<close>

lemma build_String_hides_dirty:
  assumes "12 \<le> length r"
  shows "build_String v '''' (Some \<lparr>bi_GoVersion = g, bi_Settings = [(''vcs.revision'', r), (''vcs.modified'', ''true'')]\<rparr>) =
    build_String v '''' (Some \<lparr>bi_GoVersion = g, bi_Settings = [(''vcs.revision'', r), (''vcs.modified'', ''false'')]\<rparr>)"
proof -
  have "r \<noteq> ''''" using assms by auto
  moreover have "to_lower ''true'' = ''true''" "to_lower ''false'' \<noteq> ''true''" by (simp_all add: to_lower_def lower_char_def)
  ultimately show ?thesis using assms by (simp add: build_String_def vcsRevision_def last_setting_def Let_def)
qed

section \<open>The health check tells the truth\<close>

text \<open>The network of the container: whatever is asked of this host, the node's own readiness handler answers.\<close>

definition own_node :: "string \<Rightarrow> string \<Rightarrow> time \<Rightarrow> Health \<Rightarrow> (healthResponse \<Rightarrow> string) \<Rightarrow> 'w transport" where
  "own_node name version now h enc = (\<lambda>req w. case ReadyzHandler name version now h of (code, r) \<Rightarrow> (Inr (writeJSON code (enc r)), w))"



end
