(* ===== verification/Router.thy ===== *)
theory Router
  imports Command
begin

text \<open>
  \<^verbatim>\<open>internal/httpapi\<close> around the cache handler: the recorders that watch a response on its way out, the access log,
  the recovery from panics, the request metrics, the statistics page and the routes of the node.

  A handler is what it does to its writer: a list of calls, and whether it panics at the end.
\<close>

section \<open>The writer\<close>

text \<open>The writer of \<^verbatim>\<open>net/http\<close>: the first final status is sent, an informational one is not the status of the
  response, and a write without a status sends 200. A write takes as many bytes as the writer accepts, which is an argument of
  the call: fewer when the connection fails or the declared length is reached.\<close>

record writer =
  wr_status :: "nat option"
  wr_body :: bytes

datatype wcall = WriteHeader nat | Write bytes nat | ReadFrom bytes nat | Flush

definition send_header :: "nat \<Rightarrow> writer \<Rightarrow> writer" where
  "send_header code w = 
     (if 100 \<le> code \<and> code < 200 \<and> code \<noteq> 101 then w
      else case wr_status w of None \<Rightarrow> w\<lparr>wr_status := Some code\<rparr> | Some _ \<Rightarrow> w)"

fun raw_call :: "wcall \<Rightarrow> writer \<Rightarrow> writer" where
  "raw_call (WriteHeader code) w = send_header code w"
| "raw_call (Write p n) w = (send_header 200 w)\<lparr>wr_body := wr_body w @ take n p\<rparr>"
| "raw_call (ReadFrom p n) w = (send_header 200 w)\<lparr>wr_body := wr_body w @ take n p\<rparr>"
| "raw_call Flush w = send_header 200 w"

section \<open>Recorders\<close>

text \<open>\<^verbatim>\<open>responseRecorder\<close>, which the access log puts around the writer. Zero is no status yet. The writer of
  \<^verbatim>\<open>net/http\<close> implements \<^verbatim>\<open>io.ReaderFrom\<close> and \<^verbatim>\<open>http.Flusher\<close>.\<close>

record responseRecorder =
  rc_writer :: writer
  rc_status :: nat
  rc_bytes :: int

definition rr_note :: "nat \<Rightarrow> responseRecorder \<Rightarrow> responseRecorder" where
  "rr_note code r = (if rc_status r = 0 then r\<lparr>rc_status := code\<rparr> else r)"

fun rec_call :: "wcall \<Rightarrow> responseRecorder \<Rightarrow> responseRecorder" where
  "rec_call (WriteHeader code) r = (rr_note code r)\<lparr>rc_writer := raw_call (WriteHeader code) (rc_writer r)\<rparr>"
| "rec_call (Write p n) r =
     (rr_note 200 r)\<lparr>rc_writer := raw_call (Write p n) (rc_writer r), rc_bytes := rc_bytes r + int (length (take n p))\<rparr>"
| "rec_call (ReadFrom p n) r =
     (rr_note 200 r)\<lparr>rc_writer := raw_call (ReadFrom p n) (rc_writer r), rc_bytes := rc_bytes r + int (length (take n p))\<rparr>"
| "rec_call Flush r = r\<lparr>rc_writer := raw_call Flush (rc_writer r)\<rparr>"

definition rec_Status :: "responseRecorder \<Rightarrow> nat" where
  "rec_Status r = (if rc_status r = 0 then 200 else rc_status r)"

definition new_recorder :: "writer \<Rightarrow> responseRecorder" where
  "new_recorder w = \<lparr>rc_writer = w, rc_status = 0, rc_bytes = 0\<rparr>"

text \<open>\<^verbatim>\<open>statusRecorder\<close>, which the cache handler puts around the recorder of the access log.\<close>

record statusRecorder =
  sr_writer :: responseRecorder
  sr_status :: nat

definition sr_note :: "nat \<Rightarrow> statusRecorder \<Rightarrow> statusRecorder" where
  "sr_note code r = (if sr_status r = 0 then r\<lparr>sr_status := code\<rparr> else r)"

fun stat_call :: "wcall \<Rightarrow> statusRecorder \<Rightarrow> statusRecorder" where
  "stat_call (WriteHeader code) r = (sr_note code r)\<lparr>sr_writer := rec_call (WriteHeader code) (sr_writer r)\<rparr>"
| "stat_call (Write p n) r = (sr_note 200 r)\<lparr>sr_writer := rec_call (Write p n) (sr_writer r)\<rparr>"
| "stat_call (ReadFrom p n) r = (sr_note 200 r)\<lparr>sr_writer := rec_call (ReadFrom p n) (sr_writer r)\<rparr>"
| "stat_call Flush r = r\<lparr>sr_writer := rec_call Flush (sr_writer r)\<rparr>"

definition stat_Status :: "statusRecorder \<Rightarrow> nat" where
  "stat_Status r = (if sr_status r = 0 then 200 else sr_status r)"

section \<open>Access log and recovery\<close>

record log_line =
  ll_level :: log_level
  ll_method :: string
  ll_path :: string
  ll_status :: nat
  ll_bytes_out :: int
  ll_bytes_in :: int
  ll_duration_ms :: f64
  ll_forwarded_by :: string

definition access_level :: "nat \<Rightarrow> log_level" where
  "access_level status =
     (if status \<ge> 500 then LevelError
      else if status \<ge> 400 \<and> status \<noteq> 404 then LevelWarn
      else if status = 404 then LevelDebug
      else LevelInfo)"

text \<open>\<^verbatim>\<open>AccessLog\<close>: the handler's calls go through a recorder; a panic passes by the log line.\<close>

definition AccessLog :: "http_req \<Rightarrow> time \<Rightarrow> wcall list \<times> bool \<Rightarrow> writer \<Rightarrow> writer \<times> bool \<times> log_line list" where
  "AccessLog req dur h w =
     (case h of (calls, panics) \<Rightarrow>
        let r = fold rec_call calls (new_recorder w) in
        (rc_writer r, panics,
         if panics then []
         else [\<lparr>ll_level = access_level (rec_Status r), ll_method = rq_method req, ll_path = rq_path req, ll_status = rec_Status r,
                ll_bytes_out = rc_bytes r, ll_bytes_in = rq_length req,
                ll_duration_ms = f64_div (f64_of_int (dur sdiv 1000)) (Fin 1000),
                ll_forwarded_by = header_get (rq_headers req) HeaderForwardedBy\<rparr>]))"

text \<open>\<^verbatim>\<open>Recover\<close>: \<^verbatim>\<open>http.Error\<close> on whatever the writer has become; \<open>n\<close> bytes of its text are accepted.\<close>

definition internal_error :: bytes where
  "internal_error = ''internal error'' @ [CHR 0x0A]"

definition Recover :: "nat \<Rightarrow> writer \<times> bool \<Rightarrow> writer" where
  "Recover n h = (case h of (w, panics) \<Rightarrow> if panics then fold raw_call [WriteHeader 500, Write internal_error n] w else w)"

text \<open>The two around a handler, as \<^verbatim>\<open>NewRouter\<close> nests them.\<close>

definition watched :: "http_req \<Rightarrow> time \<Rightarrow> nat \<Rightarrow> wcall list \<times> bool \<Rightarrow> writer \<Rightarrow> writer \<times> log_line list" where
  "watched req dur n h w = (case AccessLog req dur h w of (w1, panics, lines) \<Rightarrow> (Recover n (w1, panics), lines))"

section \<open>Request metrics\<close>

record requestCounters =
  rm_total :: "(string \<times> string \<times> string, int) gomap"
  rm_duration :: "(string \<times> string, f64 list) gomap"
  rm_inflight :: "(string, int) gomap"
  rm_forwarded :: "(string, int) gomap"

definition madd :: "'k \<Rightarrow> int \<Rightarrow> ('k, int) gomap \<Rightarrow> ('k, int) gomap" where
  "madd k d m = mput k ((case mget m k of Some n \<Rightarrow> n | None \<Rightarrow> 0) + d) m"

definition ObserveRequest :: "string \<Rightarrow> string \<Rightarrow> string \<Rightarrow> time \<Rightarrow> requestCounters \<Rightarrow> requestCounters" where
  "ObserveRequest op ns status d m =
     m\<lparr>rm_total := madd (op, ns, status) 1 (rm_total m),
       rm_duration := mput (op, ns) ((case mget (rm_duration m) (op, ns) of Some ds \<Rightarrow> ds | None \<Rightarrow> []) @ [Seconds d]) (rm_duration m)\<rparr>"

definition ObserveForwarded :: "string \<Rightarrow> requestCounters \<Rightarrow> requestCounters" where
  "ObserveForwarded hop m = m\<lparr>rm_forwarded := madd (if hop = '''' then ''client'' else hop) 1 (rm_forwarded m)\<rparr>"

text \<open>What \<^verbatim>\<open>ServeHTTP\<close> of the cache handler observes: at the start, and, even if the handler panics, at the end.\<close>

definition observe_start :: "http_req \<Rightarrow> requestCounters \<Rightarrow> requestCounters" where
  "observe_start req m =
     (let m1 = ObserveForwarded (hop_string (inboundHop req)) m in m1\<lparr>rm_inflight := madd (opName (rq_method req)) 1 (rm_inflight m1)\<rparr>)"

definition observe_end :: "http_req \<Rightarrow> string \<Rightarrow> nat \<Rightarrow> time \<Rightarrow> requestCounters \<Rightarrow> requestCounters" where
  "observe_end req ns status d m =
     (let m1 = ObserveRequest (opName (rq_method req)) ns (show_nat status) d m
      in m1\<lparr>rm_inflight := madd (opName (rq_method req)) (- 1) (rm_inflight m1)\<rparr>)"

section \<open>Routes\<close>

datatype endpoint = EpHealthz | EpReadyz | EpMetrics | EpStats | PprofIndex | PprofCmdline | PprofProfile | PprofSymbol | PprofTrace | EpRoot

record RouterOptions =
  ro_DevMode :: bool
  ro_Metrics :: bool

text \<open>The patterns of \<^verbatim>\<open>NewRouter\<close>: method, path, whether the path is a prefix, and the handler.\<close>

definition router_patterns :: "RouterOptions \<Rightarrow> (string \<times> string \<times> bool \<times> endpoint) list" where
  "router_patterns opts =
     [(''GET'', ''/healthz'', False, EpHealthz), (''GET'', ''/readyz'', False, EpReadyz)]
     @ (if ro_Metrics opts then [(''GET'', ''/metrics'', False, EpMetrics)] else [])
     @ [(''GET'', ''/stats'', False, EpStats)]
     @ (if ro_DevMode opts
        then [(''GET'', ''/debug/pprof/'', True, PprofIndex), (''GET'', ''/debug/pprof/cmdline'', False, PprofCmdline),
              (''GET'', ''/debug/pprof/profile'', False, PprofProfile), (''GET'', ''/debug/pprof/symbol'', False, PprofSymbol),
              (''POST'', ''/debug/pprof/symbol'', False, PprofSymbol), (''GET'', ''/debug/pprof/trace'', False, PprofTrace)]
        else [])
     @ [(''GET'', ''/'', False, EpRoot)]"

text \<open>\<^verbatim>\<open>http.ServeMux\<close> on a clean path: \<^verbatim>\<open>GET\<close> patterns also match \<^verbatim>\<open>HEAD\<close>, and an exact pattern goes before a prefix.
  \<open>Inl\<close> is the status of a request that no pattern matches: a redirection to the prefix pattern whose path only lacks its last
  slash, 405 where another method would match the path with or without that slash, 404 otherwise.\<close>

definition path_matches :: "string \<Rightarrow> string \<times> string \<times> bool \<times> endpoint \<Rightarrow> bool" where
  "path_matches path p = (case p of (_, pat, pre, _) \<Rightarrow> if pre then has_prefix path pat else path = pat)"

definition method_matches :: "string \<Rightarrow> string \<times> string \<times> bool \<times> endpoint \<Rightarrow> bool" where
  "method_matches method p = (case p of (m, _) \<Rightarrow> method = m \<or> method = ''HEAD'' \<and> m = ''GET'')"

definition route :: "RouterOptions \<Rightarrow> string \<Rightarrow> string \<Rightarrow> nat + endpoint" where
  "route opts method path =
     (let pats = router_patterns opts;
          ps = filter (path_matches path) pats;
          ms = filter (method_matches method) ps;
          exact = filter (\<lambda>(_, _, pre, _). \<not> pre) ms;
          slashed = filter (\<lambda>(_, pat, pre, _). pre \<and> pat = path @ ''/'') pats
      in case exact @ ms of
           (_, _, _, e) # _ \<Rightarrow> Inr e
         | [] \<Rightarrow> Inl (if filter (method_matches method) slashed \<noteq> [] then 301 else if ps @ slashed \<noteq> [] then 405 else 404))"

text \<open>The page of \<^verbatim>\<open>StatsHandler\<close>: the provider's sections replace fields of the same name.\<close>

definition StatsHandler :: "string \<Rightarrow> string \<Rightarrow> time \<Rightarrow> time \<Rightarrow> string \<Rightarrow> json_object \<Rightarrow> json_object" where
  "StatsHandler node version started now nowText sections =
     fold (\<lambda>(k, v) m. mput k v m) sections
       [(''node'', JStr node), (''version'', JStr version), (''uptime_seconds'', JNum (Seconds (now - started))), (''now'', JStr nowText)]"

section \<open>Lemmas: the recorder\<close>

text \<open>A handler that only sends final status codes and does not flush before it has sent one.\<close>

fun header_first :: "bool \<Rightarrow> wcall list \<Rightarrow> bool" where
  "header_first sent [] = True"
| "header_first sent (WriteHeader c # cs) = (200 \<le> c \<and> header_first True cs)"
| "header_first sent (Flush # cs) = (sent \<and> header_first sent cs)"
| "header_first sent (c # cs) = header_first True cs"

definition rec_ok :: "responseRecorder \<Rightarrow> bool" where
  "rec_ok r \<longleftrightarrow> (wr_status (rc_writer r) = None \<longleftrightarrow> rc_status r = 0) \<and> (\<forall>s. wr_status (rc_writer r) = Some s \<longrightarrow> rc_status r = s) \<and>
     rc_bytes r = int (length (wr_body (rc_writer r)))"

lemma rec_call_writer: "rc_writer (rec_call c r) = raw_call c (rc_writer r)"
  by (cases c) (simp_all add: rr_note_def)

lemma fold_rec_writer: "rc_writer (fold rec_call cs r) = fold raw_call cs (rc_writer r)"
  by (induction cs arbitrary: r) (simp_all add: rec_call_writer)

lemma fold_rec_ok:
  assumes "header_first (rc_status r \<noteq> 0) cs" "rec_ok r"
  shows "rec_ok (fold rec_call cs r)"
  using assms
proof (induction cs arbitrary: r)
  case (Cons c cs)
  have "header_first (rc_status (rec_call c r) \<noteq> 0) cs" "rec_ok (rec_call c r)"
    using Cons.prems by (cases c; auto simp: rec_ok_def rr_note_def send_header_def split: option.splits if_splits)+
  with Cons.IH show ?case by simp
qed simp

text \<open>What the access log says was sent is what was sent, and the recorder changes nothing of it.\<close>

lemma access_log_exact:
  assumes "header_first False calls"
  shows "AccessLog req dur (calls, False) \<lparr>wr_status = None, wr_body = []\<rparr> = (w, p, lines) \<Longrightarrow>
    w = fold raw_call calls \<lparr>wr_status = None, wr_body = []\<rparr> \<and> \<not> p \<and>
    (\<exists>l. lines = [l] \<and> ll_bytes_out l = int (length (wr_body w)) \<and> ll_status l = (case wr_status w of Some s \<Rightarrow> s | None \<Rightarrow> 200))"
proof -
  let ?w = "\<lparr>wr_status = None, wr_body = []\<rparr> :: writer"
  let ?r = "fold rec_call calls (new_recorder ?w)"
  assume "AccessLog req dur (calls, False) ?w = (w, p, lines)"
  then have e: "w = rc_writer ?r" "\<not> p" "\<exists>l. lines = [l] \<and> ll_bytes_out l = rc_bytes ?r \<and> ll_status l = rec_Status ?r"
    by (auto simp: AccessLog_def Let_def)
  have "rec_ok ?r" using assms by (intro fold_rec_ok) (simp_all add: new_recorder_def rec_ok_def)
  then have "rc_bytes ?r = int (length (wr_body w))" "rec_Status ?r = (case wr_status w of Some s \<Rightarrow> s | None \<Rightarrow> 200)"
    unfolding e(1) by (auto simp: rec_ok_def rec_Status_def split: option.split)
  moreover have "w = fold raw_call calls ?w" unfolding e(1) fold_rec_writer by (simp add: new_recorder_def)
  ultimately show ?thesis using e(2,3) by simp
qed

text \<open>A panic before anything was sent becomes a 500. After the header the status stays, and the text of the error
  follows the bytes of the object.\<close>

lemma recover_panic:
  "Recover n (\<lparr>wr_status = None, wr_body = []\<rparr>, True) = \<lparr>wr_status = Some 500, wr_body = take n internal_error\<rparr>"
  "Recover n (\<lparr>wr_status = Some s, wr_body = b\<rparr>, True) = \<lparr>wr_status = Some s, wr_body = b @ take n internal_error\<rparr>"
  by (simp_all add: Recover_def send_header_def)

text \<open>A request whose handler panics has no line in the access log.\<close>

lemma panic_not_logged: "snd (watched req dur n (calls, True) w) = []"
  by (simp add: watched_def AccessLog_def Let_def split: prod.split)

text \<open>The two recorders agree, so the status in the metrics is the one in the log.\<close>

lemma stat_agrees:
  assumes "sr_status r = rc_status (sr_writer r)"
  shows "sr_status (fold stat_call cs r) = rc_status (sr_writer (fold stat_call cs r)) \<and>
    sr_writer (fold stat_call cs r) = fold rec_call cs (sr_writer r)"
  using assms
proof (induction cs arbitrary: r)
  case (Cons c cs)
  have "sr_status (stat_call c r) = rc_status (sr_writer (stat_call c r))" "sr_writer (stat_call c r) = rec_call c (sr_writer r)"
    using Cons.prems by (cases c; simp add: sr_note_def rr_note_def)+
  with Cons.IH show ?case by simp
qed simp

text \<open>A panic before the handler sent anything is counted in the metrics as a 200, while the client gets a 500.\<close>

lemma panic_counted_as_200:
  "stat_Status \<lparr>sr_writer = new_recorder w, sr_status = 0\<rparr> = 200"
  "wr_status (fst (watched req dur n ([], True) \<lparr>wr_status = None, wr_body = []\<rparr>)) = Some 500"
  by (simp_all add: stat_Status_def watched_def AccessLog_def new_recorder_def Recover_def send_header_def)

section \<open>Lemmas: metrics and routes\<close>

lemma mget_madd: "mget (madd k d m) k' = (if k' = k then Some ((case mget m k of Some n \<Rightarrow> n | None \<Rightarrow> 0) + d) else mget m k')"
  by (simp add: madd_def)

text \<open>After a request the gauge of requests in flight is where it was, and one more request is counted.\<close>

lemma observed_once:
  assumes "m' = observe_end req ns status d (observe_start req m)"
  shows "mget (rm_inflight m') (opName (rq_method req)) = Some (case mget (rm_inflight m) (opName (rq_method req)) of Some n \<Rightarrow> n | None \<Rightarrow> 0)"
    and "mget (rm_total m') (opName (rq_method req), ns, show_nat status) =
       Some ((case mget (rm_total m) (opName (rq_method req), ns, show_nat status) of Some n \<Rightarrow> n | None \<Rightarrow> 0) + 1)"
  by (simp_all add: assms observe_end_def observe_start_def ObserveRequest_def ObserveForwarded_def Let_def mget_madd)

text \<open>The profiling endpoints exist only in development mode.\<close>

lemma route_pattern:
  assumes "route opts method path = Inr e"
  shows "e \<in> (snd \<circ> snd \<circ> snd) ` set (router_patterns opts)"
proof -
  let ?ms = "filter (method_matches method) (filter (path_matches path) (router_patterns opts))"
  obtain p rest where p: "filter (\<lambda>(_, _, pre, _). \<not> pre) ?ms @ ?ms = p # rest" "e = snd (snd (snd p))"
    using assms by (simp add: route_def Let_def split: list.splits prod.splits)
  have "p \<in> set (filter (\<lambda>(_, _, pre, _). \<not> pre) ?ms @ ?ms)" unfolding p(1) by simp
  then have "p \<in> set (router_patterns opts)" by (simp only: set_append set_filter) blast
  with p(2) show ?thesis by (intro image_eqI [of _ _ p]) simp_all
qed

lemma pprof_needs_dev_mode:
  assumes "route opts method path = Inr e" "e \<in> {PprofIndex, PprofCmdline, PprofProfile, PprofSymbol, PprofTrace}"
  shows "ro_DevMode opts"
  using route_pattern [OF assms(1)] assms(2) by (auto simp: router_patterns_def split: if_splits)

end
