(* ===== verification/Spec2Isabelle.thy ===== *)
theory Spec2Isabelle
  imports Keys ConfigLoad Rendezvous EvictorTheorems RepairTheorems BenchTheorems Router
begin

text \<open>
  \<^bold>\<open>KilnCache: a verification library.\<close>

  KilnCache is a distributed build cache that speaks Bazel's HTTP cache protocol. A node stores objects
  as files, indexes them in a database, places every key on some members of a fixed membership,
  replicates uploads before it acknowledges them, answers reads from its disk or from a peer, evicts
  cold objects under a quota, and repairs missing replicas in the background.

  \<^bold>\<open>Parts and theories\<close> (paths are under \<^verbatim>\<open>src/\<close>).

  \<^item> \<open>Prelude_Go\<close>, \<open>GoErr\<close>, \<open>Float64\<close>: the language and its library as far as the sources use them: byte
    strings, maps, sorting; error values with \<^verbatim>\<open>errors.Is\<close> and message texts; binary64 arithmetic with
    exact rounding.
  \<^item> \<open>Keys\<close>: \<^verbatim>\<open>internal/storage/key.go\<close>, \<^verbatim>\<open>errors.go\<close>. Namespaces, key validation, object paths.
  \<^item> \<open>ConfigLoad\<close>: \<^verbatim>\<open>internal/config\<close>. The record \<open>Config\<close>, \<open>Validate\<close>, \<open>ParsePeers\<close>, \<open>ParseSize\<close>, \<open>Load\<close>.
  \<^item> \<open>Rendezvous\<close>: \<^verbatim>\<open>internal/cluster/ring.go\<close>. The record \<open>Ring\<close>, \<open>New\<close>, \<open>Owners\<close>, \<open>Holders\<close>. The locale
    \<open>placement\<close> is what the coordinator needs of a ring.
  \<^item> \<open>MetaIndex\<close>: \<^verbatim>\<open>internal/storage/index.go\<close>. The tables and pending reads, each query and transaction with
    its failure points. The locale \<open>index_contract\<close> is its map contract, \<open>evictable\<close> (in \<open>Evictor\<close>) what
    eviction needs of it.
  \<^item> \<open>ObjectStore\<close>, \<open>StoreTheorems\<close>: \<^verbatim>\<open>internal/storage/store.go\<close>, \<^verbatim>\<open>fsutil.go\<close>. The record \<open>Store\<close> over an
    explicit file system; \<open>Put\<close> stage by stage, reads with and without verification, deletion, opening
    and reconciliation. The abstraction \<open>objects\<close> maps a store to its objects.
  \<^item> \<open>CandidateHeap\<close>, \<open>Evictor\<close>, \<open>EvictorTheorems\<close>: \<^verbatim>\<open>internal/storage/evict.go\<close>. The heap with Go's sift
    algorithms (locale \<open>min_queue\<close>), scores, quota, the sweep and the loop around it.
  \<^item> \<open>Protocol\<close>, \<open>PeerClient\<close>, \<open>Coordinator\<close>, \<open>HttpApi\<close>: \<^verbatim>\<open>internal/protocol\<close>, \<^verbatim>\<open>internal/cluster/client.go\<close>,
    \<^verbatim>\<open>coordinator.go\<close>, \<^verbatim>\<open>internal/httpapi/cache.go\<close> and the cache routes of \<^verbatim>\<open>router.go\<close>. One definition per
    method, over the state of the whole cluster.
  \<^item> \<open>Replication\<close>: the contracts between coordinators and their peers as the locales \<open>safe_peers\<close>,
    \<open>replica_peers\<close> and \<open>read_peers\<close>, with the coordinator's lemmas proved once inside them.
  \<^item> \<open>ClusterSys\<close>, \<open>ClusterTheorems\<close>: nodes wired as \<^verbatim>\<open>internal/node/node.go\<close> wires them, over a network that can
    refuse, cut, lose and truncate every exchange. The peer locales are interpreted on this network.
  \<^item> \<open>RepairWorker\<close>, \<open>RepairTheorems\<close>: \<^verbatim>\<open>internal/repair/repair.go\<close>. The audit with its cursor, budget and queue,
    the repair of one object (locale \<open>repair_peers\<close>), the pool and its shutdown.
  \<^item> \<open>MetricSources\<close>, \<open>NodeLife\<close>: \<^verbatim>\<open>internal/metrics/metrics.go\<close>, \<^verbatim>\<open>internal/node/node.go\<close>,
    \<^verbatim>\<open>internal/httpapi/health.go\<close> and \<^verbatim>\<open>server.go\<close>. Derived metrics, assembly with every failure, and the life of
    a node from start to close as a step relation.
  \<^item> \<open>Router\<close>: \<^verbatim>\<open>internal/httpapi/middleware.go\<close>, \<^verbatim>\<open>router.go\<close>, \<^verbatim>\<open>stats.go\<close> and what \<^verbatim>\<open>cache.go\<close> reports to the metrics. The
    recorders as state changes per call of a writer, the access log, recovery, request counters and routes.
  \<^item> \<open>Command\<close>: \<^verbatim>\<open>cmd/kilncache\<close>, \<^verbatim>\<open>internal/logging\<close>, \<^verbatim>\<open>internal/buildinfo\<close>. The health check probe, exit codes, the
    choice of a logger, version strings.
  \<^item> \<open>Drivers\<close>, \<open>ChaosRun\<close>, \<open>ChaosTheorems\<close>: \<^verbatim>\<open>cmd/chaos\<close>. What the two drivers share (JSON values, random draws, polling),
    the chaos run with its ledger, workers, faults, convergence measurement, final verification and verdict, as a
    sequence of events over the cluster of \<open>ClusterSys\<close>. The locale \<open>honest_cache\<close> is what the runner assumes of a
    cache that works; it is interpreted on that cluster.
  \<^item> \<open>BenchLatency\<close>, \<open>BenchRun\<close>, \<open>BenchScenarios\<close>, \<open>BenchTheorems\<close>: \<^verbatim>\<open>cmd/bench\<close>. Latency summaries in floating point,
    corpora and generators, the measured run as turns of its workers, repetitions, preload and scenarios.

  \<^bold>\<open>How state and effects are modelled.\<close> A struct is a record, a method a function from the old to the new state,
  and an error a value. What the operating system, the database, the network or a cancelled context
  does during a call is an argument of the call, so every error branch of the code is a branch of
  the model and the properties hold for every such argument unless they say otherwise. Code outside
  the repository is a parameter: SHA-256 (\<open>sha\<close>), \<^verbatim>\<open>url.Parse\<close> and the \<^verbatim>\<open>strconv\<close> converters, \<^verbatim>\<open>math.Log2\<close>, the
  metrics registry. Goroutines that share state are sequences of their atomic turns.

  \<^bold>\<open>What the theorems show.\<close> Placement: owners are the members in weight order, and a member that leaves moves
  only its own keys. Store: what is published is the whole verified body or nothing, content
  addressing is invariant, index and disk agree, reconciliation restores the agreement. Eviction: a
  sweep ends at the low water mark with the least scores removed and never undercounts. Cluster:
  forwarding is bounded, acknowledged uploads are replicated, reads return stored bytes, a miss is a
  miss everywhere, acknowledged objects survive failures, repair restores what is missing and only
  fills gaps, and the audit skips nothing and reaches everything. Node: what \<^verbatim>\<open>New\<close> returns is
  well-formed and forms the cluster the other theorems are about, failed assemblies leave nothing
  open, and shutdown is ordered and completes. Chaos runner: it raises no false alarm on a cluster that
  works, its books balance, its convergence and final verification measure what they say, and a run ends.
  Benchmark: percentiles are exact nearest ranks, operations are errors and recorded latencies, and a preload that
  reports success left the objects it checked in the cluster. Command and front: the health check exits with
  the readiness of the node; for a handler that sends a final status before it flushes and does not panic, the
  access log states what was sent.

  \<^bold>\<open>Bounds and fuel.\<close> Serving a request takes fuel for the forwards it may cause; \<open>client_request\<close> gives it two,
  and \<open>forwarding_bounded\<close> shows that more fuel never changes an answer. The outer loop of a sweep is a
  partial function, and \<open>Sweep_reaches_low_water\<close> shows that it returns. The audit's recursion is
  bounded by the index, and \<open>audit_covers_index\<close> gives the number of passes. Everything else is total.

  \<^bold>\<open>Not modelled.\<close> The SQL engine and its connection pools, TCP and TLS, HTTP framing beyond lengths and
  truncation, Go's flag syntax, the text of logs, the exposition of metrics, and the schedule of
  goroutines inside one atomic turn. Of \<^verbatim>\<open>net/http\<close> only the documented rules of the response writer and the mux on
  clean paths are used. Of the drivers, the flag parsers, the notes and printed summaries of their reports, the
  writing of the report files, the download of profiles, the description of the host and
  \<^verbatim>\<open>cmd/bench/render.go\<close>, which formats a report as text, are left out: they do not touch the cache or decide a result.
\<close>

end
